(* ===== verification/Prelude.thy ===== *)
theory Prelude
  imports Main "HOL-Library.List_Lexorder" "HOL-Library.Char_ord" "HOL-Library.Word"
begin

text \<open>
  The shared vocabulary of the development. A Go string is a byte sequence, so it is a
  \<^typ>\<open>string\<close> (a list of 8-bit characters). This theory models the functions of Go's
  strings, strconv, encoding/hex and time packages that the program calls, and proves the
  facts about them that the component theories share. The collection go_text holds the
  rewriting rules for text functions, go_num those for numerals and 64-bit arithmetic.
\<close>

named_theorems go_text \<open>rewriting rules for the text functions\<close>
named_theorems go_num \<open>rewriting rules for numerals and 64-bit arithmetic\<close>

type_synonym bytes = string
type_synonym time = int      \<comment> \<open>time.Time: nanoseconds since the Unix epoch\<close>
type_synonym duration = int  \<comment> \<open>time.Duration: nanoseconds\<close>
type_synonym i64 = "64 word"
type_synonym values_map = "(string \<times> string list) list"
  \<comment> \<open>map[string][]string with distinct keys, in some iteration order\<close>

subsection \<open>Prefixes, suffixes and searching\<close>

fun hasPrefix :: "string \<Rightarrow> string \<Rightarrow> bool" where
  "hasPrefix s [] = True"
| "hasPrefix [] (p # ps) = False"
| "hasPrefix (c # cs) (p # ps) = (c = p \<and> hasPrefix cs ps)"

definition hasSuffix :: "string \<Rightarrow> string \<Rightarrow> bool" where
  "hasSuffix s p = hasPrefix (rev s) (rev p)"

fun contains :: "string \<Rightarrow> string \<Rightarrow> bool" where
  "contains [] sub = (sub = [])"
| "contains (c # cs) sub = (hasPrefix (c # cs) sub \<or> contains cs sub)"

fun indexByte :: "string \<Rightarrow> char \<Rightarrow> nat option" where
  "indexByte [] b = None"
| "indexByte (c # cs) b = (if c = b then Some 0 else map_option Suc (indexByte cs b))"

definition lastIndexByte :: "string \<Rightarrow> char \<Rightarrow> nat option" where
  "lastIndexByte s b = map_option (\<lambda>i. length s - 1 - i) (indexByte (rev s) b)"

definition containsAny :: "string \<Rightarrow> string \<Rightarrow> bool" where
  "containsAny s chars = list_ex (\<lambda>c. c \<in> set chars) s"

lemma hasPrefix_iff: "hasPrefix s p \<longleftrightarrow> (\<exists>t. s = p @ t)"
  by (induction s p rule: hasPrefix.induct) auto

lemma hasPrefix_append [simp]: "hasPrefix (p @ t) p"
  by (auto simp: hasPrefix_iff)

lemma hasPrefix_self [simp]: "hasPrefix p p"
  by (simp add: hasPrefix_iff)

lemma hasPrefix_append_same [simp]: "hasPrefix (q @ s) (q @ p) = hasPrefix s p"
  by (auto simp: hasPrefix_iff)

lemma hasPrefix_length: "hasPrefix s p \<Longrightarrow> length p \<le> length s"
  by (auto simp: hasPrefix_iff)

lemma hasSuffix_iff: "hasSuffix s p \<longleftrightarrow> (\<exists>t. s = t @ p)"
proof -
  have "rev s = rev p @ t \<longleftrightarrow> s = rev t @ p" for t
    by (metis rev_append rev_rev_ident)
  then show ?thesis unfolding hasSuffix_def hasPrefix_iff
    by (metis rev_rev_ident)
qed

lemma contains_iff: "contains s sub \<longleftrightarrow> (\<exists>a b. s = a @ sub @ b)"
proof (induction s)
  case Nil
  then show ?case by simp
next
  case (Cons c cs)
  have "(\<exists>a b. c # cs = a @ sub @ b) \<longleftrightarrow> (\<exists>b. c # cs = sub @ b) \<or> (\<exists>a b. cs = a @ sub @ b)"
    by (metis append_Cons append_Nil list.sel(3) neq_Nil_conv)
  with Cons show ?case by (simp add: hasPrefix_iff)
qed

lemma indexByte_Some:
  "indexByte s b = Some i \<Longrightarrow> i < length s \<and> s ! i = b \<and> b \<notin> set (take i s)"
  by (induction s b arbitrary: i rule: indexByte.induct) (auto split: if_splits)

lemma indexByte_None: "indexByte s b = None \<longleftrightarrow> b \<notin> set s"
  by (induction s b rule: indexByte.induct) auto

lemma indexByte_split:
  "b \<notin> set a \<Longrightarrow> indexByte (a @ b # r) b = Some (length a)"
  by (induction a) auto

lemma lastIndexByte_split:
  "b \<notin> set r \<Longrightarrow> lastIndexByte (a @ b # r) b = Some (length a)"
  using indexByte_split [of b "rev r" "rev a"] by (simp add: lastIndexByte_def)

lemma lastIndexByte_None: "lastIndexByte s b = None \<longleftrightarrow> b \<notin> set s"
  by (simp add: lastIndexByte_def indexByte_None)

lemma containsAny_iff: "containsAny s chars \<longleftrightarrow> set s \<inter> set chars \<noteq> {}"
  by (auto simp: containsAny_def list_ex_iff)

subsection \<open>Splitting and joining\<close>

text \<open>strings.Split with a one-byte separator: never the empty list.\<close>

fun splitOn :: "char \<Rightarrow> string \<Rightarrow> string list" where
  "splitOn b [] = [[]]"
| "splitOn b (c # cs) =
     (if c = b then [] # splitOn b cs
      else (case splitOn b cs of [] \<Rightarrow> [[c]] | w # ws \<Rightarrow> (c # w) # ws))"

text \<open>strings.SplitN and bytes.SplitN with a one-byte separator and n = Suc k.\<close>

fun splitN :: "char \<Rightarrow> nat \<Rightarrow> string \<Rightarrow> string list" where
  "splitN b 0 s = [s]"
| "splitN b (Suc k) s =
     (case indexByte s b of None \<Rightarrow> [s] | Some i \<Rightarrow> take i s # splitN b k (drop (Suc i) s))"

fun join :: "string \<Rightarrow> string list \<Rightarrow> string" where
  "join sep [] = []"
| "join sep [w] = w"
| "join sep (w # v # ws) = w @ sep @ join sep (v # ws)"

lemma splitOn_nonempty [simp]: "splitOn b s \<noteq> []"
  by (induction s) (auto split: list.splits)

lemma splitOn_no_sep: "b \<notin> set s \<Longrightarrow> splitOn b s = [s]"
  by (induction s) auto

lemma splitOn_append: "b \<notin> set w \<Longrightarrow> splitOn b (w @ b # s) = w # splitOn b s"
  by (induction w) auto

lemma splitOn_join:
  "ws \<noteq> [] \<Longrightarrow> \<forall>w \<in> set ws. b \<notin> set w \<Longrightarrow> splitOn b (join [b] ws) = ws"
  by (induction "[b]" ws rule: join.induct) (auto simp: splitOn_no_sep splitOn_append)

lemma join_splitOn: "join [b] (splitOn b s) = s"
proof (induction s)
  case Nil
  then show ?case by simp
next
  case (Cons c cs)
  obtain w ws where "splitOn b cs = w # ws"
    using splitOn_nonempty by (metis neq_Nil_conv)
  with Cons show ?case by (cases ws) auto
qed

lemma splitOn_pieces: "w \<in> set (splitOn b s) \<Longrightarrow> b \<notin> set w"
  by (induction s arbitrary: w) (auto split: if_splits list.splits)

lemma splitN_first:
  "b \<notin> set a \<Longrightarrow> splitN b (Suc k) (a @ b # r) = a # splitN b k r"
  by (simp add: indexByte_split)


subsection \<open>White space and letter case\<close>

text \<open>
  strings.TrimSpace removes Unicode white space at both ends. Its code points in UTF-8:
  the six ASCII ones, U+0085, U+00A0, U+1680, U+2000 to U+200A, U+2028, U+2029, U+202F,
  U+205F and U+3000. A string ends in one of these runes exactly when it ends in its bytes.
\<close>

definition spaces :: "string list" where
  "spaces =
     map (\<lambda>c. [c]) [CHR 0x20, CHR 0x09, CHR 0x0A, CHR 0x0B, CHR 0x0C, CHR 0x0D]
     @ [[CHR 0xC2, CHR 0x85], [CHR 0xC2, CHR 0xA0], [CHR 0xE1, CHR 0x9A, CHR 0x80]]
     @ map (\<lambda>c. [CHR 0xE2, CHR 0x80, c])
         [CHR 0x80, CHR 0x81, CHR 0x82, CHR 0x83, CHR 0x84, CHR 0x85, CHR 0x86, CHR 0x87,
          CHR 0x88, CHR 0x89, CHR 0x8A, CHR 0xA8, CHR 0xA9, CHR 0xAF]
     @ [[CHR 0xE2, CHR 0x81, CHR 0x9F], [CHR 0xE3, CHR 0x80, CHR 0x80]]"

text \<open>Drop leading words of a list as long as there is one; each word drops at least a byte.\<close>

function trimLeading :: "string list \<Rightarrow> string \<Rightarrow> string" where
  "trimLeading ws s =
     (case find (\<lambda>w. w \<noteq> [] \<and> hasPrefix s w) ws of
        None \<Rightarrow> s
      | Some w \<Rightarrow> trimLeading ws (drop (length w) s))"
  by pat_completeness auto
termination
proof (relation "measure (\<lambda>(ws, s). length s)")
  show "((ws, drop (length w) s), (ws, s)) \<in> measure (\<lambda>(ws, s). length s)"
    if "find (\<lambda>w. w \<noteq> [] \<and> hasPrefix s w) ws = Some w" for ws s w
    using that by (auto simp: find_Some_iff hasPrefix_iff)
qed simp

declare trimLeading.simps [simp del]

definition trimSpace :: "string \<Rightarrow> string" where
  "trimSpace s = rev (trimLeading (map rev spaces) (rev (trimLeading spaces s)))"

lemma trimLeading_id:
  "\<forall>w \<in> set ws. w \<noteq> [] \<longrightarrow> \<not> hasPrefix s w \<Longrightarrow> trimLeading ws s = s"
  by (subst trimLeading.simps) (auto split: option.splits simp: find_Some_iff)

lemma trimLeading_done:
  "\<forall>w \<in> set ws. w \<noteq> [] \<longrightarrow> \<not> hasPrefix (trimLeading ws s) w"
proof (induction ws s rule: trimLeading.induct)
  case (1 ws s)
  show ?case
  proof (cases "find (\<lambda>w. w \<noteq> [] \<and> hasPrefix s w) ws")
    case None
    then have "\<forall>w \<in> set ws. w \<noteq> [] \<longrightarrow> \<not> hasPrefix s w" by (auto simp: find_None_iff)
    then show ?thesis by (simp add: trimLeading_id)
  next
    case (Some w)
    with 1 have "\<forall>v \<in> set ws. v \<noteq> [] \<longrightarrow> \<not> hasPrefix (trimLeading ws (drop (length w) s)) v"
      by simp
    with Some show ?thesis by (subst trimLeading.simps) simp
  qed
qed

lemma trimLeading_suffix: "\<exists>a. s = a @ trimLeading ws s"
proof (induction ws s rule: trimLeading.induct)
  case (1 ws s)
  show ?case
  proof (cases "find (\<lambda>w. w \<noteq> [] \<and> hasPrefix s w) ws")
    case None
    then show ?thesis by (subst trimLeading.simps) simp
  next
    case (Some w)
    then have "take (length w) s = w" by (auto simp: find_Some_iff hasPrefix_iff)
    moreover from Some have "trimLeading ws s = trimLeading ws (drop (length w) s)"
      by (subst trimLeading.simps) simp
    moreover from 1 Some obtain a where "drop (length w) s = a @ trimLeading ws (drop (length w) s)"
      by blast
    ultimately have "s = (w @ a) @ trimLeading ws s"
      by (metis append_assoc append_take_drop_id)
    then show ?thesis by blast
  qed
qed

lemma trimLeading_Nil [simp]: "trimLeading ws [] = []"
  by (rule trimLeading_id) (auto simp: hasPrefix_iff)

lemma trimSpace_Nil [simp]: "trimSpace [] = []"
  by (simp add: trimSpace_def)

lemma trimSpace_infix: "\<exists>a b. s = a @ trimSpace s @ b"
proof -
  obtain a where a: "s = a @ trimLeading spaces s" using trimLeading_suffix by blast
  obtain b where "rev (trimLeading spaces s) = b @ trimLeading (map rev spaces) (rev (trimLeading spaces s))"
    using trimLeading_suffix by blast
  then have "trimLeading spaces s = trimSpace s @ rev b"
    unfolding trimSpace_def by (metis rev_append rev_rev_ident)
  with a show ?thesis by metis
qed

lemma trimSpace_subset: "set (trimSpace s) \<subseteq> set s"
  using trimSpace_infix [of s] by (metis set_append sup_ge1 sup_ge2 sup.coboundedI2)

lemma trimSpace_length: "length (trimSpace s) \<le> length s"
  using trimSpace_infix [of s] by (metis length_append le_add1 le_add2 le_trans)

text \<open>A string that starts and ends in a visible ASCII character is its own trim.\<close>

definition graphic :: "char \<Rightarrow> bool" where
  "graphic c = (let n = of_char c :: nat in 33 \<le> n \<and> n \<le> 126)"

lemma spaces_ends: "w \<in> set spaces \<Longrightarrow> w \<noteq> [] \<and> \<not> graphic (hd w) \<and> \<not> graphic (last w)"
  unfolding spaces_def by (simp add: graphic_def) (elim disjE; simp)

lemma hasPrefix_hd: "hasPrefix s w \<Longrightarrow> w \<noteq> [] \<Longrightarrow> s \<noteq> [] \<and> hd s = hd w"
  by (cases s; cases w) simp_all

lemma trimSpace_graphic:
  assumes "s \<noteq> []" and "graphic (hd s)" and "graphic (last s)"
  shows "trimSpace s = s"
proof -
  have front: "trimLeading spaces s = s"
    using assms(2) spaces_ends hasPrefix_hd by (intro trimLeading_id) metis
  have "\<not> hasPrefix (rev s) v" if "v \<in> set (map rev spaces)" for v
  proof
    assume "hasPrefix (rev s) v"
    moreover from that have "v \<in> rev ` set spaces" by (simp only: list.set_map)
    then obtain w where w: "v = rev w" "w \<in> set spaces" by (rule imageE)
    moreover note spaces_ends [OF w(2)]
    ultimately show False using assms(1,3) hasPrefix_hd [of "rev s" v] by (simp add: hd_rev)
  qed
  then have "trimLeading (map rev spaces) (rev s) = rev s" by (intro trimLeading_id) simp
  with front show ?thesis by (simp add: trimSpace_def)
qed

text \<open>
  Letter case. Strings of ASCII bytes are mapped byte by byte; strings.ToLower and
  strings.ToUpper send any other string through the Unicode tables, which are an argument.
\<close>

definition ascii :: "char \<Rightarrow> bool" where
  "ascii c = (of_char c < (128::nat))"

definition lowerByte :: "char \<Rightarrow> char" where
  "lowerByte c =
     (let n = of_char c :: nat in if 65 \<le> n \<and> n \<le> 90 then char_of (n + 32) else c)"

definition upperByte :: "char \<Rightarrow> char" where
  "upperByte c =
     (let n = of_char c :: nat in if 97 \<le> n \<and> n \<le> 122 then char_of (n - 32) else c)"

definition toLower :: "(string \<Rightarrow> string) \<Rightarrow> string \<Rightarrow> string" where
  "toLower unicode s = (if list_all ascii s then map lowerByte s else unicode s)"

definition toUpper :: "(string \<Rightarrow> string) \<Rightarrow> string \<Rightarrow> string" where
  "toUpper unicode s = (if list_all ascii s then map upperByte s else unicode s)"

text \<open>
  strings.EqualFold, as the program uses it: one side is an ASCII literal and the other a
  slice of the same byte length, where Unicode folding and ASCII folding agree (a multi-byte
  rune would leave the slice with fewer runes than the literal).
\<close>

definition equalFold :: "string \<Rightarrow> string \<Rightarrow> bool" where
  "equalFold s t = (map lowerByte s = map lowerByte t)"

lemma equalFold_refl [simp]: "equalFold s s"
  by (simp add: equalFold_def)

lemma equalFold_length: "equalFold s t \<Longrightarrow> length s = length t"
  unfolding equalFold_def by (metis length_map)

subsection \<open>Go maps\<close>

text \<open>
  A Go map is a list of pairs with distinct keys, whose order stands for the order in which a
  range over the map visits it; assignment replaces the entry or adds one.
\<close>

fun mapSet :: "'k \<Rightarrow> 'v \<Rightarrow> ('k \<times> 'v) list \<Rightarrow> ('k \<times> 'v) list" where
  "mapSet k v [] = [(k, v)]"
| "mapSet k v ((k', v') # m) = (if k' = k then (k, v) # m else (k', v') # mapSet k v m)"

lemma map_of_mapSet [simp]: "map_of (mapSet k v m) = (map_of m)(k \<mapsto> v)"
  by (induction k v m rule: mapSet.induct) (auto simp: fun_eq_iff)

lemma fst_mapSet [simp]: "fst ` set (mapSet k v m) = insert k (fst ` set m)"
  by (induction k v m rule: mapSet.induct) auto

lemma distinct_mapSet [simp]: "distinct (map fst m) \<Longrightarrow> distinct (map fst (mapSet k v m))"
proof (induction k v m rule: mapSet.induct)
  case (2 k v k' v' m)
  then show ?case using fst_mapSet [of k v m] by auto
qed simp

text \<open>Two orders of the same map.\<close>

definition sameMap :: "('k \<times> 'v) list \<Rightarrow> ('k \<times> 'v) list \<Rightarrow> bool" where
  "sameMap m m' \<longleftrightarrow> distinct (map fst m) \<and> distinct (map fst m') \<and> map_of m = map_of m'"

lemma sameMap_set: "sameMap m m' \<Longrightarrow> set m = set m'"
  unfolding sameMap_def by (metis map_of_inject_set)

lemma sameMap_inj: "sameMap m m' \<Longrightarrow> inj_on fst (set m \<union> set m')"
  unfolding sameMap_set [of m m'] by (simp add: sameMap_def distinct_map)

lemma sameMap_sort:
  fixes m m' :: "('k :: linorder \<times> 'v) list"
  assumes "sameMap m m'"
  shows "sort_key fst m = sort_key fst m'"
proof (rule map_sorted_distinct_set_unique [of fst])
  from sameMap_inj [OF assms] show "inj_on fst (set (sort_key fst m) \<union> set (sort_key fst m'))" by simp
  from assms show "distinct (map fst (sort_key fst m))" "distinct (map fst (sort_key fst m'))"
    by (simp_all add: sameMap_def distinct_map)
  from sameMap_set [OF assms] show "set (sort_key fst m) = set (sort_key fst m')" by simp
qed simp_all

lemma insort_map_fst: "insort (fst e) (map fst m) = map fst (insort_key fst e m)"
  by (induction m) simp_all

lemma sort_map_fst: "sort (map fst m) = map fst (sort_key fst m)"
  by (induction m) (simp_all add: insort_map_fst)

lemma sameMap_mapSet: "sameMap m m' \<Longrightarrow> sameMap (mapSet k v m) (mapSet k v m')"
  by (simp add: sameMap_def)

lemma sameMap_keys:
  fixes m m' :: "('k :: linorder \<times> 'v) list"
  shows "sameMap m m' \<Longrightarrow> sort (map fst m) = sort (map fst m')"
  by (simp add: sort_map_fst sameMap_sort)

text \<open>A map built from another by renaming the keys apart does not depend on the other's order.\<close>

lemma fold_mapSet_lookup:
  assumes "distinct (map (\<lambda>e. f (fst e)) es)"
  shows "map_of (fold (\<lambda>(k, v) m. mapSet (f k) (h v) m) es m0) x =
    (case map_of (map (\<lambda>(k, v). (f k, h v)) es) x of Some w \<Rightarrow> Some w | None \<Rightarrow> map_of m0 x)"
  using assms
proof (induction es arbitrary: m0)
  case (Cons e es)
  obtain k v where e: "e = (k, v)" by (cases e)
  have "map_of (map (\<lambda>(k, v). (f k, h v)) es) (f k) = None"
    using Cons.prems e by (force simp: map_of_eq_None_iff)
  with Cons e show ?case by (auto split: option.split)
qed simp

lemma fold_mapSet_distinct:
  "distinct (map fst m0) \<Longrightarrow> distinct (map fst (fold (\<lambda>(k, v) m. mapSet (f k) (h v) m) es m0))"
  by (induction es arbitrary: m0) auto

lemma fold_mapSet_same:
  assumes "sameMap es es'" and "inj_on f (fst ` set es)"
  shows "sameMap (fold (\<lambda>(k, v) m. mapSet (f k) (h v) m) es []) (fold (\<lambda>(k, v) m. mapSet (f k) (h v) m) es' [])"
proof -
  have eq: "set es = set es'" using assms(1) by (rule sameMap_set)
  have d: "distinct (map (\<lambda>e. f (fst e)) xs)" if "distinct (map fst xs)" "set xs = set es" for xs
    using that assms(2) distinct_map [of f "map fst xs"] by (simp add: comp_def)
  then have ds: "distinct (map (\<lambda>e. f (fst e)) es)" "distinct (map (\<lambda>e. f (fst e)) es')"
    using assms(1) eq by (auto simp: sameMap_def)
  let ?g = "map (\<lambda>(k, v). (f k, h v))"
  have "map_of (?g es) = map_of (?g es')"
    using ds eq by (subst map_of_inject_set) (auto simp: comp_def case_prod_unfold)
  then have "map_of (fold (\<lambda>(k, v) m. mapSet (f k) (h v) m) es []) = map_of (fold (\<lambda>(k, v) m. mapSet (f k) (h v) m) es' [])"
    by (intro ext) (simp only: fold_mapSet_lookup [OF ds(1)] fold_mapSet_lookup [OF ds(2)])
  then show ?thesis
    by (simp add: sameMap_def fold_mapSet_distinct)
qed

end
