(* ===== verification/GoNum.thy ===== *)
theory GoNum
  imports Prelude
begin

text \<open>
  Numerals, hexadecimal and base64 text, 64-bit arithmetic and time differences: the parts
  of Go's strconv, encoding/hex, encoding/base64 and time packages that the program calls,
  with their round trips.
\<close>

subsection \<open>Decimal numerals\<close>

definition isDigit :: "char \<Rightarrow> bool" where
  "isDigit c = (let n = of_char c :: nat in 48 \<le> n \<and> n \<le> 57)"

definition digitVal :: "char \<Rightarrow> nat" where
  "digitVal c = of_char c - 48"

definition digitChar :: "nat \<Rightarrow> char" where
  "digitChar d = char_of (48 + d)"

fun showNat :: "nat \<Rightarrow> string" where
  "showNat n = (if n < 10 then [digitChar n] else showNat (n div 10) @ [digitChar (n mod 10)])"

declare showNat.simps [simp del]

text \<open>strconv.FormatInt with base 10.\<close>

definition formatInt :: "int \<Rightarrow> string" where
  "formatInt i = (if i < 0 then CHR ''-'' # showNat (nat (- i)) else showNat (nat i))"

fun readNat :: "nat \<Rightarrow> string \<Rightarrow> nat option" where
  "readNat acc [] = Some acc"
| "readNat acc (c # cs) = (if isDigit c then readNat (10 * acc + digitVal c) cs else None)"

text \<open>
  strconv.ParseInt with base 10 and 64 bits: an optional sign, at least one digit, nothing
  else, and a value that fits.
\<close>

definition parseInt :: "string \<Rightarrow> int option" where
  "parseInt s =
     (case s of
        [] \<Rightarrow> None
      | c # r \<Rightarrow>
          (let neg = (c = CHR ''-'');
               ds = (if c = CHR ''-'' \<or> c = CHR ''+'' then r else s)
           in if ds = [] then None
              else (case readNat 0 ds of
                      None \<Rightarrow> None
                    | Some n \<Rightarrow>
                        if neg then (if n \<le> 2 ^ 63 then Some (- int n) else None)
                        else (if n < 2 ^ 63 then Some (int n) else None))))"

lemma of_char_less [go_num]: "of_char c < (256::nat)"
  using nat_of_char_less_256 by simp

lemma of_char_of [go_num]: "n < 256 \<Longrightarrow> of_char (char_of n :: char) = (n::nat)"
  by simp

lemma digitChar_props [simp]:
  "d < 10 \<Longrightarrow> isDigit (digitChar d)"
  "d < 10 \<Longrightarrow> digitVal (digitChar d) = d"
  by (simp_all add: isDigit_def digitVal_def digitChar_def)

lemma readNat_append:
  "readNat acc (s @ t) = (case readNat acc s of None \<Rightarrow> None | Some a \<Rightarrow> readNat a t)"
  by (induction acc s rule: readNat.induct) auto

lemma readNat_showNat: "readNat 0 (showNat n) = Some n"
proof (induction n rule: showNat.induct)
  case (1 n)
  show ?case
  proof (cases "n < 10")
    case True
    then show ?thesis by (subst showNat.simps) simp
  next
    case False
    with 1 show ?thesis by (subst showNat.simps) (simp add: readNat_append)
  qed
qed

lemma showNat_digits: "c \<in> set (showNat n) \<Longrightarrow> isDigit c"
proof (induction n arbitrary: c rule: showNat.induct)
  case (1 n)
  show ?case
  proof (cases "n < 10")
    case True
    with "1.prems" show ?thesis by (simp add: showNat.simps [of n])
  next
    case False
    with 1 show ?thesis by (auto simp: showNat.simps [of n])
  qed
qed

lemma showNat_nonempty [simp]: "showNat n \<noteq> []"
  by (subst showNat.simps) simp

lemma isDigit_not_sign: "isDigit c \<Longrightarrow> c \<noteq> CHR ''-'' \<and> c \<noteq> CHR ''+'' \<and> c \<noteq> CHR ''.''"
  by (auto simp: isDigit_def)

lemma readNat_digits: "readNat acc s = Some n \<Longrightarrow> c \<in> set s \<Longrightarrow> isDigit c"
  by (induction acc s rule: readNat.induct) (auto split: if_splits)

lemma parseInt_digits:
  assumes "readNat 0 ds = Some n" and "ds \<noteq> []" and "n < 2 ^ 63"
  shows "parseInt ds = Some (int n)"
proof -
  obtain c r where ds: "ds = c # r" using assms(2) by (cases ds) auto
  with assms(1) have "isDigit c" by (auto split: if_splits)
  with isDigit_not_sign ds assms show ?thesis
    by (auto simp: parseInt_def Let_def simp del: readNat.simps)
qed

lemma parseInt_formatInt:
  assumes "- (2 ^ 63) \<le> i" and "i < 2 ^ 63"
  shows "parseInt (formatInt i) = Some i"
proof (cases "i < 0")
  case True
  with assms have "nat (- i) \<le> 2 ^ 63" by simp
  with True show ?thesis by (simp add: formatInt_def parseInt_def Let_def readNat_showNat)
next
  case False
  with assms have "nat i < 2 ^ 63" by simp
  then have "parseInt (showNat (nat i)) = Some (int (nat i))"
    by (intro parseInt_digits readNat_showNat) simp_all
  with False show ?thesis by (simp add: formatInt_def)
qed

lemma formatInt_chars: "c \<in> set (formatInt i) \<Longrightarrow> isDigit c \<or> c = CHR ''-''"
  by (auto simp: formatInt_def dest: showNat_digits split: if_splits)

lemma formatInt_no_dot: "CHR ''.'' \<notin> set (formatInt i)"
  using formatInt_chars isDigit_not_sign by fastforce

lemma parseInt_range: "parseInt s = Some i \<Longrightarrow> - (2 ^ 63) \<le> i \<and> i < 2 ^ 63"
  by (auto simp: parseInt_def Let_def split: list.splits option.splits if_splits)

subsection \<open>Hexadecimal text\<close>

definition hexDigits :: string where
  "hexDigits = ''0123456789abcdef''"

definition hexPair :: "char \<Rightarrow> string" where
  "hexPair c = [hexDigits ! (of_char c div 16), hexDigits ! (of_char c mod 16)]"

text \<open>hex.EncodeToString and hex.DecodeString (both letter cases, even length).\<close>

definition hexEncode :: "bytes \<Rightarrow> string" where
  "hexEncode bs = concat (map hexPair bs)"

definition hexVal :: "char \<Rightarrow> nat option" where
  "hexVal c =
     (let n = of_char c :: nat in
      if 48 \<le> n \<and> n \<le> 57 then Some (n - 48)
      else if 97 \<le> n \<and> n \<le> 102 then Some (n - 87)
      else if 65 \<le> n \<and> n \<le> 70 then Some (n - 55)
      else None)"

fun hexDecode :: "string \<Rightarrow> bytes option" where
  "hexDecode [] = Some []"
| "hexDecode [c] = None"
| "hexDecode (c # d # r) =
     (case (hexVal c, hexVal d, hexDecode r) of
        (Some h, Some l, Some bs) \<Rightarrow> Some (char_of (16 * h + l) # bs)
      | _ \<Rightarrow> None)"

lemma hexDigits_props: "k < 16 \<Longrightarrow> hexVal (hexDigits ! k) = Some k \<and> hexDigits ! k \<noteq> CHR ''.''"
proof -
  have "\<forall>k \<in> {..<16}. hexVal (hexDigits ! k) = Some k \<and> hexDigits ! k \<noteq> CHR ''.''"
    by (simp add: lessThan_nat_numeral hexDigits_def hexVal_def Let_def lessThan_Suc)
  then show "k < 16 \<Longrightarrow> hexVal (hexDigits ! k) = Some k \<and> hexDigits ! k \<noteq> CHR ''.''" by auto
qed

lemma high_nibble [simp]: "of_char c div 16 < (16::nat)"
  using of_char_less [of c] by (intro less_mult_imp_div_less) simp

lemma hexDecode_hexEncode: "hexDecode (hexEncode bs) = Some bs"
proof (induction bs)
  case Nil
  then show ?case by (simp add: hexEncode_def)
next
  case (Cons c cs)
  then show ?case
    by (simp add: hexEncode_def hexPair_def hexDigits_props)
qed

lemma hexEncode_no_dot: "CHR ''.'' \<notin> set (hexEncode bs)"
proof -
  have "CHR ''.'' \<notin> set (hexPair c)" for c
    using hexDigits_props [of "of_char c div 16"] hexDigits_props [of "of_char c mod 16"]
    by (simp add: hexPair_def) metis
  then show ?thesis by (auto simp: hexEncode_def)
qed

subsection \<open>Base64 text\<close>

definition b64Alphabet :: string where
  "b64Alphabet = ''ABCDEFGHIJKLMNOPQRSTUVWXYZabcdefghijklmnopqrstuvwxyz0123456789+/''"

definition b64Val :: "char \<Rightarrow> nat option" where
  "b64Val c =
     (let n = of_char c :: nat in
      if 65 \<le> n \<and> n \<le> 90 then Some (n - 65)
      else if 97 \<le> n \<and> n \<le> 122 then Some (n - 71)
      else if 48 \<le> n \<and> n \<le> 57 then Some (n + 4)
      else if n = 43 then Some 62 else if n = 47 then Some 63 else None)"

text \<open>
  base64.StdEncoding.DecodeString: line breaks are skipped, the rest comes in groups of four
  with padding only at the end, and unused trailing bits are ignored.
\<close>

fun b64Groups :: "string \<Rightarrow> bytes option" where
  "b64Groups [] = Some []"
| "b64Groups (a # b # c # d # r) =
     (case (b64Val a, b64Val b) of
        (Some x, Some y) \<Rightarrow>
          (if c = CHR ''='' \<and> d = CHR ''='' \<and> r = [] then Some [char_of (x * 4 + y div 16)]
           else (case b64Val c of
                   None \<Rightarrow> None
                 | Some z \<Rightarrow>
                     (if d = CHR ''='' \<and> r = []
                      then Some [char_of (x * 4 + y div 16), char_of (y mod 16 * 16 + z div 4)]
                      else (case (b64Val d, b64Groups r) of
                              (Some w, Some bs) \<Rightarrow>
                                Some (char_of (x * 4 + y div 16) # char_of (y mod 16 * 16 + z div 4)
                                      # char_of (z mod 4 * 64 + w) # bs)
                            | _ \<Rightarrow> None))))
      | _ \<Rightarrow> None)"
| "b64Groups s = None"

definition b64Decode :: "string \<Rightarrow> bytes option" where
  "b64Decode s = b64Groups (filter (\<lambda>c. c \<noteq> CHR 0x0A \<and> c \<noteq> CHR 0x0D) s)"

text \<open>base64.StdEncoding.EncodeToString.\<close>

fun b64Encode :: "bytes \<Rightarrow> string" where
  "b64Encode [] = []"
| "b64Encode [a] =
     (let x = of_char a :: nat in [b64Alphabet ! (x div 4), b64Alphabet ! (x mod 4 * 16), CHR ''='', CHR ''=''])"
| "b64Encode [a, b] =
     (let x = of_char a :: nat; y = of_char b in
      [b64Alphabet ! (x div 4), b64Alphabet ! (x mod 4 * 16 + y div 16), b64Alphabet ! (y mod 16 * 4), CHR ''=''])"
| "b64Encode (a # b # c # r) =
     (let x = of_char a :: nat; y = of_char b; z = of_char c in
      [b64Alphabet ! (x div 4), b64Alphabet ! (x mod 4 * 16 + y div 16),
       b64Alphabet ! (y mod 16 * 4 + z div 64), b64Alphabet ! (z mod 64)] @ b64Encode r)"

subsection \<open>64-bit integers and time differences\<close>

definition wrap64 :: "int \<Rightarrow> int" where
  "wrap64 n = sint (word_of_int n :: i64)"

lemma wrap64_id [go_num]: "- (2 ^ 63) \<le> n \<Longrightarrow> n < 2 ^ 63 \<Longrightarrow> wrap64 n = n"
  unfolding wrap64_def by (simp add: signed_take_bit_int_eq_self signed_of_int)

lemma wrap64_range: "- (2 ^ 63) \<le> wrap64 n \<and> wrap64 n < 2 ^ 63"
  unfolding wrap64_def using sint_greater_eq [of "word_of_int n :: i64"] sint_lt [of "word_of_int n :: i64"]
  by simp

text \<open>Time.Sub saturates at the ends of the Duration range.\<close>

definition timeSub :: "time \<Rightarrow> time \<Rightarrow> duration" where
  "timeSub t u = max (- (2 ^ 63)) (min (2 ^ 63 - 1) (t - u))"

lemma timeSub_pos [simp]: "0 < timeSub t u \<longleftrightarrow> u < t"
  by (auto simp: timeSub_def min_def max_def)

lemma timeSub_le: "u \<le> t \<Longrightarrow> timeSub t u \<le> t - u"
  by (simp add: timeSub_def)

lemma timeSub_exact: "- (2 ^ 63) \<le> t - u \<Longrightarrow> t - u < 2 ^ 63 \<Longrightarrow> timeSub t u = t - u"
  by (simp add: timeSub_def)

abbreviation second :: duration where "second \<equiv> 1000000000"

text \<open>time.Unix: the seconds are stored shifted by the year-1 epoch, in an int64 that wraps.\<close>

definition timeUnix :: "int \<Rightarrow> time" where
  "timeUnix sec = (wrap64 (sec + 62135596800) - 62135596800) * second"

lemma timeUnix_exact:
  "- (2 ^ 63) \<le> sec \<Longrightarrow> sec < 2 ^ 63 - 62135596800 \<Longrightarrow> timeUnix sec = sec * second"
  by (simp add: timeUnix_def wrap64_id)

end
