(* ===== verification/Http.thy ===== *)
theory Http
  imports GoNum
begin

text \<open>
  The request and response side of net/http as the program uses it: the fields of a request
  it reads, header access, and the response as what its writer is told in order.
\<close>

record http_request =
  r_method :: string
  r_path :: string
  r_query :: string
  r_header :: values_map  \<comment> \<open>canonical header names\<close>
  r_host :: string
  r_remoteAddr :: string
  r_body :: bytes

text \<open>Header.Get and Values.Get: the first value of a key, or the empty string.\<close>

definition headerGet :: "values_map \<Rightarrow> string \<Rightarrow> string" where
  "headerGet h k = (case map_of h k of Some (v # vs) \<Rightarrow> v | _ \<Rightarrow> [])"

lemma headerGet_single [simp]: "headerGet ((k, [v]) # h) k = v"
  by (simp add: headerGet_def)

subsection \<open>Responses\<close>

text \<open>
  What code does to a ResponseWriter, in order. A plain writer keeps the first status only,
  sends the headers set before it, and takes a write without a status for a 200.
\<close>

datatype wop = SetHeader string string | WriteHeader int | Write bytes

record writer =
  w_headers :: "(string \<times> string) list"  \<comment> \<open>the header map so far\<close>
  w_sent :: "(string \<times> string) list"     \<comment> \<open>the headers sent with the status\<close>
  w_status :: "int option"
  w_body :: bytes

definition newWriter :: writer where
  "newWriter = \<lparr>w_headers = [], w_sent = [], w_status = None, w_body = []\<rparr>"

definition w_writeHeader :: "int \<Rightarrow> writer \<Rightarrow> writer" where
  "w_writeHeader code w =
     (if w_status w = None then w\<lparr>w_status := Some code, w_sent := w_headers w\<rparr> else w)"

fun w_step :: "wop \<Rightarrow> writer \<Rightarrow> writer" where
  "w_step (SetHeader k v) w = w\<lparr>w_headers := mapSet k v (w_headers w)\<rparr>"
| "w_step (WriteHeader code) w = w_writeHeader code w"
| "w_step (Write b) w = (let w1 = w_writeHeader 200 w in w1\<lparr>w_body := w_body w1 @ b\<rparr>)"

definition w_run :: "wop list \<Rightarrow> writer \<Rightarrow> writer" where
  "w_run ps w = fold w_step ps w"

lemma w_run_simps [simp]:
  "w_run [] w = w"
  "w_run (p # ps) w = w_run ps (w_step p w)"
  "w_run (ps @ qs) w = w_run qs (w_run ps w)"
  by (simp_all add: w_run_def)

text \<open>http.Error, and http.Redirect answering a POST: no body is written.\<close>

definition httpError :: "string \<Rightarrow> int \<Rightarrow> wop list" where
  "httpError msg code =
     [SetHeader ''Content-Type'' ''text/plain; charset=utf-8'',
      SetHeader ''X-Content-Type-Options'' ''nosniff'',
      WriteHeader code, Write (msg @ [CHR 0x0A])]"

definition httpRedirect :: "string \<Rightarrow> int \<Rightarrow> wop list" where
  "httpRedirect location code = [SetHeader ''Location'' location, WriteHeader code]"

end
