(* ===== verification/Transport.thy ===== *)
theory Transport
  imports Http
begin

text \<open>
  core/transport/transport.go and registry.go: the message every transport receives, the
  classified error it answers with, and the table of transport types. A Go error is a value:
  plain text, text wrapping another error, a protocol error with its reply code, or a
  transport error.
\<close>

subsection \<open>Messages and errors\<close>

record message =
  m_from :: string
  m_to :: "string list"
  m_replyTo :: string
  m_subject :: string
  m_bodyText :: string

record send_result =
  messageID :: string

datatype error_class = ErrUnknown | ErrTransient | ErrRateLimited | ErrTerminal

fun class_String :: "error_class \<Rightarrow> string" where
  "class_String ErrTransient = ''transient''"
| "class_String ErrRateLimited = ''rate_limited''"
| "class_String ErrTerminal = ''terminal''"
| "class_String ErrUnknown = ''unknown''"

datatype goerror =
    PlainError string
  | WrapError string goerror               \<comment> \<open>fmt.Errorf with a verb for the wrapped error\<close>
  | ProtoError int string                  \<comment> \<open>textproto.Error\<close>
  | TransportErr error_class int "goerror option" string

type_synonym transport_error = "error_class \<times> int \<times> goerror option \<times> string"

definition te_class :: "transport_error \<Rightarrow> error_class" where "te_class e = fst e"
definition te_status :: "transport_error \<Rightarrow> int" where "te_status e = fst (snd e)"

text \<open>The text of an error: TransportError.Error, and the library's for the others.\<close>

fun errorText :: "goerror \<Rightarrow> string" where
  "errorText (PlainError s) = s"
| "errorText (WrapError s e) = s @ '': '' @ errorText e"
| "errorText (ProtoError code msg) = formatInt code @ '' '' @ msg"
| "errorText (TransportErr cls status cause msg) =
     ''transport: '' @ msg @ '' (class='' @ class_String cls
     @ (if status \<noteq> 0 then '' status='' @ formatInt status else [])
     @ '')''
     @ (case cause of None \<Rightarrow> [] | Some c \<Rightarrow> '': '' @ errorText c)"

text \<open>TransportError.Unwrap and the Unwrap of a wrapping error.\<close>

fun unwrap :: "goerror \<Rightarrow> goerror option" where
  "unwrap (PlainError s) = None"
| "unwrap (WrapError s e) = Some e"
| "unwrap (ProtoError code msg) = None"
| "unwrap (TransportErr cls status cause msg) = cause"

text \<open>errors.As for a transport error and for a protocol error: the first one of the chain.\<close>

fun asTransportError :: "goerror \<Rightarrow> transport_error option" where
  "asTransportError (PlainError s) = None"
| "asTransportError (WrapError s e) = asTransportError e"
| "asTransportError (ProtoError code msg) = None"
| "asTransportError (TransportErr cls status cause msg) = Some (cls, status, cause, msg)"

fun asProtoError :: "goerror \<Rightarrow> (int \<times> string) option" where
  "asProtoError (PlainError s) = None"
| "asProtoError (WrapError s e) = asProtoError e"
| "asProtoError (ProtoError code msg) = Some (code, msg)"
| "asProtoError (TransportErr cls status cause msg) =
     (case cause of None \<Rightarrow> None | Some c \<Rightarrow> asProtoError c)"

definition terr :: "error_class \<Rightarrow> int \<Rightarrow> goerror option \<Rightarrow> string \<Rightarrow> goerror" where
  "terr cls status cause msg = TransportErr cls status cause msg"

text \<open>What a Send returns.\<close>

type_synonym send_outcome = "goerror + send_result"

subsection \<open>The registry\<close>

text \<open>
  A registration has its validator and its builder when the Go functions are not nil. The
  settings are the parsed TOML table; errors and built transports are values of any type.
\<close>

record ('cfg, 'e, 't) registration =
  reg_Type :: string
  reg_Validate :: "('cfg \<Rightarrow> 'e option) option"
  reg_Build :: "('cfg \<Rightarrow> 'e + 't) option"

type_synonym ('cfg, 'e, 't) registry = "(string \<times> ('cfg, 'e, 't) registration) list"

datatype register_panic = EmptyType | NilValidate string | NilBuild string | DuplicateType string

text \<open>Register panics (Inl) on an incomplete or a duplicate registration.\<close>

definition Register ::
  "('cfg, 'e, 't) registration \<Rightarrow> ('cfg, 'e, 't) registry \<Rightarrow> register_panic + ('cfg, 'e, 't) registry" where
  "Register reg r =
     (if reg_Type reg = [] then Inl EmptyType
      else if reg_Validate reg = None then Inl (NilValidate (reg_Type reg))
      else if reg_Build reg = None then Inl (NilBuild (reg_Type reg))
      else if map_of r (reg_Type reg) \<noteq> None then Inl (DuplicateType (reg_Type reg))
      else Inr (mapSet (reg_Type reg) reg r))"

definition Lookup :: "string \<Rightarrow> ('cfg, 'e, 't) registry \<Rightarrow> ('cfg, 'e, 't) registration option" where
  "Lookup typ r = map_of r typ"

definition KnownTypes :: "('cfg, 'e, 't) registry \<Rightarrow> string list" where
  "KnownTypes r = sort (map fst r)"

text \<open>UnknownTypeError names the type and the known ones, in order.\<close>

definition UnknownTypeError :: "string \<Rightarrow> ('cfg, 'e, 't) registry \<Rightarrow> string \<times> string list" where
  "UnknownTypeError typ r = (typ, KnownTypes r)"

text \<open>The init functions run one after the other.\<close>

fun registerAll ::
  "('cfg, 'e, 't) registration list \<Rightarrow> ('cfg, 'e, 't) registry \<Rightarrow> register_panic + ('cfg, 'e, 't) registry" where
  "registerAll [] r = Inr r"
| "registerAll (reg # regs) r =
     (case Register reg r of Inl p \<Rightarrow> Inl p | Inr r1 \<Rightarrow> registerAll regs r1)"

subsection \<open>Lemmas\<close>

lemma asTransportError_terr [simp]: "asTransportError (terr cls status cause msg) = Some (cls, status, cause, msg)"
  by (simp add: terr_def)

text \<open>asTransportError walks the Unwrap chain.\<close>

lemma asTransportError_step:
  "asTransportError e =
     (case e of TransportErr cls status cause msg \<Rightarrow> Some (cls, status, cause, msg)
      | _ \<Rightarrow> (case unwrap e of None \<Rightarrow> None | Some c \<Rightarrow> asTransportError c))"
  by (cases e) simp_all

lemma Register_Lookup:
  "Register reg r = Inr r' \<Longrightarrow>
   Lookup t r' = (if t = reg_Type reg then Some reg else Lookup t r)"
  by (auto simp: Register_def Lookup_def split: if_splits)

lemma Register_fresh: "Register reg r = Inr r' \<Longrightarrow> Lookup (reg_Type reg) r = None"
  by (auto simp: Register_def Lookup_def split: if_splits)

lemma registerAll_fresh:
  "registerAll regs r = Inr r' \<Longrightarrow> reg \<in> set regs \<Longrightarrow> Lookup (reg_Type reg) r = None"
proof (induction regs arbitrary: r)
  case (Cons a regs)
  then obtain r1 where r1: "Register a r = Inr r1" "registerAll regs r1 = Inr r'"
    by (auto split: sum.splits)
  show ?case
  proof (cases "reg = a")
    case True
    with Register_fresh [OF r1(1)] show ?thesis by simp
  next
    case False
    with Cons.IH [OF r1(2)] Cons.prems(2) have "Lookup (reg_Type reg) r1 = None" by simp
    with Register_Lookup [OF r1(1), of "reg_Type reg"] show ?thesis by (auto split: if_splits)
  qed
qed simp

lemma registerAll_Lookup:
  "registerAll regs r = Inr r' \<Longrightarrow>
   Lookup t r' = (case find (\<lambda>reg. reg_Type reg = t) regs of Some reg \<Rightarrow> Some reg | None \<Rightarrow> Lookup t r)"
proof (induction regs arbitrary: r)
  case (Cons a regs)
  then obtain r1 where r1: "Register a r = Inr r1" "registerAll regs r1 = Inr r'"
    by (auto split: sum.splits)
  show ?case
  proof (cases "reg_Type a = t")
    case True
    have "find (\<lambda>reg. reg_Type reg = t) regs = None"
      using registerAll_fresh [OF r1(2)] Register_Lookup [OF r1(1), of t] True
      by (force simp: find_None_iff)
    with True Cons.IH [OF r1(2)] Register_Lookup [OF r1(1), of t] show ?thesis by simp
  next
    case False
    with Cons.IH [OF r1(2)] Register_Lookup [OF r1(1), of t] show ?thesis by (simp split: option.split)
  qed
qed simp

subsection \<open>What callers rely on\<close>

text \<open>
  The contract of the Transport interface: a Send that fails returns a transport error, whose
  class is not ErrUnknown. Its callers decide on a retry by that class.
\<close>

fun retryable :: "error_class \<Rightarrow> bool" where
  "retryable ErrTransient = True"
| "retryable ErrRateLimited = True"
| "retryable ErrTerminal = False"
| "retryable ErrUnknown = False"

locale transport_contract =
  fixes send :: "message \<Rightarrow> send_outcome"
  assumes fails_classified: "send m = Inl e \<Longrightarrow> \<exists>cls status cause msg. e = TransportErr cls status cause msg \<and> cls \<noteq> ErrUnknown"
begin

lemma class_found: "send m = Inl e \<Longrightarrow> \<exists>t. asTransportError e = Some t \<and> te_class t \<noteq> ErrUnknown"
  using fails_classified by (fastforce simp: te_class_def)

lemma terminal_iff:
  "send m = Inl e \<Longrightarrow> asTransportError e = Some t \<Longrightarrow> \<not> retryable (te_class t) \<longleftrightarrow> te_class t = ErrTerminal"
  using class_found by (cases "te_class t") fastforce+

end

text \<open>A message on which the definitions are evaluated.\<close>

definition sampleMessage :: message where
  "sampleMessage = \<lparr>m_from = ''a@x.org'', m_to = [''b@y.org''], m_replyTo = [], m_subject = ''hi'', m_bodyText = ''text''\<rparr>"

end
