(* ===== verification/Std.thy ===== *)
theory Std
  imports GoNum
begin

text \<open>
  The functions of Go's library whose inner workings the program does not depend on, as one
  record: every definition that uses one takes the record as an argument, so what is proved
  holds for whatever they compute. \<open>sampleStd\<close> is a small concrete instance on which the
  definitions are evaluated.
\<close>

record url =
  url_scheme :: string
  url_host :: string
  url_escPath :: string        \<comment> \<open>URL.EscapedPath\<close>
  url_query :: values_map      \<comment> \<open>URL.Query\<close>

record gostd =
  lowerU :: "string \<Rightarrow> string"    \<comment> \<open>strings.ToLower on strings with a non-ASCII byte\<close>
  upperU :: "string \<Rightarrow> string"    \<comment> \<open>strings.ToUpper on strings with a non-ASCII byte\<close>
  mailParse :: "string \<Rightarrow> (string \<times> string) option"
    \<comment> \<open>mail.ParseAddress: display name and address, None on an error\<close>
  urlParse :: "string \<Rightarrow> url option"
    \<comment> \<open>url.Parse and the parts of its result, None on an error\<close>
  hmacSHA256 :: "bytes \<Rightarrow> bytes \<Rightarrow> bytes"  \<comment> \<open>key and message\<close>
  sha256 :: "bytes \<Rightarrow> bytes"
  mimeBEncode :: "string \<Rightarrow> string"  \<comment> \<open>mime.BEncoding.Encode for utf-8\<close>

text \<open>
  The sample: an address is one with an at sign and no blank; a URL is scheme, colon, two
  slashes and a host up to the next slash; the digests are toy ones.
\<close>

definition sampleMailParse :: "string \<Rightarrow> (string \<times> string) option" where
  "sampleMailParse s =
     (case indexByte s CHR ''@'' of
        None \<Rightarrow> None
      | Some i \<Rightarrow> if i = 0 \<or> Suc i = length s \<or> CHR '' '' \<in> set s \<or> CHR '','' \<in> set s then None else Some ([], s))"

definition sampleUrlParse :: "string \<Rightarrow> url option" where
  "sampleUrlParse s =
     (case indexByte s CHR '':'' of
        None \<Rightarrow> Some \<lparr>url_scheme = [], url_host = [], url_escPath = s, url_query = []\<rparr>
      | Some i \<Rightarrow>
          (let r = drop (Suc i) s in
           if hasPrefix r ''//'' then
             Some \<lparr>url_scheme = map lowerByte (take i s), url_host = takeWhile (\<lambda>c. c \<noteq> CHR ''/'') (drop 2 r),
                   url_escPath = dropWhile (\<lambda>c. c \<noteq> CHR ''/'') (drop 2 r), url_query = []\<rparr>
           else Some \<lparr>url_scheme = map lowerByte (take i s), url_host = [], url_escPath = [], url_query = []\<rparr>))"

definition sampleStd :: gostd where
  "sampleStd =
     \<lparr>lowerU = (\<lambda>s. s), upperU = (\<lambda>s. s), mailParse = sampleMailParse, urlParse = sampleUrlParse,
      hmacSHA256 = (\<lambda>k m. take 4 (rev m @ k)), sha256 = (\<lambda>m. take 4 m), mimeBEncode = (\<lambda>s. ''=?utf-8?b?'' @ b64Encode s @ ''?='')\<rparr>"

abbreviation ToLower :: "gostd \<Rightarrow> string \<Rightarrow> string" where
  "ToLower g \<equiv> toLower (lowerU g)"

abbreviation ToUpper :: "gostd \<Rightarrow> string \<Rightarrow> string" where
  "ToUpper g \<equiv> toUpper (upperU g)"

end
