(* ===== verification/Float64.thy ===== *)
theory Float64
  imports Complex_Main "HOL-Library.Log_Nat" GoNum
begin

text \<open>
  Go's float64 arithmetic on rationals: the exact result of an operation, rounded to the
  nearest number with a 53-bit significand, ties to even. The program's float values (token
  counts, refill rates, latencies) stay far inside the exponent range, so overflow and
  subnormal numbers are not represented. The locale states what the clients use of rounding;
  \<open>f64\<close> is its provider.
\<close>

subsection \<open>Rounding\<close>

definition roundEven :: "rat \<Rightarrow> int" where
  "roundEven q =
     (let f = \<lfloor>q\<rfloor>; r = q - of_int f in
      if r < 1 / 2 then f else if 1 / 2 < r then f + 1 else if even f then f else f + 1)"

definition ilog2 :: "rat \<Rightarrow> int" where
  "ilog2 q =
     (let (n, d) = quotient_of q; k = bitlen n - bitlen d
      in if 2 powi k \<le> q then k else k - 1)"

definition f64 :: "rat \<Rightarrow> rat" where
  "f64 q =
     (if q = 0 then 0
      else let e = ilog2 \<bar>q\<bar> - 52
           in sgn q * (of_int (roundEven (\<bar>q\<bar> / 2 powi e)) * 2 powi e))"

lemma roundEven_near: "\<bar>of_int (roundEven q) - q\<bar> \<le> 1 / 2"
proof -
  have "of_int \<lfloor>q\<rfloor> \<le> q" "q < of_int \<lfloor>q\<rfloor> + 1" by linarith+
  then show ?thesis unfolding roundEven_def Let_def by (auto simp: abs_le_iff field_simps)
qed

lemma roundEven_floor: "\<lfloor>q\<rfloor> \<le> roundEven q \<and> roundEven q \<le> \<lfloor>q\<rfloor> + 1"
  by (simp add: roundEven_def Let_def)

lemma roundEven_mono:
  assumes "p \<le> q"
  shows "roundEven p \<le> roundEven q"
proof (cases "\<lfloor>p\<rfloor> = \<lfloor>q\<rfloor>")
  case True
  with assms show ?thesis by (auto simp: roundEven_def Let_def)
next
  case False
  with floor_mono [OF assms] have "\<lfloor>p\<rfloor> + 1 \<le> \<lfloor>q\<rfloor>" by linarith
  with roundEven_floor [of p] roundEven_floor [of q] show ?thesis by linarith
qed

lemma roundEven_of_int [simp]: "roundEven (of_int n) = n"
  by (simp add: roundEven_def)

lemma bitlen_witness:
  assumes "0 < n"
  obtains m where "bitlen n = int m + 1" and "2 ^ m \<le> n" and "n < 2 ^ Suc m"
proof -
  have pos: "0 < bitlen n" using assms bitlen_nonneg [of n] bitlen_eq_zero_iff [of n] by linarith
  then obtain m where "bitlen n - 1 = int m" using zero_le_imp_eq_int [of "bitlen n - 1"] by auto
  then have m: "bitlen n = int m + 1" by simp
  then have "nat (bitlen n - 1) = m" and "nat (bitlen n) = Suc m" by simp_all
  with bitlen_bounds [OF assms] have "2 ^ m \<le> n" and "n < 2 ^ Suc m" by metis+
  with m show ?thesis by (rule that)
qed

lemma ilog2_bounds:
  assumes "0 < q"
  shows "2 powi ilog2 q \<le> q \<and> q < 2 powi (ilog2 q + 1)"
proof -
  obtain n d where nd: "quotient_of q = (n, d)" by fastforce
  then have q: "q = of_int n / of_int d" and d: "0 < d"
    by (simp_all add: quotient_of_div quotient_of_denom_pos)
  with assms have n: "0 < n" by (simp add: zero_less_divide_iff)
  obtain a where a: "bitlen n = int a + 1" "2 ^ a \<le> n" "n < 2 ^ Suc a" using n by (rule bitlen_witness)
  obtain b where b: "bitlen d = int b + 1" "2 ^ b \<le> d" "d < 2 ^ Suc b" using d by (rule bitlen_witness)
  have a': "(2::rat) ^ a \<le> of_int n" "of_int n < (2::rat) ^ Suc a"
    using a(2,3) by (metis of_int_le_iff of_int_numeral of_int_power,
      metis of_int_less_iff of_int_numeral of_int_power)
  have b': "(2::rat) ^ b \<le> of_int d" "of_int d < (2::rat) ^ Suc b"
    using b(2,3) by (metis of_int_le_iff of_int_numeral of_int_power,
      metis of_int_less_iff of_int_numeral of_int_power)
  have k: "2 powi (int a - int b) = (2::rat) ^ a / 2 ^ b"
    by (simp add: power_int_diff)
  have lo: "2 powi (int a - int b - 1) \<le> q"
  proof -
    have "2 powi (int a - int b - 1) = (2::rat) ^ a / 2 ^ Suc b"
      using k by (simp add: power_int_diff)
    also have "\<dots> \<le> q" unfolding q using a'(1) b'(2) n d by (intro frac_le) auto
    finally show ?thesis .
  qed
  have hi: "q < 2 powi (int a - int b + 1)"
  proof -
    have "q < (2::rat) ^ Suc a / 2 ^ b" unfolding q using a'(2) b'(1) n d by (intro frac_less) auto
    also have "\<dots> = 2 powi (int a - int b + 1)" using k by (simp add: power_int_add)
    finally show ?thesis .
  qed
  have "ilog2 q = (if 2 powi (int a - int b) \<le> q then int a - int b else int a - int b - 1)"
    by (simp add: ilog2_def nd a b)
  with lo hi show ?thesis by auto
qed

lemma powi_less_imp_less: "(2::rat) powi a < 2 powi b \<Longrightarrow> a < b"
  using power_int_increasing [of b a "2::rat"] by (auto simp: not_le [symmetric])

lemma ilog2_unique:
  assumes "2 powi e \<le> q" and "q < 2 powi (e + 1)"
  shows "ilog2 q = e"
proof -
  have "0 < q" using assms(1) by (meson less_le_trans zero_less_numeral zero_less_power_int)
  note b = ilog2_bounds [OF this]
  have "(2::rat) powi e < 2 powi (ilog2 q + 1)" "(2::rat) powi ilog2 q < 2 powi (e + 1)"
    using b assms by linarith+
  then have "e < ilog2 q + 1" "ilog2 q < e + 1" by (auto dest: powi_less_imp_less)
  then show ?thesis by simp
qed

lemma f64_zero [simp]: "f64 0 = 0"
  by (simp add: f64_def)

text \<open>For a positive argument: the exponent of its binade and the two facts about the significand.\<close>

lemma f64_pos:
  assumes "0 < q"
  obtains e where "e = ilog2 q - 52" and "f64 q = of_int (roundEven (q / 2 powi e)) * 2 powi e"
    and "2 ^ 52 \<le> q / 2 powi e" and "q / 2 powi e < 2 ^ 53"
proof -
  define e where "e = ilog2 q - 52"
  have p: "2 powi ilog2 q = (2::rat) ^ 52 * 2 powi e" "2 powi (ilog2 q + 1) = (2::rat) ^ 53 * 2 powi e"
    by (simp_all add: e_def power_int_diff power_int_add)
  have "2 ^ 52 \<le> q / 2 powi e" "q / 2 powi e < 2 ^ 53"
    using ilog2_bounds [OF assms] unfolding p by (simp_all add: pos_le_divide_eq pos_divide_less_eq)
  with assms show ?thesis by (intro that [of e]) (simp_all add: f64_def e_def Let_def)
qed

lemma f64_relative:
  assumes "0 \<le> q"
  shows "\<bar>f64 q - q\<bar> \<le> q / 2 ^ 53"
proof (cases "q = 0")
  case False
  with assms have "0 < q" by simp
  then obtain e where e: "f64 q = of_int (roundEven (q / 2 powi e)) * 2 powi e" "2 ^ 52 \<le> q / 2 powi e"
    by (rule f64_pos)
  let ?x = "q / 2 powi e"
  have "f64 q - q = (of_int (roundEven ?x) - ?x) * 2 powi e" unfolding e(1) by (simp add: algebra_simps)
  then have "\<bar>f64 q - q\<bar> = \<bar>of_int (roundEven ?x) - ?x\<bar> * 2 powi e" by (simp add: abs_mult)
  also have half: "1 / 2 \<le> ?x / 2 ^ 53" using divide_right_mono [OF e(2), of "2 ^ 53"] by simp
  have "\<bar>of_int (roundEven ?x) - ?x\<bar> * 2 powi e \<le> 1 / 2 * 2 powi e" by (intro mult_right_mono roundEven_near) simp
  also have "\<dots> \<le> ?x / 2 ^ 53 * 2 powi e" by (intro mult_right_mono half) simp
  finally show ?thesis by simp
qed simp

lemma f64_int:
  assumes "0 \<le> n" and "n \<le> 2 ^ 53"
  shows "f64 (of_int n) = of_int n"
proof (cases "n = 0")
  case False
  with assms have "0 < (of_int n :: rat)" by simp
  then obtain e where e: "e = ilog2 (of_int n) - 52"
      "f64 (of_int n) = of_int (roundEven (of_int n / 2 powi e)) * 2 powi e"
    by (rule f64_pos)
  have "\<exists>m. of_int n / (2::rat) powi e = of_int m"
  proof (cases "n = 2 ^ 53")
    case True
    have "ilog2 (of_int n) = 53" unfolding True by (rule ilog2_unique) simp_all
    with e(1) True have "of_int n / (2::rat) powi e = of_int (2 ^ 52)" by simp
    then show ?thesis by blast
  next
    case False
    with assms have "(of_int n :: rat) < of_int (2 ^ 53)" by (simp only: of_int_less_iff)
    then have "2 powi ilog2 (of_int n) < (2::rat) powi 53"
      using ilog2_bounds [of "of_int n"] \<open>0 < (of_int n :: rat)\<close> by simp
    then have "ilog2 (of_int n) < 53" by (rule powi_less_imp_less)
    then have "e \<le> 0" unfolding e(1) by simp
    then have "of_int n / (2::rat) powi e = of_int (n * 2 ^ nat (- e))"
      by (simp add: power_int_def power_inverse [symmetric] field_simps)
    then show ?thesis by blast
  qed
  then obtain m where "of_int n / (2::rat) powi e = of_int m" by blast
  moreover from this have "of_int n = of_int m * (2::rat) powi e" by (simp add: nonzero_divide_eq_eq)
  ultimately show ?thesis using e(2) by simp
qed simp

lemma f64_mono:
  assumes "0 \<le> p" and "p \<le> q"
  shows "f64 p \<le> f64 q"
proof (cases "p = 0 \<or> ilog2 p = ilog2 q")
  case True
  show ?thesis
  proof (cases "p = 0")
    case True
    have "q - f64 q \<le> \<bar>f64 q - q\<bar>" by simp
    also have "\<dots> \<le> q / 2 ^ 53" using assms by (intro f64_relative) simp
    also have "\<dots> \<le> q" using assms by simp
    finally show ?thesis using True by simp
  next
    case False
    with assms \<open>p = 0 \<or> ilog2 p = ilog2 q\<close> have "ilog2 p = ilog2 q" "0 < p" "0 < q" by auto
    then show ?thesis using assms
      by (auto simp: f64_def Let_def intro!: mult_right_mono roundEven_mono divide_right_mono)
  qed
next
  case False
  with assms have pos: "0 < p" "0 < q" by auto
  obtain d where d: "d = ilog2 p - 52" "f64 p = of_int (roundEven (p / 2 powi d)) * 2 powi d" "p / 2 powi d < 2 ^ 53"
    using pos(1) by (rule f64_pos)
  obtain e where e: "e = ilog2 q - 52" "f64 q = of_int (roundEven (q / 2 powi e)) * 2 powi e" "2 ^ 52 \<le> q / 2 powi e"
    using pos(2) by (rule f64_pos)
  have "(2::rat) powi ilog2 p < 2 powi (ilog2 q + 1)"
    using ilog2_bounds [OF pos(1)] ilog2_bounds [OF pos(2)] assms(2) by linarith
  with False have "d + 1 \<le> e" unfolding d(1) e(1) by (auto dest: powi_less_imp_less)
  have "roundEven (p / 2 powi d) \<le> roundEven (of_int (2 ^ 53))" using d(3) by (intro roundEven_mono) simp
  then have "(of_int (roundEven (p / 2 powi d)) :: rat) \<le> of_int (2 ^ 53)" by (simp only: roundEven_of_int of_int_le_iff)
  then have "f64 p \<le> of_int (2 ^ 53) * 2 powi d" unfolding d(2) by (intro mult_right_mono) simp_all
  also have "\<dots> = 2 ^ 52 * 2 powi (d + 1)" by (simp add: power_int_add)
  also have "\<dots> \<le> 2 ^ 52 * 2 powi e" using \<open>d + 1 \<le> e\<close> by (intro mult_left_mono power_int_increasing) simp_all
  also have "\<dots> \<le> f64 q"
  proof -
    have "roundEven (of_int (2 ^ 52)) \<le> roundEven (q / 2 powi e)" using e(3) by (intro roundEven_mono) simp
    then have "(of_int (2 ^ 52) :: rat) \<le> of_int (roundEven (q / 2 powi e))"
      by (simp only: roundEven_of_int of_int_le_iff)
    then show ?thesis unfolding e(2) by (intro mult_right_mono) simp_all
  qed
  finally show ?thesis .
qed

lemma f64_representable:
  assumes "2 ^ 52 \<le> m" and "m \<le> 2 ^ 53"
  shows "f64 (of_int m * 2 powi e) = of_int m * 2 powi e"
proof -
  have step: "f64 (of_int k * 2 powi d) = of_int k * 2 powi d" if k: "2 ^ 52 \<le> k" "k < 2 ^ 53" for k d
  proof -
    have "(of_int (2 ^ 52) :: rat) \<le> of_int k" "(of_int k :: rat) < of_int (2 ^ 53)"
      using k by (simp_all only: of_int_le_iff of_int_less_iff)
    then have "ilog2 (of_int k * 2 powi d) = d + 52"
      by (intro ilog2_unique) (simp_all add: power_int_add)
    moreover have "0 < (of_int k :: rat) * 2 powi d" using k by simp
    ultimately show ?thesis by (simp add: f64_def Let_def)
  qed
  show ?thesis
  proof (cases "m = 2 ^ 53")
    case True
    then have "(of_int m :: rat) * 2 powi e = of_int (2 ^ 52) * 2 powi (e + 1)"
      by (simp add: power_int_add)
    then show ?thesis using step [of "2 ^ 52" "e + 1"] by simp
  next
    case False
    with assms show ?thesis by (intro step) simp_all
  qed
qed

lemma f64_idem:
  assumes "0 \<le> q"
  shows "f64 (f64 q) = f64 q"
proof (cases "q = 0")
  case False
  with assms have "0 < q" by simp
  then obtain e where e: "f64 q = of_int (roundEven (q / 2 powi e)) * 2 powi e"
      "2 ^ 52 \<le> q / 2 powi e" "q / 2 powi e < 2 ^ 53"
    by (rule f64_pos)
  have "roundEven (of_int (2 ^ 52)) \<le> roundEven (q / 2 powi e)"
    using e(2) by (intro roundEven_mono) simp
  moreover have "roundEven (q / 2 powi e) \<le> roundEven (of_int (2 ^ 53))"
    using e(3) by (intro roundEven_mono) simp
  ultimately show ?thesis unfolding e(1) by (intro f64_representable) (simp_all only: roundEven_of_int)
qed simp

subsection \<open>What clients use of rounding\<close>

locale float_rounding =
  fixes rnd :: "rat \<Rightarrow> rat"
  assumes rnd_mono: "0 \<le> p \<Longrightarrow> p \<le> q \<Longrightarrow> rnd p \<le> rnd q"
    and rnd_int: "0 \<le> n \<Longrightarrow> n \<le> 2 ^ 53 \<Longrightarrow> rnd (of_int n) = of_int n"
    and rnd_near: "0 \<le> q \<Longrightarrow> \<bar>rnd q - q\<bar> \<le> q / 2 ^ 53"
    and rnd_idem: "0 \<le> q \<Longrightarrow> rnd (rnd q) = rnd q"
begin

lemma rnd_zero: "rnd 0 = 0"
  using rnd_int [of 0] by simp

lemma rnd_nonneg: "0 \<le> q \<Longrightarrow> 0 \<le> rnd q"
  using rnd_mono [of 0 q] by (simp add: rnd_zero)

lemma rnd_le_int: "0 \<le> q \<Longrightarrow> q \<le> of_int n \<Longrightarrow> n \<le> 2 ^ 53 \<Longrightarrow> rnd q \<le> of_int n"
  using rnd_mono [of q "of_int n"] rnd_int [of n] by (metis of_int_0_le_iff order_trans)

lemma rnd_upper: "0 \<le> q \<Longrightarrow> rnd q \<le> q + q / 2 ^ 53"
  using rnd_near [of q] by linarith

lemma rnd_pos:
  assumes "0 < q"
  shows "0 < rnd q"
proof -
  have "\<bar>rnd q - q\<bar> \<le> q / 2 ^ 53" using assms by (intro rnd_near) simp
  moreover have "q / 2 ^ 53 < q" using assms by simp
  ultimately show ?thesis by linarith
qed

text \<open>A rounded number bounds the rounding of what lies below it.\<close>

lemma rnd_le_rounded: "0 \<le> q \<Longrightarrow> q \<le> c \<Longrightarrow> rnd c = c \<Longrightarrow> rnd q \<le> c"
  using rnd_mono [of q c] by simp

text \<open>
  Capped addition: with a representable cap, rounding adds at most the cap times the unit
  roundoff.
\<close>

lemma rnd_capped:
  assumes "0 \<le> q" and "0 \<le> c" and "rnd c = c"
  shows "min c (rnd q) \<le> q + c / 2 ^ 53"
proof (cases "q \<le> c")
  case True
  then have "q / 2 ^ 53 \<le> c / 2 ^ 53" by simp
  with rnd_upper [OF assms(1)] show ?thesis by linarith
next
  case False
  then have "min c (rnd q) \<le> q" by simp
  moreover have "0 \<le> c / 2 ^ 53" using assms(2) by simp
  ultimately show ?thesis by linarith
qed

end

interpretation f64: float_rounding f64
  by unfold_locales (rule f64_mono f64_int f64_relative f64_idem; assumption)+

end
