(* ===== verification/Lru.thy ===== *)
theory Lru
  imports GoNum
begin

text \<open>
  The bounded cache of github.com/hashicorp/golang-lru/v2, a third-party package: its
  operations are an argument of the code that uses them (the record \<open>lru_ops\<close>), and the
  locale \<open>lru_cache\<close> states the documented behaviour the code relies on, over the map the
  cache holds (\<open>view\<close>). A list kept in order of use, most recent first, satisfies it and
  serves to evaluate the clients on concrete inputs.
\<close>

record ('s, 'k, 'v) lru_ops =
  lru_new :: "int \<Rightarrow> string + 's"
  lru_get :: "'k \<Rightarrow> 's \<Rightarrow> 'v option \<times> 's"
  lru_add :: "'k \<Rightarrow> 'v \<Rightarrow> 's \<Rightarrow> 's"
  lru_remove :: "'k \<Rightarrow> 's \<Rightarrow> 's"
  lru_len :: "'s \<Rightarrow> nat"

text \<open>
  New fails on a size that is not positive and else gives an empty cache of that size. Get
  returns what the cache holds and changes only the order of use. After Add the new entry
  is held; other entries are unchanged, except that one may be evicted, and only when the
  cache is full and the key is new. Remove takes out one key. Len counts the entries.
\<close>

locale lru_cache =
  fixes ops :: "('s, 'k, 'v) lru_ops"
    and view :: "'s \<Rightarrow> 'k \<Rightarrow> 'v option"
    and good :: "'s \<Rightarrow> bool"
    and size_of :: "'s \<Rightarrow> nat"
  assumes new_bad: "n \<le> 0 \<Longrightarrow> \<exists>e. lru_new ops n = Inl e"
    and new_ok: "0 < n \<Longrightarrow> \<exists>s. lru_new ops n = Inr s \<and> good s \<and> view s = Map.empty \<and> size_of s = nat n"
    and get_hit: "good s \<Longrightarrow> fst (lru_get ops k s) = view s k"
    and get_view: "good s \<Longrightarrow> view (snd (lru_get ops k s)) = view s"
    and get_good: "good s \<Longrightarrow> good (snd (lru_get ops k s)) \<and> size_of (snd (lru_get ops k s)) = size_of s"
    and add_hit: "good s \<Longrightarrow> view (lru_add ops k v s) k = Some v"
    and add_sub: "good s \<Longrightarrow> view (lru_add ops k v s) \<subseteq>\<^sub>m (view s)(k \<mapsto> v)"
    and add_room: "good s \<Longrightarrow> k \<in> dom (view s) \<or> card (dom (view s)) < size_of s \<Longrightarrow>
                     view (lru_add ops k v s) = (view s)(k \<mapsto> v)"
    and add_good: "good s \<Longrightarrow> good (lru_add ops k v s) \<and> size_of (lru_add ops k v s) = size_of s"
    and remove_view: "good s \<Longrightarrow> view (lru_remove ops k s) = (view s)(k := None)"
    and remove_good: "good s \<Longrightarrow> good (lru_remove ops k s) \<and> size_of (lru_remove ops k s) = size_of s"
    and len: "good s \<Longrightarrow> lru_len ops s = card (dom (view s))"
    and bound: "good s \<Longrightarrow> finite (dom (view s)) \<and> card (dom (view s)) \<le> size_of s"
begin

lemmas get_laws = get_hit get_view get_good
lemmas add_laws = add_hit add_good
lemmas remove_laws = remove_view remove_good

lemma get_result:
  assumes "good s"
  obtains s' where "lru_get ops k s = (view s k, s')" and "view s' = view s" and "good s'"
    and "size_of s' = size_of s"
  using get_laws [OF assms, of k] by (metis prod.collapse)

text \<open>An entry that is there after Add was added now or was there before.\<close>

lemma add_other: "good s \<Longrightarrow> view (lru_add ops k v s) k' = Some w \<Longrightarrow> k' \<noteq> k \<Longrightarrow> view s k' = Some w"
  using add_sub [of s k v] by (auto simp: map_le_def dom_def)

lemma add_cases:
  assumes "good s" and "view (lru_add ops k v s) k' = Some w"
  shows "k' = k \<and> w = v \<or> k' \<noteq> k \<and> view s k' = Some w"
  using assms add_hit [OF assms(1), of k v] add_other [OF assms] by (cases "k' = k") auto

lemma add_keeps_or_evicts:
  assumes "good s" and "k' \<noteq> k"
  shows "view (lru_add ops k v s) k' = view s k' \<or> view (lru_add ops k v s) k' = None"
  using add_other [OF assms(1) _ assms(2)] by (cases "view (lru_add ops k v s) k'") auto

lemma len_bound: "good s \<Longrightarrow> lru_len ops s \<le> size_of s"
  by (simp add: len bound)

end

subsection \<open>A list in order of use\<close>

type_synonym ('k, 'v) use_list = "nat \<times> ('k \<times> 'v) list"

definition others :: "'k \<Rightarrow> ('k \<times> 'v) list \<Rightarrow> ('k \<times> 'v) list" where
  "others k xs = filter (\<lambda>p. fst p \<noteq> k) xs"

definition list_get :: "'k \<Rightarrow> ('k, 'v) use_list \<Rightarrow> 'v option \<times> ('k, 'v) use_list" where
  "list_get k s =
     (case map_of (snd s) k of
        None \<Rightarrow> (None, s)
      | Some v \<Rightarrow> (Some v, (fst s, (k, v) # others k (snd s))))"

definition list_lru :: "(('k, 'v) use_list, 'k, 'v) lru_ops" where
  "list_lru =
     \<lparr>lru_new = (\<lambda>n. if n \<le> 0 then Inl ''must provide a positive size'' else Inr (nat n, [])),
      lru_get = list_get,
      lru_add = (\<lambda>k v s. (fst s, take (fst s) ((k, v) # others k (snd s)))),
      lru_remove = (\<lambda>k s. (fst s, others k (snd s))),
      lru_len = (\<lambda>s. length (snd s))\<rparr>"

definition use_good :: "('k, 'v) use_list \<Rightarrow> bool" where
  "use_good s \<longleftrightarrow> distinct (map fst (snd s)) \<and> length (snd s) \<le> fst s \<and> 0 < fst s"

abbreviation use_view :: "('k, 'v) use_list \<Rightarrow> 'k \<Rightarrow> 'v option" where
  "use_view s \<equiv> map_of (snd s)"

lemma distinct_others: "distinct (map fst xs) \<Longrightarrow> distinct (map fst (others k xs))"
  by (simp add: others_def distinct_map_filter)

lemma fst_others: "fst ` set (others k xs) = fst ` set xs - {k}"
  by (auto simp: others_def)

lemma map_of_others: "map_of (others k xs) = (map_of xs)(k := None)"
  by (induction xs) (auto simp: others_def fun_eq_iff)

lemma map_of_take_le: "distinct (map fst xs) \<Longrightarrow> map_of (take n xs) \<subseteq>\<^sub>m map_of xs"
  by (metis append_take_drop_id distinct_append map_add_comm map_append map_le_map_add map_of_append
        dom_map_of_conv_image_fst set_map)

lemma length_others_less: "k \<in> fst ` set xs \<Longrightarrow> length (others k xs) < length xs"
  by (auto simp: others_def intro: length_filter_less)

lemma length_others: "length (others k xs) \<le> length xs"
  by (simp add: others_def)

lemma length_others_mem: "(k, v) \<in> set xs \<Longrightarrow> length xs \<le> n \<Longrightarrow> Suc (length (others k xs)) \<le> n"
  using length_others_less [of k xs] by force

lemma map_of_take_first: "0 < n \<Longrightarrow> map_of (take n ((k, v) # xs)) k = Some v"
  by (cases n) auto

lemma card_dom_map_of: "distinct (map fst xs) \<Longrightarrow> card (dom (map_of xs)) = length xs"
  by (metis distinct_card dom_map_of_conv_image_fst length_map set_map)

lemma list_lru_add_room:
  assumes "use_good s" and "k \<in> dom (use_view s) \<or> card (dom (use_view s)) < fst s"
  shows "length (others k (snd s)) < fst s"
proof (cases "k \<in> fst ` set (snd s)")
  case True
  with assms(1) length_others_less [of k "snd s"] show ?thesis by (simp add: use_good_def)
next
  case False
  with assms have "card (dom (use_view s)) < fst s" by (simp add: dom_map_of_conv_image_fst)
  with assms(1) have "length (snd s) < fst s" by (simp add: use_good_def card_dom_map_of)
  then show ?thesis unfolding others_def using length_filter_le by (rule le_less_trans [rotated])
qed

interpretation list_lru: lru_cache list_lru use_view use_good fst
proof (unfold_locales, goal_cases)
  case (7 s k v)
  then have "distinct (map fst ((k, v) # others k (snd s)))"
    by (simp add: use_good_def distinct_others fst_others)
  from map_of_take_le [OF this, of "fst s"] show ?case by (simp add: list_lru_def map_of_others)
next
  case (8 s k v)
  with list_lru_add_room [OF 8] have "take (fst s) ((k, v) # others k (snd s)) = (k, v) # others k (snd s)"
    by simp
  then show ?case by (simp add: list_lru_def map_of_others)
next
  case (9 s k v)
  then have "distinct (map fst ((k, v) # others k (snd s)))"
    by (simp add: use_good_def distinct_others fst_others)
  from distinct_take [OF this, of "fst s"]
  have "distinct (map fst (take (fst s) ((k, v) # others k (snd s))))" by (simp only: take_map)
  with 9 show ?case by (simp add: list_lru_def use_good_def)
qed (auto simp: list_lru_def list_get_def use_good_def map_of_others fst_others distinct_others
       card_dom_map_of finite_dom_map_of neq_Nil_conv fun_eq_iff
       map_of_take_first dest: map_of_SomeD
       intro: length_others_mem le_trans [OF length_others] split: option.splits)

end
