(* ===== verification/RateLimit.thy ===== *)
theory RateLimit
  imports Float64 Lru
begin

text \<open>
  core/ratelimit/ratelimit.go: the per-IP token bucket with LRU eviction. The cache maps a
  client IP to a pointer to its bucket; buckets live in an explicit store and are mutated
  through the pointer, as the code does. The abstraction \<open>bucketOf\<close> reads the bucket of an
  IP through cache and store, and \<open>specAllow\<close> is the token bucket of one client.
\<close>

subsection \<open>State\<close>

record bucket =
  tokens :: rat
  lastSeen :: time

record 's limiter =
  capacity :: rat
  refillPerSec :: rat
  buckets :: 's                  \<comment> \<open>lru.Cache[string, *bucket]\<close>
  store :: "nat \<Rightarrow> bucket"       \<comment> \<open>the buckets the pointers refer to\<close>
  fresh :: nat                   \<comment> \<open>the next unused address\<close>

definition DefaultMaxIPs :: int where
  "DefaultMaxIPs = 10000"

datatype limiter_error = CountNotPositive | IntervalNotPositive | CacheError string

text \<open>Duration.Seconds: whole and fractional part converted and added in float64.\<close>

definition secondsF :: "duration \<Rightarrow> rat" where
  "secondsF d =
     (let sec = sgn d * (\<bar>d\<bar> div second); nsec = sgn d * (\<bar>d\<bar> mod second)
      in f64 (f64 (of_int sec) + f64 (f64 (of_int nsec) / 1000000000)))"

definition ratelimit_New ::
  "('s, string, nat) lru_ops \<Rightarrow> int \<Rightarrow> duration \<Rightarrow> int \<Rightarrow> limiter_error + 's limiter" where
  "ratelimit_New ops count interval maxIPs =
     (if count \<le> 0 then Inl CountNotPositive
      else if interval \<le> 0 then Inl IntervalNotPositive
      else
        (let maxIPs' = (if maxIPs \<le> 0 then DefaultMaxIPs else maxIPs) in
         case lru_new ops maxIPs' of
           Inl err \<Rightarrow> Inl (CacheError err)
         | Inr cache \<Rightarrow>
             Inr \<lparr>capacity = f64 (of_int count),
                  refillPerSec = f64 (f64 (of_int count) / secondsF interval),
                  buckets = cache, store = (\<lambda>_. \<lparr>tokens = 0, lastSeen = 0\<rparr>), fresh = 0\<rparr>))"

subsection \<open>Allow\<close>

text \<open>The refill of a bucket at time now, capped at the capacity.\<close>

definition refill :: "rat \<Rightarrow> rat \<Rightarrow> time \<Rightarrow> bucket \<Rightarrow> bucket" where
  "refill cap rate now b =
     (let elapsed = secondsF (timeSub now (lastSeen b)) in
      if 0 < elapsed
      then b\<lparr>tokens := min cap (f64 (tokens b + f64 (elapsed * rate))), lastSeen := now\<rparr>
      else b)"

definition allowAt ::
  "('s, string, nat) lru_ops \<Rightarrow> string \<Rightarrow> time \<Rightarrow> 's limiter \<Rightarrow> bool \<times> 's limiter" where
  "allowAt ops clientIP now l =
     (let (hit, cache) = lru_get ops clientIP (buckets l);
          (b, l1) =
            (case hit of
               Some p \<Rightarrow> (p, l\<lparr>buckets := cache\<rparr>)
             | None \<Rightarrow>
                 (fresh l,
                  l\<lparr>store := (store l)(fresh l := \<lparr>tokens = capacity l, lastSeen = now\<rparr>),
                    buckets := lru_add ops clientIP (fresh l) cache,
                    fresh := Suc (fresh l)\<rparr>));
          v = refill (capacity l1) (refillPerSec l1) now (store l1 b)
      in if 1 \<le> tokens v
         then (True, l1\<lparr>store := (store l1)(b := v\<lparr>tokens := f64 (tokens v - 1)\<rparr>)\<rparr>)
         else (False, l1\<lparr>store := (store l1)(b := v)\<rparr>))"

text \<open>Allow, with the time the clock shows.\<close>

definition Allow ::
  "('s, string, nat) lru_ops \<Rightarrow> string \<Rightarrow> time \<Rightarrow> 's limiter \<Rightarrow> bool \<times> 's limiter" where
  "Allow ops clientIP clock l = allowAt ops clientIP clock l"

definition limiter_Len :: "('s, string, nat) lru_ops \<Rightarrow> 's limiter \<Rightarrow> nat" where
  "limiter_Len ops l = lru_len ops (buckets l)"

fun allow_run ::
  "('s, string, nat) lru_ops \<Rightarrow> (string \<times> time) list \<Rightarrow> 's limiter \<Rightarrow> bool list \<times> 's limiter" where
  "allow_run ops [] l = ([], l)"
| "allow_run ops ((ip, now) # rs) l =
     (let (a, l1) = allowAt ops ip now l; (as, l2) = allow_run ops rs l1 in (a # as, l2))"

subsection \<open>Specification: one client's token bucket\<close>

definition specBucket :: "rat \<Rightarrow> time \<Rightarrow> bucket option \<Rightarrow> bucket" where
  "specBucket cap now b = (case b of None \<Rightarrow> \<lparr>tokens = cap, lastSeen = now\<rparr> | Some v \<Rightarrow> v)"

definition specAllow :: "rat \<Rightarrow> rat \<Rightarrow> time \<Rightarrow> bucket option \<Rightarrow> bool \<times> bucket" where
  "specAllow cap rate now b =
     (let v = refill cap rate now (specBucket cap now b)
      in if 1 \<le> tokens v then (True, v\<lparr>tokens := f64 (tokens v - 1)\<rparr>) else (False, v))"

fun specRun :: "rat \<Rightarrow> rat \<Rightarrow> time list \<Rightarrow> bucket option \<Rightarrow> bool list" where
  "specRun cap rate [] b = []"
| "specRun cap rate (t # ts) b =
     (let (a, v) = specAllow cap rate t b in a # specRun cap rate ts (Some v))"

text \<open>The bucket an IP has now: through the cache to the store.\<close>

definition bucketOf :: "('s \<Rightarrow> string \<Rightarrow> nat option) \<Rightarrow> 's limiter \<Rightarrow> string \<Rightarrow> bucket option" where
  "bucketOf view l ip = map_option (store l) (view (buckets l) ip)"

text \<open>
  The invariant: distinct IPs have distinct buckets, every pointer is allocated, and every
  bucket holds between nothing and the capacity, which is a float64 of at least 1.
\<close>

definition okBucket :: "rat \<Rightarrow> bucket \<Rightarrow> bool" where
  "okBucket cap b \<longleftrightarrow> 0 \<le> tokens b \<and> tokens b \<le> cap"

definition limiterInv :: "('s \<Rightarrow> string \<Rightarrow> nat option) \<Rightarrow> ('s \<Rightarrow> bool) \<Rightarrow> 's limiter \<Rightarrow> bool" where
  "limiterInv view good l \<longleftrightarrow>
     good (buckets l) \<and> 1 \<le> capacity l \<and> f64 (capacity l) = capacity l \<and> 0 \<le> refillPerSec l \<and>
     (\<forall>ip p. view (buckets l) ip = Some p \<longrightarrow> p < fresh l) \<and>
     (\<forall>ip ip' p. view (buckets l) ip = Some p \<longrightarrow> view (buckets l) ip' = Some p \<longrightarrow> ip = ip') \<and>
     (\<forall>ip b. bucketOf view l ip = Some b \<longrightarrow> okBucket (capacity l) b)"

subsection \<open>Seconds and refills\<close>

lemma secondsF_nonneg: "0 \<le> d \<Longrightarrow> 0 \<le> secondsF d"
  unfolding secondsF_def Let_def
  by (intro f64.rnd_nonneg add_nonneg_nonneg divide_nonneg_nonneg)
     (auto simp: sgn_if pos_imp_zdiv_nonneg_iff)

lemma secondsF_pos:
  assumes "0 < d"
  shows "0 < secondsF d"
proof -
  let ?s = "of_int (d div second) :: rat" and ?n = "of_int (d mod second) :: rat"
  have sn: "0 \<le> f64 ?s" "0 \<le> f64 (f64 ?n / 1000000000)"
    using assms by (auto intro!: f64.rnd_nonneg divide_nonneg_nonneg simp: pos_imp_zdiv_nonneg_iff)
  have "0 < d div second \<or> 0 < d mod second"
    using assms by (metis add_0 div_mult_mod_eq mult_zero_left order_le_less pos_imp_zdiv_nonneg_iff
        pos_mod_sign zero_less_numeral order_less_imp_le)
  then have "0 < f64 ?s \<or> 0 < f64 (f64 ?n / 1000000000)"
    by (auto intro!: f64.rnd_pos divide_pos_pos)
  with sn have "0 < f64 ?s + f64 (f64 ?n / 1000000000)" by linarith
  with assms show ?thesis unfolding secondsF_def Let_def by (simp add: sgn_if f64.rnd_pos)
qed

lemma f64_minus: "f64 (- q) = - f64 q"
  by (simp add: f64_def Let_def)

lemma f64_minus_diff: "f64 (- p - q) = - f64 (p + q)"
  using f64_minus [of "p + q"] by simp

lemma secondsF_minus: "secondsF (- d) = - secondsF d"
  unfolding secondsF_def Let_def by (simp add: f64_minus f64_minus_diff)

lemma secondsF_sign: "0 < secondsF d \<longleftrightarrow> 0 < d"
proof (cases "0 < d")
  case False
  then have "0 \<le> secondsF (- d)" by (intro secondsF_nonneg) simp
  with False show ?thesis by (simp add: secondsF_minus)
qed (simp add: secondsF_pos)

lemma refill_elapsed:
  "refill cap rate now b =
     (if lastSeen b < now
      then b\<lparr>tokens := min cap (f64 (tokens b + f64 (secondsF (timeSub now (lastSeen b)) * rate))),
             lastSeen := now\<rparr>
      else b)"
  by (simp add: refill_def secondsF_sign Let_def)

lemma refill_ok:
  assumes "okBucket cap b" and "0 \<le> rate"
  shows "okBucket cap (refill cap rate now b)"
proof (cases "lastSeen b < now")
  case True
  then have "0 \<le> secondsF (timeSub now (lastSeen b))" by (simp add: secondsF_pos order_less_imp_le)
  with assms have "0 \<le> f64 (tokens b + f64 (secondsF (timeSub now (lastSeen b)) * rate))"
    by (intro f64.rnd_nonneg add_nonneg_nonneg mult_nonneg_nonneg) (auto simp: okBucket_def)
  with assms(1) True show ?thesis by (auto simp: refill_elapsed okBucket_def)
qed (use assms in \<open>simp add: refill_elapsed\<close>)

lemma consume_ok:
  assumes "okBucket cap v" and "1 \<le> tokens v" and "f64 cap = cap"
  shows "okBucket cap (v\<lparr>tokens := f64 (tokens v - 1)\<rparr>)"
  using assms f64.rnd_nonneg [of "tokens v - 1"] f64.rnd_le_rounded [of "tokens v - 1" cap]
  by (auto simp: okBucket_def)

lemma specAllow_ok:
  assumes "\<And>v. b = Some v \<Longrightarrow> okBucket cap v" and "1 \<le> cap" "f64 cap = cap" "0 \<le> rate"
  shows "okBucket cap (snd (specAllow cap rate now b))"
proof -
  have "okBucket cap (specBucket cap now b)"
    using assms(1,2) by (cases b) (auto simp: specBucket_def okBucket_def)
  then have "okBucket cap (refill cap rate now (specBucket cap now b))"
    using assms(4) by (rule refill_ok)
  then show ?thesis using consume_ok assms(3) by (auto simp: specAllow_def Let_def)
qed

subsection \<open>The limiter implements the specification\<close>

text \<open>What one call does to the cache, the store and the allocator.\<close>

lemma allowAt_capacity:
  "capacity (snd (allowAt ops ip now l)) = capacity l"
  "refillPerSec (snd (allowAt ops ip now l)) = refillPerSec l"
  by (auto simp: allowAt_def Let_def split: prod.splits option.splits if_splits)

text \<open>The contract at the types the limiter uses: keys are IPs, values are bucket pointers.\<close>

locale bucket_cache = lru_cache ops view good size_of
  for ops :: "('s, string, nat) lru_ops"
    and view :: "'s \<Rightarrow> string \<Rightarrow> nat option"
    and good :: "'s \<Rightarrow> bool"
    and size_of :: "'s \<Rightarrow> nat"
begin

lemma allowAt_hit:
  assumes "good (buckets l)" and "view (buckets l) ip = Some p"
  shows "fst (allowAt ops ip now l) = fst (specAllow (capacity l) (refillPerSec l) now (Some (store l p)))"
    and "view (buckets (snd (allowAt ops ip now l))) = view (buckets l)"
    and "good (buckets (snd (allowAt ops ip now l))) \<and> fresh (snd (allowAt ops ip now l)) = fresh l
         \<and> size_of (buckets (snd (allowAt ops ip now l))) = size_of (buckets l)"
    and "store (snd (allowAt ops ip now l)) =
           (store l)(p := snd (specAllow (capacity l) (refillPerSec l) now (Some (store l p))))"
proof -
  obtain s where s: "lru_get ops ip (buckets l) = (view (buckets l) ip, s)" "view s = view (buckets l)"
      "good s" "size_of s = size_of (buckets l)"
    using assms(1) by (rule get_result)
  then show "fst (allowAt ops ip now l) = fst (specAllow (capacity l) (refillPerSec l) now (Some (store l p)))"
    and "view (buckets (snd (allowAt ops ip now l))) = view (buckets l)"
    and "good (buckets (snd (allowAt ops ip now l))) \<and> fresh (snd (allowAt ops ip now l)) = fresh l
         \<and> size_of (buckets (snd (allowAt ops ip now l))) = size_of (buckets l)"
    and "store (snd (allowAt ops ip now l)) =
           (store l)(p := snd (specAllow (capacity l) (refillPerSec l) now (Some (store l p))))"
    using assms(2) by (simp_all add: allowAt_def specAllow_def specBucket_def Let_def)
qed

lemma allowAt_miss:
  assumes "good (buckets l)" and "view (buckets l) ip = None"
  shows "fst (allowAt ops ip now l) = fst (specAllow (capacity l) (refillPerSec l) now None)"
    and "\<exists>s. good s \<and> view s = view (buckets l) \<and> size_of s = size_of (buckets l) \<and>
             buckets (snd (allowAt ops ip now l)) = lru_add ops ip (fresh l) s"
    and "fresh (snd (allowAt ops ip now l)) = Suc (fresh l)"
    and "store (snd (allowAt ops ip now l)) =
           (store l)(fresh l := snd (specAllow (capacity l) (refillPerSec l) now None))"
proof -
  obtain s where s: "lru_get ops ip (buckets l) = (view (buckets l) ip, s)" "view s = view (buckets l)"
      "good s" "size_of s = size_of (buckets l)"
    using assms(1) by (rule get_result)
  then show "fst (allowAt ops ip now l) = fst (specAllow (capacity l) (refillPerSec l) now None)"
    and "\<exists>s. good s \<and> view s = view (buckets l) \<and> size_of s = size_of (buckets l) \<and>
             buckets (snd (allowAt ops ip now l)) = lru_add ops ip (fresh l) s"
    and "fresh (snd (allowAt ops ip now l)) = Suc (fresh l)"
    and "store (snd (allowAt ops ip now l)) =
           (store l)(fresh l := snd (specAllow (capacity l) (refillPerSec l) now None))"
    using assms(2) by (auto simp: allowAt_def specAllow_def specBucket_def Let_def)
qed

text \<open>Refinement: the decision and the new bucket are those of the specification.\<close>

lemma allowAt_decision:
  assumes "limiterInv view good l"
  shows "fst (allowAt ops ip now l) =
         fst (specAllow (capacity l) (refillPerSec l) now (bucketOf view l ip))"
  using assms allowAt_hit(1) [of l ip] allowAt_miss(1) [of l ip]
  by (cases "view (buckets l) ip") (auto simp: limiterInv_def bucketOf_def)

lemma allowAt_bucket:
  assumes "limiterInv view good l"
  shows "bucketOf view (snd (allowAt ops ip now l)) ip =
         Some (snd (specAllow (capacity l) (refillPerSec l) now (bucketOf view l ip)))"
proof (cases "view (buckets l) ip")
  case None
  moreover from assms have "good (buckets l)" by (simp add: limiterInv_def)
  ultimately show ?thesis using allowAt_miss [of l ip now] by (auto simp: bucketOf_def add_hit)
next
  case (Some p)
  with assms allowAt_hit [of l ip p now] show ?thesis by (simp add: limiterInv_def bucketOf_def)
qed

text \<open>Another IP's bucket is unchanged, or gone with its cache entry.\<close>

lemma allowAt_other:
  assumes "limiterInv view good l" and "ip' \<noteq> ip"
  shows "bucketOf view (snd (allowAt ops ip now l)) ip' = bucketOf view l ip' \<or>
         bucketOf view (snd (allowAt ops ip now l)) ip' = None"
proof (cases "view (buckets l) ip")
  case None
  with assms obtain s where s: "good s" "view s = view (buckets l)"
      "buckets (snd (allowAt ops ip now l)) = lru_add ops ip (fresh l) s"
    using allowAt_miss(2) [of l ip now] by (auto simp: limiterInv_def)
  have "view (buckets l) ip' \<noteq> Some (fresh l)" using assms(1) by (auto simp: limiterInv_def)
  with s assms None allowAt_miss(4) [of l ip now] add_keeps_or_evicts [OF s(1) assms(2), of "fresh l"]
  show ?thesis by (cases "view (buckets l) ip'") (auto simp: limiterInv_def bucketOf_def)
next
  case (Some p)
  with assms have "view (buckets l) ip' \<noteq> Some p" by (auto simp: limiterInv_def)
  with assms(1) Some allowAt_hit [of l ip p now] show ?thesis
    by (cases "view (buckets l) ip'") (auto simp: limiterInv_def bucketOf_def)
qed

lemma allowAt_pointers:
  assumes "limiterInv view good l" and "view (buckets (snd (allowAt ops ip now l))) ip' = Some p"
  shows "(ip' = ip \<and> view (buckets l) ip = None \<and> p = fresh l \<or> view (buckets l) ip' = Some p)
         \<and> p < fresh (snd (allowAt ops ip now l))"
proof (cases "view (buckets l) ip")
  case None
  with assms obtain s where "good s" "view s = view (buckets l)"
      "buckets (snd (allowAt ops ip now l)) = lru_add ops ip (fresh l) s"
    using allowAt_miss(2) [of l ip now] by (auto simp: limiterInv_def)
  with assms None allowAt_miss(3) [of l ip now] add_cases [of s ip "fresh l" ip' p] show ?thesis
    by (auto simp: limiterInv_def less_Suc_eq)
next
  case (Some q)
  with assms allowAt_hit(2,3) [of l ip q now] show ?thesis by (auto simp: limiterInv_def)
qed

lemma allowAt_good:
  assumes "limiterInv view good l"
  shows "good (buckets (snd (allowAt ops ip now l))) \<and>
         size_of (buckets (snd (allowAt ops ip now l))) = size_of (buckets l)"
  using assms allowAt_hit(3) [of l ip] allowAt_miss(2) [of l ip now] add_good
  by (cases "view (buckets l) ip") (auto simp: limiterInv_def)

lemma allowAt_inv:
  assumes "limiterInv view good l"
  shows "limiterInv view good (snd (allowAt ops ip now l))"
proof -
  let ?l = "snd (allowAt ops ip now l)"
  have ok: "okBucket (capacity l) b" if "bucketOf view ?l ip' = Some b" for ip' b
  proof (cases "ip' = ip")
    case True
    with that allowAt_bucket [OF assms, of ip now] have
      "b = snd (specAllow (capacity l) (refillPerSec l) now (bucketOf view l ip))" by simp
    then show ?thesis using assms specAllow_ok [of "bucketOf view l ip" "capacity l" "refillPerSec l" now]
      by (simp add: limiterInv_def)
  next
    case False
    with that allowAt_other [OF assms False, of now] assms show ?thesis
      by (auto simp: limiterInv_def)
  qed
  have inj: "ip1 = ip2" if "view (buckets ?l) ip1 = Some p" "view (buckets ?l) ip2 = Some p" for ip1 ip2 p
    using allowAt_pointers [OF assms that(1)] allowAt_pointers [OF assms that(2)] assms
    by (auto simp: limiterInv_def)
  from assms ok inj allowAt_good [OF assms, of ip now] show ?thesis
    unfolding limiterInv_def [of view good ?l]
    by (auto simp: allowAt_capacity limiterInv_def dest: allowAt_pointers [OF assms])
qed

lemma ratelimit_New_inv:
  assumes "ratelimit_New ops count interval maxIPs = Inr l"
  shows "limiterInv view good l \<and> bucketOf view l = Map.empty \<and>
         size_of (buckets l) = nat (if maxIPs \<le> 0 then DefaultMaxIPs else maxIPs)"
proof -
  from assms have pos: "0 < count" "0 < interval"
    by (auto simp: ratelimit_New_def split: if_splits)
  have n: "0 < (if maxIPs \<le> 0 then DefaultMaxIPs else maxIPs)" by (simp add: DefaultMaxIPs_def)
  from pos assms new_ok [OF n] have l: "capacity l = f64 (of_int count)"
      "refillPerSec l = f64 (f64 (of_int count) / secondsF interval)" "good (buckets l)"
      "view (buckets l) = Map.empty" "size_of (buckets l) = nat (if maxIPs \<le> 0 then DefaultMaxIPs else maxIPs)"
    by (auto simp: ratelimit_New_def Let_def split: if_splits)
  have "f64 (of_int 1) \<le> f64 (of_int count)" using pos by (intro f64_mono) simp_all
  then have "1 \<le> f64 (of_int count)" using f64_int [of 1] by simp
  with l pos show ?thesis
    by (auto simp: limiterInv_def bucketOf_def f64_idem secondsF_nonneg intro!: f64.rnd_nonneg divide_nonneg_nonneg)
qed

text \<open>
  Runs. While the IPs in play fit into the cache nothing is evicted, so each IP sees exactly
  its own token bucket, whatever the other IPs do.
\<close>

lemma allowAt_kept:
  assumes "limiterInv view good l" and "insert ip (dom (view (buckets l))) \<subseteq> K" and "finite K"
    and "card K \<le> size_of (buckets l)"
  shows "dom (view (buckets (snd (allowAt ops ip now l)))) = insert ip (dom (view (buckets l)))"
    and "ip' \<noteq> ip \<Longrightarrow> bucketOf view (snd (allowAt ops ip now l)) ip' = bucketOf view l ip'"
proof -
  have "dom (view (buckets (snd (allowAt ops ip now l)))) = insert ip (dom (view (buckets l))) \<and>
        (ip' \<noteq> ip \<longrightarrow> bucketOf view (snd (allowAt ops ip now l)) ip' = bucketOf view l ip')"
  proof (cases "view (buckets l) ip")
    case None
    with assms(1) obtain s where s: "good s" "view s = view (buckets l)" "size_of s = size_of (buckets l)"
        "buckets (snd (allowAt ops ip now l)) = lru_add ops ip (fresh l) s"
      using allowAt_miss(2) [of l ip now] by (auto simp: limiterInv_def)
    have "card (dom (view (buckets l))) < card K"
      using None assms(2,3) by (intro psubset_card_mono) auto
    with s assms(4) have "view (buckets (snd (allowAt ops ip now l))) = (view (buckets l))(ip \<mapsto> fresh l)"
      using add_room [of s ip "fresh l"] by simp
    moreover have "view (buckets l) ip' \<noteq> Some (fresh l)" using assms(1) by (auto simp: limiterInv_def)
    ultimately show ?thesis using assms(1) None allowAt_miss(4) [of l ip now]
      by (cases "view (buckets l) ip'") (auto simp: limiterInv_def bucketOf_def)
  next
    case (Some p)
    with assms(1) have good: "good (buckets l)" and "view (buckets l) ip' = Some p \<Longrightarrow> ip' = ip"
      by (auto simp: limiterInv_def)
    then show ?thesis using Some allowAt_hit(2,4) [OF good Some, of now]
      by (cases "view (buckets l) ip'") (auto simp: bucketOf_def insert_absorb domI)
  qed
  then show "dom (view (buckets (snd (allowAt ops ip now l)))) = insert ip (dom (view (buckets l)))"
    and "ip' \<noteq> ip \<Longrightarrow> bucketOf view (snd (allowAt ops ip now l)) ip' = bucketOf view l ip'"
    by auto
qed

lemma allow_run_inv: "limiterInv view good l \<Longrightarrow> limiterInv view good (snd (allow_run ops rs l))"
proof (induction rs arbitrary: l)
  case (Cons r rs)
  obtain ip now where r: "r = (ip, now)" by (cases r)
  from Cons.IH [OF allowAt_inv [OF Cons.prems, of ip now]] r show ?case
    by (simp add: Let_def case_prod_unfold)
qed simp

lemma allow_run_length: "length (fst (allow_run ops rs l)) = length rs"
proof (induction rs arbitrary: l)
  case (Cons r rs)
  then show ?case by (cases r) (simp add: Let_def case_prod_unfold)
qed simp

lemma allow_run_spec:
  assumes "limiterInv view good l" and "fst ` set rs \<union> dom (view (buckets l)) \<subseteq> K" and "finite K"
    and "card K \<le> size_of (buckets l)"
  shows "map snd (filter (\<lambda>(r, a). fst r = ip) (zip rs (fst (allow_run ops rs l)))) =
         specRun (capacity l) (refillPerSec l) (map snd (filter (\<lambda>r. fst r = ip) rs)) (bucketOf view l ip)"
  using assms
proof (induction rs arbitrary: l)
  case Nil
  then show ?case by simp
next
  case (Cons r rs)
  obtain ip0 now where r: "r = (ip0, now)" by (cases r)
  obtain a l1 where step: "allowAt ops ip0 now l = (a, l1)" by fastforce
  obtain as l2 where run: "allow_run ops rs l1 = (as, l2)" by fastforce
  have l1: "l1 = snd (allowAt ops ip0 now l)" "a = fst (allowAt ops ip0 now l)" using step by simp_all
  have keep: "insert ip0 (dom (view (buckets l))) \<subseteq> K" using Cons.prems(2) r by auto
  note kept = allowAt_kept [OF Cons.prems(1) keep Cons.prems(3,4)]
  have inv: "limiterInv view good l1" unfolding l1 by (rule allowAt_inv [OF Cons.prems(1)])
  moreover have "fst ` set rs \<union> dom (view (buckets l1)) \<subseteq> K"
    using Cons.prems(2) r unfolding l1 by (auto simp: kept)
  moreover have "card K \<le> size_of (buckets l1)"
    using Cons.prems(4) allowAt_good [OF Cons.prems(1), of ip0 now] unfolding l1 by simp
  ultimately have IH: "map snd (filter (\<lambda>(r, a). fst r = ip) (zip rs as)) =
      specRun (capacity l) (refillPerSec l) (map snd (filter (\<lambda>r. fst r = ip) rs)) (bucketOf view l1 ip)"
    using Cons.IH [of l1] Cons.prems(3) run by (simp add: l1 allowAt_capacity)
  show ?case
  proof (cases "ip = ip0")
    case True
    with allowAt_decision [OF Cons.prems(1), of ip0 now] allowAt_bucket [OF Cons.prems(1), of ip0 now]
    have "specAllow (capacity l) (refillPerSec l) now (bucketOf view l ip0) = (a, the (bucketOf view l1 ip0))"
      and "bucketOf view l1 ip0 = Some (the (bucketOf view l1 ip0))"
      unfolding l1 by (auto simp: prod_eq_iff)
    with True IH r step run show ?thesis by (auto simp: Let_def)
  next
    case False
    with kept(2) [of ip now] have "bucketOf view l1 ip = bucketOf view l ip" unfolding l1 by simp
    with False IH r step run show ?thesis by (auto simp: Let_def)
  qed
qed

end

interpretation list_buckets: bucket_cache list_lru use_view use_good fst
  by unfold_locales

lemma ratelimit_New_fields:
  "ratelimit_New ops count interval maxIPs = Inr l \<Longrightarrow>
   capacity l = f64 (of_int count) \<and> refillPerSec l = f64 (f64 (of_int count) / secondsF interval)"
  by (auto simp: ratelimit_New_def Let_def split: if_splits sum.splits)

subsection \<open>The specification bounds the rate\<close>

text \<open>
  A run of one client with non-decreasing times: the tokens it spends are covered by the
  tokens it had and the refill, up to the float64 rounding of each step.
\<close>

definition rateBound :: "rat \<Rightarrow> rat \<Rightarrow> duration \<Rightarrow> nat \<Rightarrow> rat" where
  "rateBound cap rate elapsed n =
     rate * (of_int elapsed / 1000000000) * (1 + 1 / 2 ^ 51) + of_nat n * (cap / 2 ^ 52)"

lemma secondsF_upper:
  assumes "0 \<le> d"
  shows "secondsF d \<le> of_int d / 1000000000 * (1 + 1 / 2 ^ 53) ^ 2"
proof -
  let ?s = "of_int (d div second) :: rat" and ?n = "of_int (d mod second) :: rat"
  have n: "f64 ?n = ?n" by (rule f64_int) (auto intro: order_trans [OF order_less_imp_le [OF pos_mod_bound]])
  have s0: "0 \<le> ?s" "0 \<le> ?n" using assms by (auto simp: pos_imp_zdiv_nonneg_iff)
  have "d = d div second * second + d mod second" by simp
  then have d: "?s + ?n / 1000000000 = of_int d / 1000000000"
    by (metis (no_types, lifting) add_divide_distrib nonzero_mult_div_cancel_right of_int_add of_int_mult
        of_int_numeral zero_neq_numeral)
  have "f64 ?s + f64 (?n / 1000000000) \<le> (?s + ?s / 2 ^ 53) + (?n / 1000000000 + ?n / 1000000000 / 2 ^ 53)"
    using s0 by (intro add_mono f64.rnd_upper) simp_all
  also have "\<dots> = (?s + ?n / 1000000000) * (1 + 1 / 2 ^ 53)" by (simp add: field_simps)
  finally have sum: "f64 ?s + f64 (?n / 1000000000) \<le> of_int d / 1000000000 * (1 + 1 / 2 ^ 53)"
    unfolding d .
  have "0 \<le> f64 ?s + f64 (?n / 1000000000)" using s0 by (intro add_nonneg_nonneg f64.rnd_nonneg) simp_all
  from f64.rnd_upper [OF this] sum
  have "f64 (f64 ?s + f64 (?n / 1000000000)) \<le> of_int d / 1000000000 * (1 + 1 / 2 ^ 53) * (1 + 1 / 2 ^ 53)"
    by (simp add: field_simps)
  then show ?thesis using assms n by (auto simp: secondsF_def Let_def sgn_if power2_eq_square mult.assoc)
qed

lemma refill_gain:
  assumes "lastSeen b \<le> t" and "0 \<le> rate"
  shows "f64 (secondsF (timeSub t (lastSeen b)) * rate)
         \<le> rate * (of_int (t - lastSeen b) / 1000000000) * (1 + 1 / 2 ^ 51)"
proof -
  let ?u = "1 + 1 / 2 ^ 53 :: rat" and ?d = "timeSub t (lastSeen b)"
  have d: "0 \<le> ?d" "?d \<le> t - lastSeen b"
    using assms(1) by (simp_all add: timeSub_le) (simp add: timeSub_def)
  then have x: "0 \<le> secondsF ?d * rate" using assms(2) secondsF_nonneg by simp
  have "f64 (secondsF ?d * rate) \<le> secondsF ?d * rate * ?u"
    using f64.rnd_upper [OF x] by (simp add: field_simps)
  also have "\<dots> \<le> (of_int ?d / 1000000000 * ?u ^ 2) * rate * ?u"
    using d(1) assms(2) by (intro mult_right_mono secondsF_upper) simp_all
  also have "\<dots> = (rate * (of_int ?d / 1000000000)) * ?u ^ 3" by (simp add: power3_eq_cube power2_eq_square)
  also have "\<dots> \<le> (rate * (of_int (t - lastSeen b) / 1000000000)) * (1 + 1 / 2 ^ 51)"
    using d assms(2) by (intro mult_mono mult_left_mono divide_right_mono) (auto simp: power3_eq_cube)
  finally show ?thesis .
qed

lemma specAllow_gain:
  assumes "okBucket cap b" and "lastSeen b \<le> t" and "0 \<le> rate" "f64 cap = cap"
    and "specAllow cap rate t (Some b) = (a, v)"
  shows "tokens v + of_bool a \<le> tokens b + rateBound cap rate (t - lastSeen b) 1 \<and> lastSeen v = t"
proof -
  let ?r = "refill cap rate t b" and ?g = "rate * (of_int (t - lastSeen b) / 1000000000) * (1 + 1 / 2 ^ 51)"
  have c0: "0 \<le> cap" using assms(1) by (simp add: okBucket_def)
  have r: "tokens ?r \<le> tokens b + ?g + cap / 2 ^ 53 \<and> lastSeen ?r = t"
  proof (cases "lastSeen b < t")
    case True
    let ?y = "f64 (secondsF (timeSub t (lastSeen b)) * rate)"
    have y: "0 \<le> ?y" using True assms(3) secondsF_pos [of "timeSub t (lastSeen b)"]
      by (intro f64.rnd_nonneg mult_nonneg_nonneg) simp_all
    have "min cap (f64 (tokens b + ?y)) \<le> (tokens b + ?y) + cap / 2 ^ 53"
      using y assms(1,4) c0 by (intro f64.rnd_capped) (simp_all add: okBucket_def)
    with refill_gain [OF assms(2,3)] True show ?thesis by (simp add: refill_elapsed)
  next
    case False
    with assms(2) c0 show ?thesis by (simp add: refill_elapsed)
  qed
  have ok: "okBucket cap ?r" using assms(1,3) by (rule refill_ok)
  have "tokens v + of_bool a \<le> tokens ?r + cap / 2 ^ 53 \<and> lastSeen v = lastSeen ?r"
  proof (cases "1 \<le> tokens ?r")
    case True
    then have "f64 (tokens ?r - 1) \<le> (tokens ?r - 1) + (tokens ?r - 1) / 2 ^ 53"
      by (intro f64.rnd_upper) simp
    moreover have "(tokens ?r - 1) / 2 ^ 53 \<le> cap / 2 ^ 53" using ok by (simp add: okBucket_def)
    ultimately have "f64 (tokens ?r - 1) + 1 \<le> tokens ?r + cap / 2 ^ 53" by linarith
    with True assms(5) show ?thesis by (auto simp: specAllow_def specBucket_def Let_def)
  next
    case False
    with assms(5) c0 show ?thesis by (auto simp: specAllow_def specBucket_def Let_def)
  qed
  with r show ?thesis by (simp add: rateBound_def)
qed

lemma rateBound_add:
  "rateBound cap rate (d + e) (Suc n) = rateBound cap rate d 1 + rateBound cap rate e n"
  by (simp add: rateBound_def field_simps)

lemma specRun_bound:
  assumes "okBucket cap b" and "sorted (lastSeen b # ts)" and "0 \<le> rate" and "1 \<le> cap" "f64 cap = cap"
  shows "of_nat (count_list (specRun cap rate ts (Some b)) True)
         \<le> tokens b + rateBound cap rate (last (lastSeen b # ts) - lastSeen b) (length ts)"
  using assms
proof (induction ts arbitrary: b)
  case Nil
  then show ?case by (simp add: rateBound_def okBucket_def)
next
  case (Cons t ts)
  obtain a v where av: "specAllow cap rate t (Some b) = (a, v)" by fastforce
  have le: "lastSeen b \<le> t" using Cons.prems(2) by simp
  note gain = specAllow_gain [OF Cons.prems(1) le Cons.prems(3,5) av]
  have "okBucket cap v"
    using specAllow_ok [of "Some b" cap rate t] Cons.prems av by simp
  then have IH: "of_nat (count_list (specRun cap rate ts (Some v)) True)
      \<le> tokens v + rateBound cap rate (last (t # ts) - t) (length ts)"
    using Cons.IH [of v] Cons.prems gain by simp
  have "rateBound cap rate (last (t # ts) - lastSeen b) (Suc (length ts)) =
        rateBound cap rate (t - lastSeen b) 1 + rateBound cap rate (last (t # ts) - t) (length ts)"
    using rateBound_add [of cap rate "t - lastSeen b" "last (t # ts) - t"] by simp
  with IH gain av show ?case by (cases a) simp_all
qed

lemma specRun_first: "specRun cap rate (t # ts) None = specRun cap rate (t # ts) (Some \<lparr>tokens = cap, lastSeen = t\<rparr>)"
  by (simp add: specAllow_def specBucket_def)

lemma specRun_burst_from:
  assumes "k \<le> 2 ^ 53"
  shows "specRun cap rate (replicate n t) (Some \<lparr>tokens = of_nat k, lastSeen = t\<rparr>) =
         replicate (min n k) True @ replicate (n - k) False"
  using assms
proof (induction n arbitrary: k)
  case (Suc n)
  show ?case
  proof (cases k)
    case 0
    with Suc.IH [of 0] show ?thesis by (simp add: specAllow_def specBucket_def refill_elapsed)
  next
    case (Suc m)
    have "f64 (of_int (int m)) = of_int (int m)" using Suc Suc.prems by (intro f64_int) simp_all
    with Suc Suc.IH [of m] Suc.prems show ?thesis
      by (simp add: specAllow_def specBucket_def refill_elapsed)
  qed
qed simp

subsection \<open>Properties\<close>

text \<open>
  C14: On a limiter as New builds it, as long as the requests of a run come from no more
  distinct addresses than the cache holds, the decisions an address gets are those of its own
  token bucket run on its own request times: no other client's traffic can change them.
\<close>
theorem limiter_isolates_clients:
  assumes "lru_cache ops view good size_of"
    and "ratelimit_New ops count interval maxIPs = Inr l"
    and "card (fst ` set rs) \<le> nat (if maxIPs \<le> 0 then DefaultMaxIPs else maxIPs)"
  shows "map snd (filter (\<lambda>(r, a). fst r = ip) (zip rs (fst (allow_run ops rs l)))) =
         specRun (f64 (of_int count)) (f64 (f64 (of_int count) / secondsF interval))
           (map snd (filter (\<lambda>r. fst r = ip) rs)) None"
proof -
  note bc = bucket_cache.intro [OF assms(1)]
  have l: "limiterInv view good l" "bucketOf view l = Map.empty"
      "size_of (buckets l) = nat (if maxIPs \<le> 0 then DefaultMaxIPs else maxIPs)"
    using bucket_cache.ratelimit_New_inv [OF bc assms(2)] by simp_all
  then have "dom (view (buckets l)) = {}" by (auto simp: bucketOf_def fun_eq_iff)
  with bucket_cache.allow_run_spec [OF bc l(1), of rs "fst ` set rs" ip] l(2,3) assms(3)
    ratelimit_New_fields [OF assms(2)]
  show ?thesis by simp
qed

theorem limiter_isolates_clients_witness:
  "\<exists>l. ratelimit_New list_lru 2 second 5 = Inr l \<and>
     (let rs = [(''a'', 0), (''b'', 1), (''a'', 2), (''a'', 3)] in
      map snd (filter (\<lambda>(r, a). fst r = ''a'') (zip rs (fst (allow_run list_lru rs l)))) =
      specRun (f64 (of_int 2)) (f64 (f64 (of_int 2) / secondsF second))
        (map snd (filter (\<lambda>r. fst r = ''a'') rs)) None)"
proof -
  obtain l where l: "ratelimit_New list_lru 2 second 5 = Inr l"
    by (simp add: ratelimit_New_def list_lru_def)
  moreover have "card (fst ` set [(''a'', 0::time), (''b'', 1), (''a'', 2), (''a'', 3)])
      \<le> nat (if (5::int) \<le> 0 then DefaultMaxIPs else 5)"
    by (simp add: card_insert_if)
  ultimately show ?thesis
    unfolding Let_def using limiter_isolates_clients [OF list_lru.lru_cache_axioms l] by blast
qed

text \<open>
  C15: The rate bound. Over any run of one client with non-decreasing times, the requests
  allowed never exceed the tokens it had, plus the refill for the time that passed, plus an
  explicit allowance for the float64 rounding of each step.
\<close>
theorem limiter_rate_bound:
  assumes "lru_cache ops view good size_of"
    and "limiterInv view good l" and "bucketOf view l ip = Some b"
    and "dom (view (buckets l)) \<union> fst ` set rs \<subseteq> K" "finite K" "card K \<le> size_of (buckets l)"
    and "sorted (lastSeen b # map snd (filter (\<lambda>r. fst r = ip) rs))"
  shows "of_nat (length (filter (\<lambda>(r, a). fst r = ip \<and> a) (zip rs (fst (allow_run ops rs l)))))
         \<le> tokens b + rateBound (capacity l) (refillPerSec l)
             (last (lastSeen b # map snd (filter (\<lambda>r. fst r = ip) rs)) - lastSeen b)
             (length (filter (\<lambda>r. fst r = ip) rs))"
proof -
  note bc = bucket_cache.intro [OF assms(1)]
  let ?out = "map snd (filter (\<lambda>(r, a). fst r = ip) (zip rs (fst (allow_run ops rs l))))"
  have run: "?out = specRun (capacity l) (refillPerSec l) (map snd (filter (\<lambda>r. fst r = ip) rs)) (Some b)"
    using bucket_cache.allow_run_spec [OF bc assms(2), of rs K ip] assms(3,4,5,6) by (simp add: Un_commute)
  have "length (filter (\<lambda>(r, a). fst r = ip \<and> a) zs) =
        count_list (map snd (filter (\<lambda>(r, a). fst r = ip) zs)) True" for zs :: "((string \<times> time) \<times> bool) list"
    by (induction zs) auto
  moreover have "okBucket (capacity l) b"
    using assms(2,3) by (auto simp: limiterInv_def bucketOf_def)
  ultimately show ?thesis
    using specRun_bound [of "capacity l" b "map snd (filter (\<lambda>r. fst r = ip) rs)" "refillPerSec l"]
      assms(2,7) by (simp add: run limiterInv_def)
qed

text \<open>A limiter of three tokens, two per second, holding one client.\<close>

definition sampleLimiter :: "(string, nat) use_list limiter" where
  "sampleLimiter =
     \<lparr>capacity = 3, refillPerSec = 2, buckets = (5, [(''a'', 0)]),
      store = (\<lambda>_. \<lparr>tokens = 3, lastSeen = 0\<rparr>), fresh = 1\<rparr>"

theorem limiter_rate_bound_witness:
  "let rs = [(''a'', 1), (''a'', 2), (''b'', 2), (''a'', second)] in
   of_nat (length (filter (\<lambda>(r, a). fst r = ''a'' \<and> a) (zip rs (fst (allow_run list_lru rs sampleLimiter)))))
     \<le> 3 + rateBound 3 2 (last (0 # map snd (filter (\<lambda>r. fst r = ''a'') rs)))
            (length (filter (\<lambda>r. fst r = ''a'') rs))"
proof -
  let ?rs = "[(''a'', 1), (''a'', 2), (''b'', 2), (''a'', second)]"
  let ?b = "\<lparr>tokens = 3, lastSeen = 0\<rparr>"
  have "limiterInv use_view use_good sampleLimiter"
    using f64_int [of 3]
    by (auto simp: limiterInv_def sampleLimiter_def use_good_def okBucket_def bucketOf_def split: if_splits)
  moreover have "bucketOf use_view sampleLimiter ''a'' = Some ?b"
    by (simp add: bucketOf_def sampleLimiter_def)
  moreover have "dom (use_view (buckets sampleLimiter)) \<union> fst ` set ?rs \<subseteq> {''a'', ''b''}"
    by (auto simp: sampleLimiter_def split: if_splits)
  moreover have "card {''a'', ''b''} \<le> fst (buckets sampleLimiter)" by (simp add: sampleLimiter_def)
  moreover have "sorted (lastSeen ?b # map snd (filter (\<lambda>r. fst r = ''a'') ?rs))" by simp
  moreover have "capacity sampleLimiter = 3" "refillPerSec sampleLimiter = 2" "tokens ?b = 3" "lastSeen ?b = 0"
    by (simp_all add: sampleLimiter_def)
  ultimately show ?thesis
    using limiter_rate_bound [OF list_lru.lru_cache_axioms, of sampleLimiter "''a''" ?b ?rs "{''a'', ''b''}"]
    unfolding Let_def by (metis diff_zero finite.emptyI finite.insertI)
qed

text \<open>
  A burst from an address the limiter has not seen: of n simultaneous requests exactly the
  first count are allowed.
\<close>
lemma limiter_burst:
  assumes "lru_cache ops view good size_of"
    and "ratelimit_New ops count interval maxIPs = Inr l" and "count \<le> 2 ^ 53"
  shows "fst (allow_run ops (replicate n (ip, t)) l) =
         replicate (min n (nat count)) True @ replicate (n - nat count) False"
proof -
  note bc = bucket_cache.intro [OF assms(1)]
  let ?rs = "replicate n (ip, t)"
  have l: "limiterInv view good l" "bucketOf view l = Map.empty" "0 < size_of (buckets l)"
    using bucket_cache.ratelimit_New_inv [OF bc assms(2)] by (simp_all add: DefaultMaxIPs_def)
  then have "dom (view (buckets l)) = {}" by (auto simp: bucketOf_def fun_eq_iff)
  moreover have len: "length (fst (allow_run ops ?rs l)) = n" using bucket_cache.allow_run_length [OF bc, of ?rs l] by simp
  have "map snd (filter (\<lambda>(r, a). fst r = ip) (zip ?rs (fst (allow_run ops ?rs l)))) = fst (allow_run ops ?rs l)"
    using len by (subst filter_True) (auto dest!: set_zip_leftD)
  ultimately have run: "fst (allow_run ops ?rs l) =
      specRun (capacity l) (refillPerSec l) (replicate n t) None"
    using bucket_cache.allow_run_spec [OF bc l(1), of ?rs "{ip}" ip] l(2,3) by auto
  have cnt: "0 < count" using assms(2) by (auto simp: ratelimit_New_def split: if_splits)
  then have "capacity l = of_nat (nat count)"
    using ratelimit_New_fields [OF assms(2)] assms(3) f64_int [of count] by simp
  with run specRun_burst_from [of "nat count" "capacity l" "refillPerSec l" n t] cnt assms(3)
  show ?thesis by (cases n) (simp_all add: specRun_first del: specRun.simps(2))
qed

lemma limiter_burst_witness:
  "\<exists>l. ratelimit_New list_lru 3 second 0 = Inr l \<and>
     fst (allow_run list_lru (replicate 5 (''203.0.113.7'', 12)) l) = [True, True, True, False, False]"
proof -
  obtain l where l: "ratelimit_New list_lru 3 second 0 = Inr l"
    by (simp add: ratelimit_New_def list_lru_def DefaultMaxIPs_def)
  with limiter_burst [OF list_lru.lru_cache_axioms l, of 5 "''203.0.113.7''" 12]
  show ?thesis by (simp add: numeral_eq_Suc)
qed

end
