(* ===== verification/Metrics.thy ===== *)
theory Metrics
  imports RateLimit Http
begin

text \<open>
  core/metrics: counters and histograms with labels, the registry that emits them as Prometheus
  text, the Recorder the other components call, and the two HTTP handlers. Each object's state
  is a value; the Recorder and the registry share their objects, so the registry's contents are
  a function of the Recorder (\<open>collectors\<close>). A panic is a value. The printing of floats
  (strconv's shortest form and the verb g) is an argument.
\<close>

subsection \<open>Labels\<close>

definition encodeLabelValues :: "string list \<Rightarrow> string" where
  "encodeLabelValues values = join [CHR 0x00] values"

text \<open>A nil slice is the empty list.\<close>

definition decodeLabelValues :: "string \<Rightarrow> string list" where
  "decodeLabelValues key = (if key = [] then [] else splitOn CHR 0x00 key)"

fun escapeLabelChar :: "char \<Rightarrow> string" where
  "escapeLabelChar c =
     (if c = CHR 0x22 then [CHR 0x5C, CHR 0x22]
      else if c = CHR 0x5C then [CHR 0x5C, CHR 0x5C]
      else if c = CHR 0x0A then [CHR 0x5C, CHR ''n'']
      else [c])"

definition escapeLabelValue :: "string \<Rightarrow> string" where
  "escapeLabelValue v =
     (if \<not> containsAny v [CHR 0x22, CHR 0x5C, CHR 0x0A] then v else concat (map escapeLabelChar v))"

definition escapeHelp :: "string \<Rightarrow> string" where
  "escapeHelp v =
     (if \<not> containsAny v [CHR 0x5C, CHR 0x0A] then v
      else concat (map (\<lambda>c. if c = CHR 0x5C then [CHR 0x5C, CHR 0x5C]
                            else if c = CHR 0x0A then [CHR 0x5C, CHR ''n''] else [c]) v))"

definition labelPair :: "string \<Rightarrow> string \<Rightarrow> string" where
  "labelPair name v = name @ ''='' @ CHR 0x22 # escapeLabelValue v @ [CHR 0x22]"

text \<open>Reading \<open>values[i]\<close> beyond the end panics (None).\<close>

definition renderLabelsWithValues :: "string list \<Rightarrow> string list \<Rightarrow> string option" where
  "renderLabelsWithValues names values =
     (if names = [] then Some []
      else if length values < length names then None
      else Some (''{'' @ join '','' (map2 labelPair names values) @ ''}''))"

definition renderLabels :: "string list \<Rightarrow> string \<Rightarrow> string option" where
  "renderLabels names encodedValues =
     (if names = [] then Some [] else renderLabelsWithValues names (decodeLabelValues encodedValues))"

definition renderLabelsWithExtra :: "string list \<Rightarrow> string list \<Rightarrow> string \<Rightarrow> string \<Rightarrow> string option" where
  "renderLabelsWithExtra names values extraKey extraValue =
     (if length values < length names then None
      else Some (''{'' @ concat (map (\<lambda>p. p @ '','') (map2 labelPair names values))
                 @ labelPair extraKey extraValue @ ''}''))"

subsection \<open>Counters\<close>

datatype metrics_panic = NegativeDelta | LabelCount string nat nat | DuplicateName string | UnsortedBuckets string

record counter =
  c_name :: string
  c_help :: string
  c_labelNames :: "string list"
  c_values :: "(string \<times> int) list"

definition NewCounter :: "string \<Rightarrow> string \<Rightarrow> string list \<Rightarrow> counter" where
  "NewCounter name help labelNames = \<lparr>c_name = name, c_help = help, c_labelNames = labelNames, c_values = []\<rparr>"

text \<open>The zero value of an absent key, and the int64 sum.\<close>

definition valueAt :: "string \<Rightarrow> (string \<times> int) list \<Rightarrow> int" where
  "valueAt k m = (case map_of m k of None \<Rightarrow> 0 | Some v \<Rightarrow> v)"

definition counter_Add :: "int \<Rightarrow> string list \<Rightarrow> counter \<Rightarrow> metrics_panic + counter" where
  "counter_Add delta labelValues c =
     (if delta < 0 then Inl NegativeDelta
      else if length labelValues \<noteq> length (c_labelNames c)
      then Inl (LabelCount (c_name c) (length labelValues) (length (c_labelNames c)))
      else
        (let key = encodeLabelValues labelValues in
         Inr (c\<lparr>c_values := mapSet key (wrap64 (valueAt key (c_values c) + delta)) (c_values c)\<rparr>)))"

definition counter_Inc :: "string list \<Rightarrow> counter \<Rightarrow> metrics_panic + counter" where
  "counter_Inc labelValues c = counter_Add 1 labelValues c"

definition headerText :: "string \<Rightarrow> string \<Rightarrow> string \<Rightarrow> string" where
  "headerText name help kind =
     ''# HELP '' @ name @ '' '' @ escapeHelp help @ [CHR 0x0A]
     @ ''# TYPE '' @ name @ '' '' @ kind @ [CHR 0x0A]"

definition sampleLine :: "string \<Rightarrow> string \<Rightarrow> string \<Rightarrow> string" where
  "sampleLine name labels v = name @ labels @ '' '' @ v @ [CHR 0x0A]"

text \<open>All lines of a list that may panic on the way.\<close>

fun concatAll :: "string option list \<Rightarrow> string option" where
  "concatAll [] = Some []"
| "concatAll (x # xs) = (case (x, concatAll xs) of (Some a, Some b) \<Rightarrow> Some (a @ b) | _ \<Rightarrow> None)"

definition counter_Emit :: "counter \<Rightarrow> string option" where
  "counter_Emit c =
     map_option (\<lambda>samples. headerText (c_name c) (c_help c) ''counter'' @ samples)
       (concatAll (map (\<lambda>k. map_option (\<lambda>labels. sampleLine (c_name c) labels (formatInt (valueAt k (c_values c))))
                              (renderLabels (c_labelNames c) k))
                    (sort (map fst (c_values c)))))"

subsection \<open>Histograms\<close>

record histogram_series =
  bucketCounts :: "int list"
  hs_sum :: rat
  hs_count :: int

record histogram =
  h_name :: string
  h_help :: string
  h_labelNames :: "string list"
  h_buckets :: "rat list"
  h_series :: "(string \<times> histogram_series) list"

definition NewHistogram :: "string \<Rightarrow> string \<Rightarrow> rat list \<Rightarrow> string list \<Rightarrow> metrics_panic + histogram" where
  "NewHistogram name help bounds labelNames =
     (if list_ex (\<lambda>(a, b). b \<le> a) (zip bounds (tl bounds)) then Inl (UnsortedBuckets name)
      else Inr \<lparr>h_name = name, h_help = help, h_labelNames = labelNames, h_buckets = bounds, h_series = []\<rparr>)"

definition observeSeries :: "rat list \<Rightarrow> rat \<Rightarrow> histogram_series \<Rightarrow> histogram_series" where
  "observeSeries bounds value s =
     s\<lparr>hs_count := wrap64 (hs_count s + 1),
       hs_sum := f64 (hs_sum s + value),
       bucketCounts := map2 (\<lambda>ub n. if value \<le> ub then wrap64 (n + 1) else n) bounds (bucketCounts s)\<rparr>"

definition emptySeries :: "rat list \<Rightarrow> histogram_series" where
  "emptySeries bounds = \<lparr>bucketCounts = map (\<lambda>_. 0) bounds, hs_sum = 0, hs_count = 0\<rparr>"

definition seriesAt :: "histogram \<Rightarrow> string \<Rightarrow> histogram_series" where
  "seriesAt h k = (case map_of (h_series h) k of None \<Rightarrow> emptySeries (h_buckets h) | Some s \<Rightarrow> s)"

definition Observe :: "rat \<Rightarrow> string list \<Rightarrow> histogram \<Rightarrow> metrics_panic + histogram" where
  "Observe value labelValues h =
     (if length labelValues \<noteq> length (h_labelNames h)
      then Inl (LabelCount (h_name h) (length labelValues) (length (h_labelNames h)))
      else
        (let key = encodeLabelValues labelValues in
         Inr (h\<lparr>h_series := mapSet key (observeSeries (h_buckets h) value (seriesAt h key)) (h_series h)\<rparr>)))"

text \<open>How floats print: strconv.FormatFloat with the shortest g form, and the verb g.\<close>

record float_print =
  shortest :: "rat \<Rightarrow> string"
  verbG :: "rat \<Rightarrow> string"

definition histogram_series_Emit :: "float_print \<Rightarrow> histogram \<Rightarrow> string \<Rightarrow> string option" where
  "histogram_series_Emit f h k =
     (let s = seriesAt h k; values = decodeLabelValues k; bucketName = h_name h @ ''_bucket'' in
      concatAll
        (map (\<lambda>(ub, n). map_option (\<lambda>labels. sampleLine bucketName labels (formatInt n))
                          (renderLabelsWithExtra (h_labelNames h) values ''le'' (shortest f ub)))
             (zip (h_buckets h) (bucketCounts s))
         @ [map_option (\<lambda>labels. sampleLine bucketName labels (formatInt (hs_count s)))
              (renderLabelsWithExtra (h_labelNames h) values ''le'' ''+Inf''),
            map_option (\<lambda>labels. sampleLine (h_name h @ ''_sum'') labels (verbG f (hs_sum s))) (renderLabels (h_labelNames h) k),
            map_option (\<lambda>labels. sampleLine (h_name h @ ''_count'') labels (formatInt (hs_count s)))
              (renderLabels (h_labelNames h) k)]))"

definition histogram_Emit :: "float_print \<Rightarrow> histogram \<Rightarrow> string option" where
  "histogram_Emit f h =
     map_option (\<lambda>samples. headerText (h_name h) (h_help h) ''histogram'' @ samples)
       (concatAll (map (histogram_series_Emit f h) (sort (map fst (h_series h)))))"

subsection \<open>The registry\<close>

datatype collector = CCounter counter | CHistogram histogram

fun collector_Name :: "collector \<Rightarrow> string" where
  "collector_Name (CCounter c) = c_name c"
| "collector_Name (CHistogram h) = h_name h"

fun collector_Emit :: "float_print \<Rightarrow> collector \<Rightarrow> string option" where
  "collector_Emit f (CCounter c) = counter_Emit c"
| "collector_Emit f (CHistogram h) = histogram_Emit f h"

definition registry_Register :: "collector \<Rightarrow> collector list \<Rightarrow> metrics_panic + collector list" where
  "registry_Register c r =
     (if list_ex (\<lambda>existing. collector_Name existing = collector_Name c) r
      then Inl (DuplicateName (collector_Name c))
      else Inr (r @ [c]))"

text \<open>The collectors sorted by name, stably.\<close>

definition registry_Emit :: "float_print \<Rightarrow> collector list \<Rightarrow> string option" where
  "registry_Emit f r = concatAll (map (collector_Emit f) (sort_key collector_Name r))"

definition HealthzHandler :: "wop list" where
  "HealthzHandler =
     [SetHeader ''Content-Type'' ''text/plain; charset=utf-8'', WriteHeader 200, Write ''ok'']"

text \<open>A panic while emitting leaves the response after its headers (net/http aborts it).\<close>

definition metricsHandler :: "float_print \<Rightarrow> collector list \<Rightarrow> wop list" where
  "metricsHandler f r =
     [SetHeader ''Content-Type'' ''text/plain; version=0.0.4; charset=utf-8'', WriteHeader 200]
     @ (case registry_Emit f r of None \<Rightarrow> [] | Some s \<Rightarrow> [Write s])"

end
