(* ===== verification/Recorder.thy ===== *)
theory Recorder
  imports Metrics
begin

text \<open>
  core/metrics/recorder.go: the typed entry point to the metrics. What it counts is shown against
  the list of the calls made: each series holds the number of the calls it stands for.
\<close>

definition LatencyBuckets :: "rat list" where
  "LatencyBuckets = map f64 [1/1000, 5/1000, 1/100, 5/100, 1/10, 5/10, 1, 5, 10]"

record recorder =
  rc_submitted :: counter
  rc_sent :: counter
  rc_failed :: counter
  rc_rateLimited :: counter
  rc_authFailed :: counter
  rc_spamBlocked :: counter
  rc_validationFailed :: counter
  rc_idempotentReplay :: counter
  rc_sendLatency :: histogram

definition latencyHistogram :: histogram where
  "latencyHistogram =
     \<lparr>h_name = ''posthorn_send_latency_seconds'',
      h_help = ''Wall-clock latency of transport.Send, including any retries.'',
      h_labelNames = [''endpoint'', ''transport''], h_buckets = LatencyBuckets, h_series = []\<rparr>"

definition newRecorder :: recorder where
  "newRecorder =
     \<lparr>rc_submitted = NewCounter ''posthorn_submissions_received_total''
        ''Submissions accepted past the body-parse stage, before transport.Send.'' [''endpoint''],
      rc_sent = NewCounter ''posthorn_submissions_sent_total''
        ''Submissions successfully delivered to the upstream transport.'' [''endpoint'', ''transport''],
      rc_failed = NewCounter ''posthorn_submissions_failed_total''
        ''Submissions that reached transport.Send but failed terminally (no retry, 502 to client).''
        [''endpoint'', ''transport'', ''error_class''],
      rc_rateLimited = NewCounter ''posthorn_rate_limited_total''
        ''Submissions rejected at the rate-limit gate (HTTP 429).'' [''endpoint''],
      rc_authFailed = NewCounter ''posthorn_auth_failed_total''
        ''API-mode submissions rejected with HTTP 401 (missing or invalid Bearer token).'' [''endpoint''],
      rc_spamBlocked = NewCounter ''posthorn_spam_blocked_total''
        ''Form-mode submissions silent-rejected by spam defenses (honeypot, origin).'' [''endpoint'', ''kind''],
      rc_validationFailed = NewCounter ''posthorn_validation_failed_total''
        ''Submissions rejected with HTTP 422 for missing required fields or malformed email.'' [''endpoint''],
      rc_idempotentReplay = NewCounter ''posthorn_idempotent_replay_total''
        ''API-mode requests served from the idempotency cache without re-sending.'' [''endpoint''],
      rc_sendLatency = latencyHistogram\<rparr>"

text \<open>What the registry holds once the Recorder is registered, in the order of registration.\<close>

definition collectors :: "recorder \<Rightarrow> collector list" where
  "collectors r =
     [CCounter (rc_submitted r), CCounter (rc_sent r), CCounter (rc_failed r), CCounter (rc_rateLimited r),
      CCounter (rc_authFailed r), CCounter (rc_spamBlocked r), CCounter (rc_validationFailed r),
      CCounter (rc_idempotentReplay r), CHistogram (rc_sendLatency r)]"

fun registry_RegisterAll :: "collector list \<Rightarrow> collector list \<Rightarrow> metrics_panic + collector list" where
  "registry_RegisterAll [] r = Inr r"
| "registry_RegisterAll (c # cs) r =
     (case registry_Register c r of Inl p \<Rightarrow> Inl p | Inr r1 \<Rightarrow> registry_RegisterAll cs r1)"

definition NewRecorder :: "collector list \<Rightarrow> metrics_panic + (recorder \<times> collector list)" where
  "NewRecorder reg =
     (case NewHistogram (h_name latencyHistogram) (h_help latencyHistogram) LatencyBuckets (h_labelNames latencyHistogram) of
        Inl p \<Rightarrow> Inl p
      | Inr h \<Rightarrow>
          (let r = newRecorder\<lparr>rc_sendLatency := h\<rparr> in
           map_sum id (Pair r) (registry_RegisterAll (collectors r) reg)))"

subsection \<open>The methods\<close>

datatype recorder_call =
    Submitted string
  | Sent string string duration
  | Failed string string string
  | RateLimited string
  | AuthFailed string
  | SpamBlocked string string
  | ValidationFailed string
  | IdempotentReplay string

fun record_call :: "recorder_call \<Rightarrow> recorder \<Rightarrow> metrics_panic + recorder" where
  "record_call (Submitted endpoint) r =
     map_sum id (\<lambda>c. r\<lparr>rc_submitted := c\<rparr>) (counter_Inc [endpoint] (rc_submitted r))"
| "record_call (Sent endpoint transport latency) r =
     (case counter_Inc [endpoint, transport] (rc_sent r) of
        Inl p \<Rightarrow> Inl p
      | Inr c \<Rightarrow>
          map_sum id (\<lambda>h. r\<lparr>rc_sent := c, rc_sendLatency := h\<rparr>)
            (Observe (secondsF latency) [endpoint, transport] (rc_sendLatency r)))"
| "record_call (Failed endpoint transport errorClass) r =
     map_sum id (\<lambda>c. r\<lparr>rc_failed := c\<rparr>) (counter_Inc [endpoint, transport, errorClass] (rc_failed r))"
| "record_call (RateLimited endpoint) r =
     map_sum id (\<lambda>c. r\<lparr>rc_rateLimited := c\<rparr>) (counter_Inc [endpoint] (rc_rateLimited r))"
| "record_call (AuthFailed endpoint) r =
     map_sum id (\<lambda>c. r\<lparr>rc_authFailed := c\<rparr>) (counter_Inc [endpoint] (rc_authFailed r))"
| "record_call (SpamBlocked endpoint kind) r =
     map_sum id (\<lambda>c. r\<lparr>rc_spamBlocked := c\<rparr>) (counter_Inc [endpoint, kind] (rc_spamBlocked r))"
| "record_call (ValidationFailed endpoint) r =
     map_sum id (\<lambda>c. r\<lparr>rc_validationFailed := c\<rparr>) (counter_Inc [endpoint] (rc_validationFailed r))"
| "record_call (IdempotentReplay endpoint) r =
     map_sum id (\<lambda>c. r\<lparr>rc_idempotentReplay := c\<rparr>) (counter_Inc [endpoint] (rc_idempotentReplay r))"

text \<open>A run of calls, in the order the mutexes admit them.\<close>

fun record_all :: "recorder_call list \<Rightarrow> recorder \<Rightarrow> metrics_panic + recorder" where
  "record_all [] r = Inr r"
| "record_all (c # cs) r = (case record_call c r of Inl p \<Rightarrow> Inl p | Inr r1 \<Rightarrow> record_all cs r1)"

subsection \<open>Series and calls\<close>

datatype metric_id = MSubmitted | MSent | MFailed | MRateLimited | MAuthFailed | MSpam | MValidation | MReplay

fun counterOf :: "metric_id \<Rightarrow> recorder \<Rightarrow> counter" where
  "counterOf MSubmitted r = rc_submitted r"
| "counterOf MSent r = rc_sent r"
| "counterOf MFailed r = rc_failed r"
| "counterOf MRateLimited r = rc_rateLimited r"
| "counterOf MAuthFailed r = rc_authFailed r"
| "counterOf MSpam r = rc_spamBlocked r"
| "counterOf MValidation r = rc_validationFailed r"
| "counterOf MReplay r = rc_idempotentReplay r"

text \<open>The counter a call belongs to, and the labels of its series.\<close>

fun callMetric :: "recorder_call \<Rightarrow> metric_id" where
  "callMetric (Submitted e) = MSubmitted"
| "callMetric (Sent e t l) = MSent"
| "callMetric (Failed e t c) = MFailed"
| "callMetric (RateLimited e) = MRateLimited"
| "callMetric (AuthFailed e) = MAuthFailed"
| "callMetric (SpamBlocked e k) = MSpam"
| "callMetric (ValidationFailed e) = MValidation"
| "callMetric (IdempotentReplay e) = MReplay"

fun callLabels :: "recorder_call \<Rightarrow> string list" where
  "callLabels (Submitted e) = [e]"
| "callLabels (Sent e t l) = [e, t]"
| "callLabels (Failed e t c) = [e, t, c]"
| "callLabels (RateLimited e) = [e]"
| "callLabels (AuthFailed e) = [e]"
| "callLabels (SpamBlocked e k) = [e, k]"
| "callLabels (ValidationFailed e) = [e]"
| "callLabels (IdempotentReplay e) = [e]"

definition noNUL :: "string list \<Rightarrow> bool" where
  "noNUL vs \<longleftrightarrow> vs \<noteq> [] \<and> list_all (\<lambda>v. CHR 0x00 \<notin> set v) vs"

lemma encode_inj: "noNUL vs \<Longrightarrow> noNUL ws \<Longrightarrow> encodeLabelValues vs = encodeLabelValues ws \<longleftrightarrow> vs = ws"
  unfolding encodeLabelValues_def noNUL_def list_all_iff by (metis splitOn_join)

lemma valueAt_mapSet: "valueAt k (mapSet k' v m) = (if k = k' then v else valueAt k m)"
  by (simp add: valueAt_def)

lemma seriesAt_mapSet:
  "seriesAt (h\<lparr>h_series := mapSet k' s (h_series h)\<rparr>) k = (if k = k' then s else seriesAt h k)"
  by (simp add: seriesAt_def split: option.split)

text \<open>The latencies observed for an endpoint and a transport.\<close>

fun latencyOf :: "string list \<Rightarrow> recorder_call \<Rightarrow> rat option" where
  "latencyOf vs (Sent e t l) = (if vs = [e, t] then Some (secondsF l) else None)"
| "latencyOf vs _ = None"

definition latencies :: "string list \<Rightarrow> recorder_call list \<Rightarrow> rat list" where
  "latencies vs cs = List.map_filter (latencyOf vs) cs"

text \<open>A recorder that stands for a list of calls.\<close>

definition counted :: "recorder_call list \<Rightarrow> recorder \<Rightarrow> bool" where
  "counted cs r \<longleftrightarrow>
     (\<forall>m. c_labelNames (counterOf m r) = c_labelNames (counterOf m newRecorder)) \<and>
     h_labelNames (rc_sendLatency r) = h_labelNames latencyHistogram \<and>
     h_buckets (rc_sendLatency r) = LatencyBuckets \<and>
     (\<forall>m vs. noNUL vs \<longrightarrow> valueAt (encodeLabelValues vs) (c_values (counterOf m r)) =
        int (length (filter (\<lambda>c. callMetric c = m \<and> callLabels c = vs) cs))) \<and>
     (\<forall>vs. noNUL vs \<longrightarrow>
        (let s = seriesAt (rc_sendLatency r) (encodeLabelValues vs); ls = latencies vs cs in
         hs_count s = int (length ls) \<and>
         bucketCounts s = map (\<lambda>ub. int (length (filter (\<lambda>l. l \<le> ub) ls))) LatencyBuckets))"

lemma newRecorder_fields [simp]:
  "c_values (counterOf m newRecorder) = []"
  "h_series (rc_sendLatency newRecorder) = []"
  "h_labelNames (rc_sendLatency newRecorder) = h_labelNames latencyHistogram"
  "h_buckets (rc_sendLatency newRecorder) = LatencyBuckets"
  by (cases m) (simp_all add: newRecorder_def NewCounter_def latencyHistogram_def)

lemma newRecorder_labels:
  "length (c_labelNames (counterOf (callMetric c) newRecorder)) = length (callLabels c)"
  by (cases c) (simp_all add: newRecorder_def NewCounter_def)

lemma counted_new: "counted [] newRecorder"
  by (simp add: counted_def valueAt_def latencies_def List.map_filter_def seriesAt_def emptySeries_def Let_def)

subsection \<open>One call\<close>

definition bump :: "string list \<Rightarrow> counter \<Rightarrow> counter" where
  "bump vs c = c\<lparr>c_values := mapSet (encodeLabelValues vs) (wrap64 (valueAt (encodeLabelValues vs) (c_values c) + 1)) (c_values c)\<rparr>"

lemma counter_Inc_ok: "length vs = length (c_labelNames c) \<Longrightarrow> counter_Inc vs c = Inr (bump vs c)"
  by (simp add: counter_Inc_def counter_Add_def bump_def Let_def)

fun observed :: "recorder_call \<Rightarrow> histogram \<Rightarrow> histogram" where
  "observed (Sent e t l) h =
     (let key = encodeLabelValues [e, t] in
      h\<lparr>h_series := mapSet key (observeSeries (h_buckets h) (secondsF l) (seriesAt h key)) (h_series h)\<rparr>)"
| "observed _ h = h"

lemma record_call_result:
  assumes "\<And>m. c_labelNames (counterOf m r) = c_labelNames (counterOf m newRecorder)"
    and "h_labelNames (rc_sendLatency r) = h_labelNames latencyHistogram"
  shows "\<exists>r'. record_call c r = Inr r' \<and>
    (\<forall>m. counterOf m r' = (if m = callMetric c then bump (callLabels c) (counterOf m r) else counterOf m r)) \<and>
    rc_sendLatency r' = observed c (rc_sendLatency r)"
proof -
  have len: "length (callLabels c) = length (c_labelNames (counterOf (callMetric c) r))"
    using newRecorder_labels [of c] assms(1) by simp
  have all: "(\<forall>m. P m) \<longleftrightarrow> P MSubmitted \<and> P MSent \<and> P MFailed \<and> P MRateLimited \<and> P MAuthFailed \<and> P MSpam \<and>
      P MValidation \<and> P MReplay" for P :: "metric_id \<Rightarrow> bool"
    by (metis metric_id.exhaust)
  from len assms(2) show ?thesis
    by (cases c) (simp_all add: counter_Inc_ok all Observe_def Let_def latencyHistogram_def)
qed

lemma counter_step:
  assumes "counted cs r" and "int (length cs) < 2 ^ 63 - 1" and "noNUL vs" and "noNUL ws"
  shows "valueAt (encodeLabelValues vs) (c_values (bump ws (counterOf m r))) =
    int (length (filter (\<lambda>c. callMetric c = m \<and> callLabels c = vs) cs)) + (if vs = ws then 1 else 0)"
proof -
  have "int (length (filter (\<lambda>c. callMetric c = m \<and> callLabels c = vs) cs)) < 2 ^ 63 - 1"
    using assms(2) by (meson le_less_trans length_filter_le of_nat_le_iff)
  with assms(1,3,4) show ?thesis
    by (auto simp: counted_def bump_def valueAt_mapSet encode_inj intro: wrap64_id)
qed

lemma latencies_append [simp]: "latencies vs (cs @ ds) = latencies vs cs @ latencies vs ds"
  by (simp add: latencies_def List.map_filter_def)

lemma latencies_length: "length (latencies vs cs) \<le> length cs"
  by (simp add: latencies_def List.map_filter_def)

lemma bucket_step:
  assumes "int (length ls) < 2 ^ 63 - 1"
  shows "map2 (\<lambda>ub n. if v \<le> ub then wrap64 (n + 1) else n) bs (map (\<lambda>ub. int (length (filter (\<lambda>l. l \<le> ub) ls))) bs) =
    map (\<lambda>ub. int (length (filter (\<lambda>l. l \<le> ub) (ls @ [v])))) bs"
proof -
  have "int (length (filter (\<lambda>l. l \<le> ub) ls)) < 2 ^ 63 - 1" for ub
    using assms by (meson le_less_trans length_filter_le of_nat_le_iff)
  then have "wrap64 (int (length (filter (\<lambda>l. l \<le> ub) ls)) + 1) = int (length (filter (\<lambda>l. l \<le> ub) ls)) + 1" for ub
    by (intro wrap64_id) (simp_all add: less_diff_eq)
  then show ?thesis by (induction bs) simp_all
qed

lemma histogram_step:
  assumes "counted cs r" and "int (length cs) < 2 ^ 63 - 1" and "noNUL vs" and "noNUL (callLabels c)"
  shows "(let s = seriesAt (observed c (rc_sendLatency r)) (encodeLabelValues vs); ls = latencies vs (cs @ [c]) in
     hs_count s = int (length ls) \<and>
     bucketCounts s = map (\<lambda>ub. int (length (filter (\<lambda>l. l \<le> ub) ls))) LatencyBuckets)"
proof (cases c)
  case (Sent e t l)
  have len: "int (length (latencies vs cs)) < 2 ^ 63 - 1"
    using assms(2) latencies_length [of vs cs] by linarith
  have b: "h_buckets (rc_sendLatency r) = LatencyBuckets" using assms(1) by (simp add: counted_def)
  from assms(1,3) have s: "hs_count (seriesAt (rc_sendLatency r) (encodeLabelValues vs)) = int (length (latencies vs cs))"
    "bucketCounts (seriesAt (rc_sendLatency r) (encodeLabelValues vs)) =
       map (\<lambda>ub. int (length (filter (\<lambda>l. l \<le> ub) (latencies vs cs)))) LatencyBuckets"
    by (auto simp: counted_def Let_def)
  show ?thesis
  proof (cases "vs = [e, t]")
    case True
    moreover have "latencies vs [c] = [secondsF l]" using True Sent by (simp add: latencies_def List.map_filter_def)
    moreover have "wrap64 (int (length (latencies vs cs)) + 1) = int (length (latencies vs cs)) + 1"
      using len by (intro wrap64_id) auto
    ultimately show ?thesis
      using Sent s bucket_step [OF len] by (simp add: seriesAt_mapSet observeSeries_def b Let_def)
  next
    case False
    then have "latencies vs [c] = []" using Sent by (simp add: latencies_def List.map_filter_def)
    moreover have "encodeLabelValues vs \<noteq> encodeLabelValues [e, t]"
      using False assms(3,4) Sent by (simp add: encode_inj)
    ultimately show ?thesis using Sent s by (simp add: seriesAt_mapSet Let_def)
  qed
qed (use assms in \<open>auto simp: counted_def Let_def latencies_def List.map_filter_def\<close>)

lemma counted_step:
  assumes "counted cs r" and "int (length cs) < 2 ^ 63 - 1" and "noNUL (callLabels c)"
  shows "\<exists>r'. record_call c r = Inr r' \<and> counted (cs @ [c]) r'"
proof -
  obtain r' where r': "record_call c r = Inr r'"
    "\<And>m. counterOf m r' = (if m = callMetric c then bump (callLabels c) (counterOf m r) else counterOf m r)"
    "rc_sendLatency r' = observed c (rc_sendLatency r)"
    using record_call_result [of r c] assms(1) unfolding counted_def by blast
  have "c_labelNames (counterOf m r') = c_labelNames (counterOf m newRecorder)" for m
    using assms(1) by (simp add: r'(2) bump_def counted_def)
  moreover have "h_labelNames (observed c h) = h_labelNames h \<and> h_buckets (observed c h) = h_buckets h" for h
    by (cases c) (simp_all add: Let_def)
  moreover have "valueAt (encodeLabelValues vs) (c_values (counterOf m r')) =
      int (length (filter (\<lambda>c. callMetric c = m \<and> callLabels c = vs) (cs @ [c])))" if "noNUL vs" for m vs
    using counter_step [OF assms(1,2) that assms(3)] assms(1) that by (auto simp: r'(2) counted_def)
  ultimately have "counted (cs @ [c]) r'"
    using histogram_step [OF assms(1,2) _ assms(3)] assms(1) unfolding counted_def r'(3) by simp
  with r'(1) show ?thesis by blast
qed

lemma record_all_counted:
  assumes "counted ds r" and "int (length ds + length cs) < 2 ^ 63" and "list_all (\<lambda>c. noNUL (callLabels c)) cs"
  shows "\<exists>r'. record_all cs r = Inr r' \<and> counted (ds @ cs) r'"
  using assms
proof (induction cs arbitrary: ds r)
  case (Cons c cs)
  then obtain r1 where "record_call c r = Inr r1" "counted (ds @ [c]) r1"
    using counted_step [of ds r c] by auto
  with Cons.IH [of "ds @ [c]" r1] Cons.prems show ?case by auto
qed simp

text \<open>
  C38: The metrics count what happened: after any run of Recorder calls (labels without NUL bytes,
  fewer calls than an int64 counts) no call has panicked, every counter series holds the number of
  the calls it stands for, and the latency series holds the number of observations, with each
  bucket the number of those within its bound. Calls with different labels never share a series.
\<close>

theorem metrics_count_calls:
  assumes "list_all (\<lambda>c. noNUL (callLabels c)) cs" and "int (length cs) < 2 ^ 63" and "noNUL vs"
  shows "\<exists>r. record_all cs newRecorder = Inr r \<and>
    valueAt (encodeLabelValues vs) (c_values (counterOf m r)) =
      int (length (filter (\<lambda>c. callMetric c = m \<and> callLabels c = vs) cs)) \<and>
    hs_count (seriesAt (rc_sendLatency r) (encodeLabelValues vs)) = int (length (latencies vs cs)) \<and>
    bucketCounts (seriesAt (rc_sendLatency r) (encodeLabelValues vs)) =
      map (\<lambda>ub. int (length (filter (\<lambda>l. l \<le> ub) (latencies vs cs)))) LatencyBuckets"
proof -
  obtain r where "record_all cs newRecorder = Inr r" "counted cs r"
    using record_all_counted [OF counted_new, of cs] assms(1,2) by auto
  with assms(3) show ?thesis by (auto simp: counted_def Let_def)
qed

theorem metrics_count_calls_witness:
  "\<exists>r. record_all [Submitted ''/a'', Submitted ''/b'', Submitted ''/a''] newRecorder = Inr r \<and>
    valueAt (encodeLabelValues [''/a'']) (c_values (counterOf MSubmitted r)) = 2"
  using metrics_count_calls [of "[Submitted ''/a'', Submitted ''/b'', Submitted ''/a'']" "[''/a'']" MSubmitted]
  by (auto simp: noNUL_def)

subsection \<open>The scrape\<close>

lemma NewRecorder_empty: "NewRecorder [] = Inr (newRecorder, collectors newRecorder)"
proof -
  have "list_ex (\<lambda>(a, b). b \<le> a) (zip LatencyBuckets (tl LatencyBuckets)) = False"
    by code_simp
  then have "NewHistogram (h_name latencyHistogram) (h_help latencyHistogram) LatencyBuckets (h_labelNames latencyHistogram)
      = Inr latencyHistogram"
    by (simp add: NewHistogram_def latencyHistogram_def)
  moreover have "newRecorder\<lparr>rc_sendLatency := latencyHistogram\<rparr> = newRecorder" by (simp add: newRecorder_def)
  moreover have "registry_RegisterAll (collectors newRecorder) [] = Inr (collectors newRecorder)"
    by (simp add: collectors_def newRecorder_def NewCounter_def latencyHistogram_def registry_Register_def)
  ultimately show ?thesis by (simp add: NewRecorder_def)
qed

lemma concatAll_Some: "(\<exists>s. concatAll xs = Some s) \<longleftrightarrow> None \<notin> set xs"
  by (induction xs) (auto split: option.splits)

text \<open>A key that a series of so many labels can be rendered from.\<close>

definition keyOk :: "string list \<Rightarrow> string \<Rightarrow> bool" where
  "keyOk names k \<longleftrightarrow> length (decodeLabelValues k) = length names"

lemma decode_encode: "noNUL vs \<Longrightarrow> encodeLabelValues vs \<noteq> [] \<Longrightarrow> decodeLabelValues (encodeLabelValues vs) = vs"
  by (simp add: decodeLabelValues_def encodeLabelValues_def noNUL_def list_all_iff splitOn_join)

lemma renderLabels_Some: "keyOk names k \<Longrightarrow> renderLabels names k \<noteq> None"
  by (simp add: keyOk_def renderLabels_def renderLabelsWithValues_def)

lemma counter_Emit_Some:
  "list_all (keyOk (c_labelNames c)) (map fst (c_values c)) \<Longrightarrow> counter_Emit c \<noteq> None"
  using renderLabels_Some by (fastforce simp: counter_Emit_def concatAll_Some list_all_iff)

lemma histogram_Emit_Some:
  assumes "list_all (keyOk (h_labelNames h)) (map fst (h_series h))"
  shows "histogram_Emit f h \<noteq> None"
proof -
  have "histogram_series_Emit f h k \<noteq> None" if "keyOk (h_labelNames h) k" for k
    using that renderLabels_Some [OF that]
    by (auto simp: histogram_series_Emit_def Let_def concatAll_Some renderLabelsWithExtra_def keyOk_def)
  with assms show ?thesis by (fastforce simp: histogram_Emit_def concatAll_Some list_all_iff)
qed

definition renderable :: "recorder \<Rightarrow> bool" where
  "renderable r \<longleftrightarrow>
     (\<forall>m. c_labelNames (counterOf m r) = c_labelNames (counterOf m newRecorder) \<and>
          list_all (keyOk (c_labelNames (counterOf m r))) (map fst (c_values (counterOf m r)))) \<and>
     h_labelNames (rc_sendLatency r) = h_labelNames latencyHistogram \<and>
     list_all (keyOk (h_labelNames (rc_sendLatency r))) (map fst (h_series (rc_sendLatency r)))"

lemma keyOk_mapSet: "list_all P (map fst m) \<Longrightarrow> P k \<Longrightarrow> list_all P (map fst (mapSet k v m))"
  using fst_mapSet [of k v m] by (simp add: list_all_iff)

lemma renderableD:
  assumes "renderable r"
  shows "c_labelNames (counterOf m r) = c_labelNames (counterOf m newRecorder)"
    and "list_all (keyOk (c_labelNames (counterOf m newRecorder))) (map fst (c_values (counterOf m r)))"
    and "h_labelNames (rc_sendLatency r) = h_labelNames latencyHistogram"
    and "list_all (keyOk (h_labelNames latencyHistogram)) (map fst (h_series (rc_sendLatency r)))"
  using assms unfolding renderable_def by metis+

lemma renderable_step:
  assumes "renderable r" and "noNUL (callLabels c)" and "encodeLabelValues (callLabels c) \<noteq> []"
  shows "\<exists>r'. record_call c r = Inr r' \<and> renderable r'"
proof -
  obtain r' where r': "record_call c r = Inr r'"
    "\<And>m. counterOf m r' = (if m = callMetric c then bump (callLabels c) (counterOf m r) else counterOf m r)"
    "rc_sendLatency r' = observed c (rc_sendLatency r)"
    using record_call_result [of r c] assms(1) unfolding renderable_def by blast
  have key: "keyOk (c_labelNames (counterOf (callMetric c) r)) (encodeLabelValues (callLabels c))"
    using assms newRecorder_labels [of c] by (simp add: keyOk_def decode_encode renderable_def)
  have "renderable r'"
  proof -
    have "c_labelNames (counterOf m r') = c_labelNames (counterOf m newRecorder) \<and>
        list_all (keyOk (c_labelNames (counterOf m r'))) (map fst (c_values (counterOf m r')))" for m
    proof (cases "m = callMetric c")
      case True
      have "list_all (keyOk (c_labelNames (counterOf m r))) (map fst (c_values (counterOf m r)))"
        using renderableD(1,2) [OF assms(1), of m] by simp
      with key True have "list_all (keyOk (c_labelNames (counterOf m r)))
          (map fst (mapSet (encodeLabelValues (callLabels c)) v (c_values (counterOf m r))))" for v
        by (intro keyOk_mapSet) simp_all
      with True assms(1) show ?thesis by (simp add: r'(2) bump_def) (simp add: renderable_def)
    next
      case False
      with renderableD(1,2) [OF assms(1), of m] show ?thesis by (simp add: r'(2))
    qed
    moreover have "h_labelNames (observed c h) = h_labelNames h" for h by (cases c) (simp_all add: Let_def)
    moreover have "list_all (keyOk (h_labelNames (rc_sendLatency r))) (map fst (h_series (observed c (rc_sendLatency r))))"
    proof (cases c)
      case (Sent e t l)
      with assms have "keyOk (h_labelNames (rc_sendLatency r)) (encodeLabelValues [e, t])"
        by (simp add: keyOk_def decode_encode renderable_def latencyHistogram_def)
      with Sent renderableD(3,4) [OF assms(1)] show ?thesis by (simp add: Let_def keyOk_mapSet)
    qed (use renderableD(3,4) [OF assms(1)] in simp_all)
    ultimately show ?thesis using renderableD(3) [OF assms(1)] unfolding renderable_def r'(3) by metis
  qed
  with r'(1) show ?thesis by blast
qed

lemma renderable_all:
  assumes "renderable r" and "list_all (\<lambda>c. noNUL (callLabels c) \<and> encodeLabelValues (callLabels c) \<noteq> []) cs"
  shows "\<exists>r'. record_all cs r = Inr r' \<and> renderable r'"
  using assms
proof (induction cs arbitrary: r)
  case (Cons c cs)
  then obtain r1 where "record_call c r = Inr r1" "renderable r1" using renderable_step [of r c] by auto
  with Cons show ?case by auto
qed simp

text \<open>
  A scrape of /metrics never panics, whatever has been recorded, as long as no endpoint is the
  empty string and labels hold no NUL byte: every collector of the Recorder renders.
\<close>

lemma recorder_renders:
  assumes "list_all (\<lambda>c. noNUL (callLabels c) \<and> encodeLabelValues (callLabels c) \<noteq> []) cs"
  shows "\<exists>r page. record_all cs newRecorder = Inr r \<and> registry_Emit f (collectors r) = Some page"
proof -
  have "renderable newRecorder" by (simp add: renderable_def)
  then obtain r where r: "record_all cs newRecorder = Inr r" "renderable r"
    using renderable_all assms by blast
  have "counter_Emit (counterOf m r) \<noteq> None" for m
    using renderableD(1,2) [OF r(2), of m] by (intro counter_Emit_Some) simp
  note this [of MSubmitted] this [of MSent] this [of MFailed] this [of MRateLimited] this [of MAuthFailed] this [of MSpam]
    this [of MValidation] this [of MReplay]
  moreover have "histogram_Emit f (rc_sendLatency r) \<noteq> None"
    using renderableD(3,4) [OF r(2)] by (intro histogram_Emit_Some) simp
  ultimately have "\<forall>c \<in> set (collectors r). collector_Emit f c \<noteq> None" by (simp add: collectors_def)
  then have "registry_Emit f (collectors r) \<noteq> None"
    by (force simp: registry_Emit_def concatAll_Some)
  with r(1) show ?thesis by auto
qed

text \<open>An empty single label would: its key decodes to no labels at all.\<close>

lemma empty_label_panics:
  "map_option counter_Emit (case counter_Inc [[]] (rc_submitted newRecorder) of Inl _ \<Rightarrow> None | Inr c \<Rightarrow> Some c) = Some None"
  by (simp add: newRecorder_def NewCounter_def counter_Inc_def counter_Add_def Let_def encodeLabelValues_def
        counter_Emit_def renderLabels_def decodeLabelValues_def renderLabelsWithValues_def)

end
