(* ===== verification/GatewayForm.thy ===== *)
theory GatewayForm
  imports Transport Std Http Recorder
begin

text \<open>
  core/gateway/handler.go, the parts below the request pipeline: the retry policy, the JSON body
  as form values, the content types, the API key check, what is logged of a failed form, and the
  recording response writer with the replay of what it recorded.
\<close>

subsection \<open>Events\<close>

text \<open>
  What a request leaves behind besides its response, in order: log lines (with the attributes
  that carry request data; the latency and the fixed attributes are left out), metric calls, and
  the calls of the transport.
\<close>

datatype gw_event =
    LogAuthFailed
  | LogReplay string int
  | LogConflict string
  | LogHoneypot
  | LogOrigin string                  \<comment> \<open>the reason\<close>
  | LogRateLimited "string option"    \<comment> \<open>the client address, when it is logged\<close>
  | LogBodyTooLarge int
  | LogCSRF string
  | LogValidation "string list"
  | LogReceived
  | LogRenderFailed
  | LogDryRun
  | LogRetryScheduled string int duration
  | LogRetrySucceeded
  | LogRetryFailed string
  | LogFailedForm string values_map
  | LogFailedNames string "string list"
  | LogSent string                    \<comment> \<open>the provider's message id\<close>
  | Sending message
  | Metric recorder_call

subsection \<open>Sending with a retry\<close>

definition transientRetryDelay :: duration where "transientRetryDelay = 1 * second"
definition rateLimitedRetryDelay :: duration where "rateLimitedRetryDelay = 5 * second"
definition requestTimeout :: duration where "requestTimeout = 10 * second"

fun retryDelay :: "error_class \<Rightarrow> duration option" where
  "retryDelay ErrTransient = Some transientRetryDelay"
| "retryDelay ErrRateLimited = Some rateLimitedRetryDelay"
| "retryDelay _ = None"

text \<open>
  \<open>send n\<close> is the n-th call of the transport's Send in this request; \<open>ctxDone d\<close> says whether the
  request's context (the client's, bounded by the request timeout) ends before a wait of d does.
\<close>

definition sendWithRetry ::
  "(nat \<Rightarrow> message \<Rightarrow> send_outcome) \<Rightarrow> (duration \<Rightarrow> bool) \<Rightarrow> message \<Rightarrow> send_outcome \<times> gw_event list" where
  "sendWithRetry send ctxDone msg =
     (case send 0 msg of
        Inr result \<Rightarrow> (Inr result, [Sending msg])
      | Inl err \<Rightarrow>
          (case asTransportError err of
             None \<Rightarrow> (Inl err, [Sending msg])
           | Some te \<Rightarrow>
               (case retryDelay (te_class te) of
                  None \<Rightarrow> (Inl err, [Sending msg])
                | Some delay \<Rightarrow>
                    (let scheduled = [Sending msg, LogRetryScheduled (class_String (te_class te)) (te_status te) delay] in
                     if ctxDone delay then (Inl err, scheduled)
                     else
                       (case send 1 msg of
                          Inr retryResult \<Rightarrow> (Inr retryResult, scheduled @ [Sending msg, LogRetrySucceeded])
                        | Inl retryErr \<Rightarrow>
                            (Inl retryErr, scheduled @ [Sending msg, LogRetryFailed (errorText retryErr)]))))))"

definition errorClassName :: "goerror \<Rightarrow> string" where
  "errorClassName err =
     (case asTransportError err of None \<Rightarrow> ''unknown'' | Some te \<Rightarrow> class_String (te_class te))"

subsection \<open>Forms in the logs\<close>

text \<open>None is the nil map or slice of an empty form.\<close>

definition redactedForm :: "values_map \<Rightarrow> string \<Rightarrow> values_map option" where
  "redactedForm form honeypot =
     (if form = [] then None
      else Some (map (\<lambda>(k, v). if k = honeypot \<and> honeypot \<noteq> [] then (k, [''<redacted>'']) else (k, v)) form))"

definition formFieldNames :: "values_map \<Rightarrow> string list option" where
  "formFieldNames form = (if form = [] then None else Some (map fst form))"

subsection \<open>Content types and API keys\<close>

definition mediaOf :: "gostd \<Rightarrow> string \<Rightarrow> string" where
  "mediaOf g ct =
     trimSpace (ToLower g (case indexByte ct CHR '';'' of None \<Rightarrow> ct | Some i \<Rightarrow> take i ct))"

definition isFormContentType :: "gostd \<Rightarrow> string \<Rightarrow> bool" where
  "isFormContentType g ct =
     (let media = mediaOf g ct in
      media = ''application/x-www-form-urlencoded'' \<or> media = ''multipart/form-data'')"

definition isJSONContentType :: "gostd \<Rightarrow> string \<Rightarrow> bool" where
  "isJSONContentType g ct = (mediaOf g ct = ''application/json'')"

text \<open>The key loop never ends early: the last match wins.\<close>

fun matchKeys :: "string \<Rightarrow> string list \<Rightarrow> string \<Rightarrow> string" where
  "matchKeys token [] matched = matched"
| "matchKeys token (k # ks) matched = matchKeys token ks (if token = k then k else matched)"

definition authenticateAPIRequest :: "string list \<Rightarrow> http_request \<Rightarrow> string option" where
  "authenticateAPIRequest apiKeys r =
     (let authHeader = headerGet (r_header r) ''Authorization''; prefix = ''Bearer '' in
      if authHeader = [] then None
      else if length authHeader \<le> length prefix \<or> \<not> equalFold (take (length prefix) authHeader) prefix then None
      else
        (let token = drop (length prefix) authHeader in
         if token = [] then None
         else (let matched = matchKeys token apiKeys [] in if matched = [] then None else Some matched)))"

subsection \<open>JSON bodies as form values\<close>

text \<open>What json.Decode leaves in a map[string]any: a number is a float64.\<close>

datatype jsonval = JNull | JStr string | JBool bool | JNum rat | JArr "jsonval list" | JObj

text \<open>\<open>formatFloat\<close> is strconv.FormatFloat with the shortest f form; \<open>quote\<close> the verb q.\<close>

record go_print =
  formatFloat :: "rat \<Rightarrow> string"
  quote :: "string \<Rightarrow> string"

definition formatBool :: "bool \<Rightarrow> string" where
  "formatBool b = (if b then ''true'' else ''false'')"

definition formatJSONNumber :: "go_print \<Rightarrow> rat \<Rightarrow> string" where
  "formatJSONNumber p f = formatFloat p f"

fun coerceJSONArray :: "go_print \<Rightarrow> string \<Rightarrow> nat \<Rightarrow> jsonval list \<Rightarrow> string + string list" where
  "coerceJSONArray p field i [] = Inr []"
| "coerceJSONArray p field i (v # vs) =
     (case (case v of
              JNull \<Rightarrow> Some []
            | JStr s \<Rightarrow> Some s
            | JBool b \<Rightarrow> Some (formatBool b)
            | JNum n \<Rightarrow> Some (formatJSONNumber p n)
            | _ \<Rightarrow> None) of
        None \<Rightarrow> Inl (''field '' @ quote p field @ ''['' @ showNat i
                     @ '']: nested arrays and objects are not supported in v1.1'')
      | Some s \<Rightarrow> map_sum id (Cons s) (coerceJSONArray p field (Suc i) vs))"

text \<open>The map in the order in which the range visits it.\<close>

fun coerceJSONObject :: "go_print \<Rightarrow> (string \<times> jsonval) list \<Rightarrow> string + values_map" where
  "coerceJSONObject p [] = Inr []"
| "coerceJSONObject p ((k, v) # raw) =
     (case v of
        JNull \<Rightarrow> coerceJSONObject p raw
      | JStr s \<Rightarrow> map_sum id (Cons (k, [s])) (coerceJSONObject p raw)
      | JBool b \<Rightarrow> map_sum id (Cons (k, [formatBool b])) (coerceJSONObject p raw)
      | JNum n \<Rightarrow> map_sum id (Cons (k, [formatJSONNumber p n])) (coerceJSONObject p raw)
      | JArr vs \<Rightarrow>
          (case coerceJSONArray p k 0 vs of
             Inl e \<Rightarrow> Inl e
           | Inr strs \<Rightarrow> map_sum id (Cons (k, strs)) (coerceJSONObject p raw))
      | JObj \<Rightarrow> Inl (''nested objects are not supported in v1.1 (field '' @ quote p k @ '' is an object)''))"

text \<open>Reading a request body fails on the size cap or for another reason.\<close>

datatype body_error = TooLarge | BadBody string

text \<open>\<open>decoded\<close> is what Decode did with the body: the map, and whether more content follows.\<close>

definition parseJSONBody ::
  "go_print \<Rightarrow> body_error + (string \<times> jsonval) list \<times> bool \<Rightarrow> body_error + values_map" where
  "parseJSONBody p decoded =
     (case decoded of
        Inl e \<Rightarrow> Inl e
      | Inr (raw, trailing) \<Rightarrow>
          if trailing then Inl (BadBody ''unexpected trailing content after top-level JSON object'')
          else map_sum BadBody id (coerceJSONObject p raw))"

subsection \<open>Recording a response\<close>

record recording =
  rw_status :: int
  rw_contentType :: string
  rw_body :: bytes
  rw_written :: bool
  rw_under :: writer

definition newRecording :: "writer \<Rightarrow> recording" where
  "newRecording w = \<lparr>rw_status = 0, rw_contentType = [], rw_body = [], rw_written = False, rw_under = w\<rparr>"

definition headerOr :: "string \<Rightarrow> (string \<times> string) list \<Rightarrow> string" where
  "headerOr k h = (case map_of h k of None \<Rightarrow> [] | Some v \<Rightarrow> v)"

definition rw_WriteHeader :: "int \<Rightarrow> recording \<Rightarrow> recording" where
  "rw_WriteHeader code r =
     (if rw_written r then r
      else r\<lparr>rw_written := True, rw_status := code,
             rw_contentType := headerOr ''Content-Type'' (w_headers (rw_under r)),
             rw_under := w_step (WriteHeader code) (rw_under r)\<rparr>)"

definition rw_Write :: "bytes \<Rightarrow> recording \<Rightarrow> recording" where
  "rw_Write b r =
     (let r1 = (if \<not> rw_written r then rw_WriteHeader 200 r else r)
      in r1\<lparr>rw_body := rw_body r1 @ b, rw_under := w_step (Write b) (rw_under r1)\<rparr>)"

fun rw_step :: "wop \<Rightarrow> recording \<Rightarrow> recording" where
  "rw_step (SetHeader k v) r = r\<lparr>rw_under := w_step (SetHeader k v) (rw_under r)\<rparr>"
| "rw_step (WriteHeader code) r = rw_WriteHeader code r"
| "rw_step (Write b) r = rw_Write b r"

definition rw_run :: "wop list \<Rightarrow> recording \<Rightarrow> recording" where
  "rw_run ops r = fold rw_step ops r"

end
