(* ===== verification/Json.thy ===== *)
theory Json
  imports GoNum
begin

text \<open>
  encoding/json as the program uses it for output: the values it marshals and the text Marshal
  writes, with Go's string escaping (HTML-sensitive characters included). The lemmas show that
  an encoded string token ends where it should, whatever the string holds, and that a reader of
  the text gets the encoded value back (\<open>jsonDecode_jsonEncode\<close>).
\<close>

datatype json =
    JString string
  | JArray "json list"
  | JObject "(string \<times> json) list"

subsection \<open>UTF-8\<close>

definition cont :: "char \<Rightarrow> bool" where
  "cont c = (let n = of_char c :: nat in 128 \<le> n \<and> n \<le> 191)"

definition between :: "nat \<Rightarrow> char \<Rightarrow> nat \<Rightarrow> bool" where
  "between lo c hi = (let n = of_char c in lo \<le> n \<and> n \<le> hi)"

text \<open>The length of the valid UTF-8 sequence at the head of a string, 0 if there is none.\<close>

fun utf8Len :: "string \<Rightarrow> nat" where
  "utf8Len [] = 0"
| "utf8Len (a # r) =
     (if between 0 a 127 then 1
      else if between 194 a 223 then (case r of b # _ \<Rightarrow> if cont b then 2 else 0 | _ \<Rightarrow> 0)
      else if between 224 a 239 then
        (case r of
           b # c # _ \<Rightarrow>
             if (if between 224 a 224 then between 160 b 191
                 else if between 237 a 237 then between 128 b 159 else cont b) \<and> cont c then 3 else 0
         | _ \<Rightarrow> 0)
      else if between 240 a 244 then
        (case r of
           b # c # d # _ \<Rightarrow>
             if (if between 240 a 240 then between 144 b 191
                 else if between 244 a 244 then between 128 b 143 else cont b) \<and> cont c \<and> cont d then 4 else 0
         | _ \<Rightarrow> 0)
      else 0)"

subsection \<open>Encoding\<close>

definition hex4 :: "nat \<Rightarrow> string" where
  "hex4 n = CHR 0x5C # CHR ''u'' # CHR ''0'' # CHR ''0'' # [hexDigits ! (n div 16), hexDigits ! (n mod 16)]"

definition escapeByte :: "char \<Rightarrow> string" where
  "escapeByte c =
     (if c = CHR 0x22 \<or> c = CHR 0x5C then [CHR 0x5C, c]
      else if c = CHR 0x08 then [CHR 0x5C, CHR ''b'']
      else if c = CHR 0x0C then [CHR 0x5C, CHR ''f'']
      else if c = CHR 0x0A then [CHR 0x5C, CHR ''n'']
      else if c = CHR 0x0D then [CHR 0x5C, CHR ''r'']
      else if c = CHR 0x09 then [CHR 0x5C, CHR ''t'']
      else if of_char c < (32::nat) \<or> c \<in> {CHR ''<'', CHR ''>'', CHR ''&''} then hex4 (of_char c)
      else [c])"

function jsonChars :: "string \<Rightarrow> string" where
  "jsonChars [] = []"
| "jsonChars (c # cs) =
     (if of_char c < (128::nat) then escapeByte c @ jsonChars cs
      else (let n = utf8Len (c # cs) in
            if n = 0 then CHR 0x5C # ''ufffd'' @ jsonChars cs
            else if take n (c # cs) = [CHR 0xE2, CHR 0x80, CHR 0xA8] then
              CHR 0x5C # ''u2028'' @ jsonChars (drop n (c # cs))
            else if take n (c # cs) = [CHR 0xE2, CHR 0x80, CHR 0xA9] then
              CHR 0x5C # ''u2029'' @ jsonChars (drop n (c # cs))
            else take n (c # cs) @ jsonChars (drop n (c # cs))))"
  by pat_completeness auto
termination by (relation "measure length") auto

definition jsonQuote :: "string \<Rightarrow> string" where
  "jsonQuote s = CHR 0x22 # jsonChars s @ [CHR 0x22]"

text \<open>
  Marshal, on structs and maps of strings, lists and nested structs, the only values the program
  marshals. Struct fields come in declaration order; a map's keys come sorted.
\<close>

fun jsonEncode :: "json \<Rightarrow> string" where
  "jsonEncode (JString s) = jsonQuote s"
| "jsonEncode (JArray xs) = ''['' @ join '','' (map jsonEncode xs) @ '']''"
| "jsonEncode (JObject fs) = ''{'' @ join '','' (map (\<lambda>(k, v). jsonQuote k @ '':'' @ jsonEncode v) fs) @ ''}''"

definition jsonMap :: "(string \<times> string) list \<Rightarrow> json" where
  "jsonMap m = JObject (map (\<lambda>(k, v). (k, JString v)) (sort_key fst m))"

subsection \<open>Where a string token ends\<close>

text \<open>Split at the first quote that no backslash escapes.\<close>

fun stringEnd :: "string \<Rightarrow> (string \<times> string) option" where
  "stringEnd [] = None"
| "stringEnd (c # r) =
     (if c = CHR 0x22 then Some ([], r)
      else if c = CHR 0x5C then
        (case r of [] \<Rightarrow> None | d # r' \<Rightarrow> map_option (\<lambda>(a, b). (c # d # a, b)) (stringEnd r'))
      else map_option (\<lambda>(a, b). (c # a, b)) (stringEnd r))"

lemma stringEnd_plain:
  "CHR 0x22 \<notin> set p \<Longrightarrow> CHR 0x5C \<notin> set p \<Longrightarrow>
   stringEnd (p @ s) = map_option (\<lambda>(a, b). (p @ a, b)) (stringEnd s)"
  by (induction p) (auto simp: option.map_comp comp_def case_prod_unfold option.map_ident_strong)

lemma stringEnd_escaped:
  "stringEnd (CHR 0x5C # d # s) = map_option (\<lambda>(a, b). (CHR 0x5C # d # a, b)) (stringEnd s)"
  by simp

lemma hexDigit_plain: "k < 16 \<Longrightarrow> hexDigits ! k \<noteq> CHR 0x22 \<and> hexDigits ! k \<noteq> CHR 0x5C"
  by (simp add: hexDigits_def less_Suc_eq numeral_eq_Suc) auto

lemma stringEnd_escapeByte:
  "stringEnd (escapeByte c @ s) = map_option (\<lambda>(a, b). (escapeByte c @ a, b)) (stringEnd s)"
proof (cases "of_char c < (32::nat) \<or> c \<in> {CHR ''<'', CHR ''>'', CHR ''&''}")
  case True
  have "stringEnd ([CHR ''0'', CHR ''0'', hexDigits ! (of_char c div 16), hexDigits ! (of_char c mod 16)] @ s) =
      map_option (\<lambda>(a, b). ([CHR ''0'', CHR ''0'', hexDigits ! (of_char c div 16),
        hexDigits ! (of_char c mod 16)] @ a, b)) (stringEnd s)"
    using hexDigit_plain [of "of_char c div 16"] hexDigit_plain [of "of_char c mod 16"]
    by (intro stringEnd_plain) auto
  with True show ?thesis
    by (auto simp: escapeByte_def hex4_def option.map_comp comp_def case_prod_unfold simp del: stringEnd.simps
        simp: stringEnd_escaped)
next
  case False
  then show ?thesis by (auto simp: escapeByte_def option.map_comp comp_def case_prod_unfold)
qed

lemma utf8_high:
  assumes "128 \<le> (of_char c :: nat)"
  shows "x \<in> set (take (utf8Len (c # cs)) (c # cs)) \<Longrightarrow> 128 \<le> (of_char x :: nat)"
  using assms
  by (auto simp: between_def cont_def Let_def split: if_splits list.splits)

declare utf8Len.simps(2) [simp del]

lemma stringEnd_jsonChars:
  "stringEnd (jsonChars s @ CHR 0x22 # r) = Some (jsonChars s, r)"
proof (induction s rule: jsonChars.induct)
  case 1
  then show ?case by simp
next
  case (2 c cs)
  let ?n = "utf8Len (c # cs)"
  show ?case
  proof (cases "of_char c < (128::nat)")
    case True
    with 2 show ?thesis by (simp add: stringEnd_escapeByte del: stringEnd.simps)
  next
    case False
    then have plain: "CHR 0x22 \<notin> set (take ?n (c # cs))" "CHR 0x5C \<notin> set (take ?n (c # cs))"
      using utf8_high [of c _ cs] by fastforce+
    show ?thesis
    proof (cases "?n = 0")
      case True
      with False 2 show ?thesis by (simp add: Let_def)
    next
      case n: False
      with False 2 have IH: "stringEnd (jsonChars (drop ?n (c # cs)) @ CHR 0x22 # r) =
          Some (jsonChars (drop ?n (c # cs)), r)" by (simp add: Let_def) blast
      with False n plain show ?thesis by (auto simp: Let_def stringEnd_plain)
    qed
  qed
qed

subsection \<open>Reading it back\<close>

text \<open>
  A reader of JSON text, as a specification: what a receiver takes from the bytes. Strings are
  read with all escapes of RFC 8259 (a \<open>u\<close> escape outside the basic plane is not needed).
\<close>

fun simpleEscape :: "char \<Rightarrow> char option" where
  "simpleEscape d =
     (if d = CHR 0x22 \<or> d = CHR 0x5C \<or> d = CHR ''/'' then Some d
      else if d = CHR ''b'' then Some (CHR 0x08)
      else if d = CHR ''f'' then Some (CHR 0x0C)
      else if d = CHR ''n'' then Some (CHR 0x0A)
      else if d = CHR ''r'' then Some (CHR 0x0D)
      else if d = CHR ''t'' then Some (CHR 0x09)
      else None)"

definition utf8Enc :: "nat \<Rightarrow> string" where
  "utf8Enc n =
     (if n < 128 then [char_of n]
      else if n < 2048 then [char_of (192 + n div 64), char_of (128 + n mod 64)]
      else [char_of (224 + n div 4096), char_of (128 + n div 64 mod 64), char_of (128 + n mod 64)])"

definition hexNat :: "char \<Rightarrow> char \<Rightarrow> char \<Rightarrow> char \<Rightarrow> nat option" where
  "hexNat a b c d =
     (case (hexVal a, hexVal b, hexVal c, hexVal d) of
        (Some p, Some q, Some r, Some s) \<Rightarrow> Some (4096 * p + 256 * q + 16 * r + s)
      | _ \<Rightarrow> None)"

abbreviation push :: "string \<Rightarrow> (string \<times> string) option \<Rightarrow> (string \<times> string) option" where
  "push p x \<equiv> map_option (\<lambda>(a, b). (p @ a, b)) x"

fun unquote :: "string \<Rightarrow> (string \<times> string) option" where
  "unquote [] = None"
| "unquote (c # r) =
     (if c = CHR 0x22 then Some ([], r)
      else if of_char c < (32::nat) then None
      else if c \<noteq> CHR 0x5C then push [c] (unquote r)
      else
        (case r of
           [] \<Rightarrow> None
         | d # r1 \<Rightarrow>
             if d \<noteq> CHR ''u'' then
               (case simpleEscape d of None \<Rightarrow> None | Some x \<Rightarrow> push [x] (unquote r1))
             else
               (case r1 of
                  h1 # h2 # h3 # h4 # r2 \<Rightarrow>
                    (case hexNat h1 h2 h3 h4 of None \<Rightarrow> None | Some n \<Rightarrow> push (utf8Enc n) (unquote r2))
                | _ \<Rightarrow> None)))"

fun readVal :: "nat \<Rightarrow> string \<Rightarrow> (json \<times> string) option"
  and readElems :: "nat \<Rightarrow> string \<Rightarrow> (json list \<times> string) option"
  and readFields :: "nat \<Rightarrow> string \<Rightarrow> ((string \<times> json) list \<times> string) option" where
  "readVal 0 s = None"
| "readVal (Suc n) s =
     (case s of
        [] \<Rightarrow> None
      | c # r \<Rightarrow>
          if c = CHR 0x22 then map_option (\<lambda>(a, b). (JString a, b)) (unquote r)
          else if c = CHR ''['' then
            (case r of
               [] \<Rightarrow> None
             | d # r1 \<Rightarrow> if d = CHR '']'' then Some (JArray [], r1)
                         else map_option (\<lambda>(a, b). (JArray a, b)) (readElems n r))
          else if c = CHR ''{'' then
            (case r of
               [] \<Rightarrow> None
             | d # r1 \<Rightarrow> if d = CHR ''}'' then Some (JObject [], r1)
                         else map_option (\<lambda>(a, b). (JObject a, b)) (readFields n r))
          else None)"
| "readElems 0 s = None"
| "readElems (Suc n) s =
     (case readVal n s of
        None \<Rightarrow> None
      | Some (v, []) \<Rightarrow> None
      | Some (v, d # r) \<Rightarrow>
          if d = CHR '']'' then Some ([v], r)
          else if d = CHR '','' then map_option (\<lambda>(a, b). (v # a, b)) (readElems n r)
          else None)"
| "readFields 0 s = None"
| "readFields (Suc n) s =
     (case s of
        [] \<Rightarrow> None
      | q # r \<Rightarrow>
          if q \<noteq> CHR 0x22 then None
          else
            (case unquote r of
               None \<Rightarrow> None
             | Some (k, []) \<Rightarrow> None
             | Some (k, c # r1) \<Rightarrow>
                 if c \<noteq> CHR '':'' then None
                 else
                   (case readVal n r1 of
                      None \<Rightarrow> None
                    | Some (v, []) \<Rightarrow> None
                    | Some (v, d # r2) \<Rightarrow>
                        if d = CHR ''}'' then Some ([(k, v)], r2)
                        else if d = CHR '','' then map_option (\<lambda>(a, b). ((k, v) # a, b)) (readFields n r2)
                        else None)))"

definition jsonDecode :: "string \<Rightarrow> json option" where
  "jsonDecode s = (case readVal (length s) s of Some (v, []) \<Rightarrow> Some v | _ \<Rightarrow> None)"

text \<open>What a receiver sees of a string: each invalid byte is the replacement character.\<close>

function validUTF8 :: "string \<Rightarrow> string" where
  "validUTF8 [] = []"
| "validUTF8 (c # cs) =
     (if of_char c < (128::nat) then c # validUTF8 cs
      else (let n = utf8Len (c # cs) in
            if n = 0 then [CHR 0xEF, CHR 0xBF, CHR 0xBD] @ validUTF8 cs
            else take n (c # cs) @ validUTF8 (drop n (c # cs))))"
  by pat_completeness auto
termination by (relation "measure length") auto

fun validJSON :: "json \<Rightarrow> json" where
  "validJSON (JString s) = JString (validUTF8 s)"
| "validJSON (JArray xs) = JArray (map validJSON xs)"
| "validJSON (JObject fs) = JObject (map (\<lambda>(k, v). (validUTF8 k, validJSON v)) fs)"

lemma push_push: "push p (push q x) = push (p @ q) x"
  by (cases x) auto

lemma unquote_hex4:
  assumes "n < 128"
  shows "unquote (hex4 n @ r) = push [char_of n] (unquote r)"
proof -
  have "n div 16 < 16" "n mod 16 < 16" using assms by simp_all
  then have "hexVal (hexDigits ! (n div 16)) = Some (n div 16)" "hexVal (hexDigits ! (n mod 16)) = Some (n mod 16)"
    using hexDigits_props by blast+
  moreover have "hexVal (CHR ''0'') = Some 0" by (simp add: hexVal_def isDigit_def digitVal_def)
  ultimately have "hexNat (CHR ''0'') (CHR ''0'') (hexDigits ! (n div 16)) (hexDigits ! (n mod 16)) = Some n"
    by (simp add: hexNat_def)
  then show ?thesis using assms by (simp add: hex4_def utf8Enc_def)
qed

lemma unquote_escapeByte:
  assumes "of_char c < (128::nat)"
  shows "unquote (escapeByte c @ r) = push [c] (unquote r)"
proof (cases "c \<in> {CHR 0x22, CHR 0x5C, CHR 0x08, CHR 0x0C, CHR 0x0A, CHR 0x0D, CHR 0x09}")
  case True
  then show ?thesis by (auto simp: escapeByte_def)
next
  case False
  then show ?thesis using assms unquote_hex4 [of "of_char c" r]
    by (auto simp: escapeByte_def simp del: unquote.simps) (auto)
qed

lemma unquote_plain:
  "\<forall>x \<in> set p. 128 \<le> (of_char x :: nat) \<Longrightarrow> unquote (p @ s) = push p (unquote s)"
proof (induction p)
  case (Cons a p)
  then have "128 \<le> (of_char a :: nat)" by simp
  then have "a \<noteq> CHR 0x22 \<and> a \<noteq> CHR 0x5C" by auto
  with Cons show ?case by (cases "unquote s") auto
qed (cases "unquote s"; simp)

lemma char_eval:
  "char_of (239::nat) = CHR 0xEF" "char_of (191::nat) = CHR 0xBF" "char_of (189::nat) = CHR 0xBD"
  "char_of (226::nat) = CHR 0xE2" "char_of (128::nat) = CHR 0x80" "char_of (168::nat) = CHR 0xA8"
  "char_of (169::nat) = CHR 0xA9"
  by code_simp+

lemma utf8Enc_eval:
  "utf8Enc 65533 = [CHR 0xEF, CHR 0xBF, CHR 0xBD]"
  "utf8Enc 8232 = [CHR 0xE2, CHR 0x80, CHR 0xA8]"
  "utf8Enc 8233 = [CHR 0xE2, CHR 0x80, CHR 0xA9]"
  by (simp_all add: utf8Enc_def char_eval)

lemma unquote_jsonChars: "unquote (jsonChars s @ CHR 0x22 # r) = Some (validUTF8 s, r)"
proof (induction s rule: jsonChars.induct)
  case 1
  then show ?case by simp
next
  case (2 c cs)
  let ?n = "utf8Len (c # cs)"
  show ?case
  proof (cases "of_char c < (128::nat)")
    case True
    with 2 show ?thesis by (simp add: unquote_escapeByte del: unquote.simps)
  next
    case high: False
    show ?thesis
    proof (cases "?n = 0")
      case True
      have "hexNat (CHR ''f'') (CHR ''f'') (CHR ''f'') (CHR ''d'') = Some 65533"
        by (simp add: hexNat_def hexVal_def)
      with True high 2 show ?thesis by (simp add: Let_def utf8Enc_eval)
    next
      case n: False
      with high 2 have IH: "unquote (jsonChars (drop ?n (c # cs)) @ CHR 0x22 # r) =
          Some (validUTF8 (drop ?n (c # cs)), r)" by (simp add: Let_def) blast
      have plain: "\<forall>x \<in> set (take ?n (c # cs)). 128 \<le> (of_char x :: nat)"
        using utf8_high [of c _ cs] high by force
      have "hexNat (CHR ''2'') (CHR ''0'') (CHR ''2'') (CHR ''8'') = Some 8232"
        "hexNat (CHR ''2'') (CHR ''0'') (CHR ''2'') (CHR ''9'') = Some 8233"
        by (simp_all add: hexNat_def hexVal_def)
      with high n IH show ?thesis
        by (simp add: Let_def unquote_plain [OF plain] utf8Enc_eval)
    qed
  qed
qed

lemma jsonEncode_nonempty: "\<exists>c s. jsonEncode v = c # s \<and> c \<notin> {CHR '']'', CHR ''}''}"
  by (cases v) (auto simp: jsonQuote_def)

lemma readVal_string: "0 < n \<Longrightarrow> readVal n (jsonQuote s @ r) = Some (JString (validUTF8 s), r)"
  by (cases n) (simp_all add: jsonQuote_def unquote_jsonChars)

lemma readElems_encode:
  assumes "\<And>x n r. x \<in> set xs \<Longrightarrow> length (jsonEncode x) \<le> n \<Longrightarrow>
             readVal n (jsonEncode x @ r) = Some (validJSON x, r)"
    and "xs \<noteq> []" and "Suc (length (join '','' (map jsonEncode xs))) \<le> n"
  shows "readElems n (join '','' (map jsonEncode xs) @ CHR '']'' # r) = Some (map validJSON xs, r)"
  using assms
proof (induction xs arbitrary: n)
  case (Cons x xs)
  then obtain k where k: "n = Suc k" by (cases n) auto
  show ?case
  proof (cases xs)
    case Nil
    with Cons.prems k show ?thesis by simp
  next
    case (Cons y ys)
    with Cons.prems k have len: "length (jsonEncode x) \<le> k" "Suc (length (join '','' (map jsonEncode xs))) \<le> k"
      by simp_all
    have "readElems k (join '','' (map jsonEncode xs) @ CHR '']'' # r) = Some (map validJSON xs, r)"
      by (rule Cons.IH) (use Cons.prems(1) Cons len in auto)
    moreover have "readVal k (jsonEncode x @ s) = Some (validJSON x, s)" for s
      using Cons.prems(1) len(1) by simp
    ultimately show ?thesis using k Cons by simp
  qed
qed simp

abbreviation jsonField :: "string \<times> json \<Rightarrow> string" where
  "jsonField f \<equiv> (case f of (k, v) \<Rightarrow> jsonQuote k @ '':'' @ jsonEncode v)"

lemma readFields_encode:
  assumes "\<And>f n r. f \<in> set fs \<Longrightarrow> length (jsonEncode (snd f)) \<le> n \<Longrightarrow>
             readVal n (jsonEncode (snd f) @ r) = Some (validJSON (snd f), r)"
    and "fs \<noteq> []" and "Suc (length (join '','' (map jsonField fs))) \<le> n"
  shows "readFields n (join '','' (map jsonField fs) @ CHR ''}'' # r) =
    Some (map (\<lambda>(k, v). (validUTF8 k, validJSON v)) fs, r)"
  using assms
proof (induction fs arbitrary: n)
  case (Cons f fs)
  then obtain i where i: "n = Suc i" by (cases n) auto
  obtain k v where f: "f = (k, v)" by (cases f)
  show ?case
  proof (cases fs)
    case Nil
    with Cons.prems i f show ?thesis by (simp add: jsonQuote_def unquote_jsonChars)
  next
    case (Cons y ys)
    with Cons.prems i f have len: "length (jsonEncode v) \<le> i" "Suc (length (join '','' (map jsonField fs))) \<le> i"
      by (simp_all add: jsonQuote_def)
    have "readFields i (join '','' (map jsonField fs) @ CHR ''}'' # r) =
        Some (map (\<lambda>(k, v). (validUTF8 k, validJSON v)) fs, r)"
      by (rule Cons.IH) (use Cons.prems(1) Cons len in auto)
    moreover have "readVal i (jsonEncode v @ s) = Some (validJSON v, s)" for s
      using Cons.prems(1) [of f] f len(1) by simp
    ultimately show ?thesis using i f Cons by (simp add: jsonQuote_def unquote_jsonChars)
  qed
qed simp

lemma readVal_encode:
  "length (jsonEncode v) \<le> n \<Longrightarrow> readVal n (jsonEncode v @ r) = Some (validJSON v, r)"
proof (induction v arbitrary: n r)
  case (JString s)
  then show ?case by (cases n) (simp_all add: jsonQuote_def unquote_jsonChars)
next
  case (JArray xs)
  then obtain k where k: "n = Suc k" by (cases n) auto
  show ?case
  proof (cases xs)
    case Nil
    with k show ?thesis by simp
  next
    case (Cons x ys)
    have "readElems k (join '','' (map jsonEncode xs) @ CHR '']'' # r) = Some (map validJSON xs, r)"
      by (rule readElems_encode) (use JArray k Cons in auto)
    moreover obtain c s where "join '','' (map jsonEncode xs) = c # s" "c \<noteq> CHR '']''"
      using jsonEncode_nonempty [of x] Cons by (cases ys) auto
    ultimately show ?thesis using k by simp
  qed
next
  case (JObject fs)
  then obtain k where k: "n = Suc k" by (cases n) auto
  show ?case
  proof (cases fs)
    case Nil
    with k show ?thesis by simp
  next
    case (Cons f gs)
    have IH: "readVal i (jsonEncode (snd g) @ q) = Some (validJSON (snd g), q)"
      if "g \<in> set fs" "length (jsonEncode (snd g)) \<le> i" for g i q
      using JObject.IH [of g "snd g"] that by (cases g) auto
    have "readFields k (join '','' (map jsonField fs) @ CHR ''}'' # r) =
        Some (map (\<lambda>(k, v). (validUTF8 k, validJSON v)) fs, r)"
      by (rule readFields_encode) (use IH JObject.prems k Cons in auto)
    moreover obtain s where "join '','' (map jsonField fs) = CHR 0x22 # s"
      using Cons by (cases f; cases gs) (auto simp: jsonQuote_def)
    ultimately show ?thesis using k by simp
  qed
qed

lemma jsonDecode_jsonEncode: "jsonDecode (jsonEncode v) = Some (validJSON v)"
  using readVal_encode [of v "length (jsonEncode v)" "[]"] by (simp add: jsonDecode_def)

lemma validUTF8_ascii: "list_all (\<lambda>c. of_char c < (128::nat)) s \<Longrightarrow> validUTF8 s = s"
  by (induction s) auto

end
