(* ===== verification/Settings.thy ===== *)
theory Settings
  imports Complex_Main GoNum
begin

text \<open>
  The settings table of a transport: map[string]any as the TOML decoder fills it, with the type
  assertions the transports make on it.
\<close>

datatype tomlval =
    TString string
  | TInt int          \<comment> \<open>int64\<close>
  | TFloat rat        \<comment> \<open>a finite float64\<close>
  | TNonFinite        \<comment> \<open>an infinity or NaN\<close>
  | TBool bool
  | TOther            \<comment> \<open>arrays, tables, dates\<close>

type_synonym settings = "(string \<times> tomlval) list"

text \<open>The value of \<open>settings[k].(string)\<close> when the assertion holds.\<close>

definition asString :: "settings \<Rightarrow> string \<Rightarrow> string option" where
  "asString s k = (case map_of s k of Some (TString v) \<Rightarrow> Some v | _ \<Rightarrow> None)"

definition asBool :: "settings \<Rightarrow> string \<Rightarrow> bool option" where
  "asBool s k = (case map_of s k of Some (TBool v) \<Rightarrow> Some v | _ \<Rightarrow> None)"

text \<open>The comma-ok form discarding ok: the zero value when the assertion fails.\<close>

definition strOr :: "settings \<Rightarrow> string \<Rightarrow> string" where
  "strOr s k = (case asString s k of Some v \<Rightarrow> v | None \<Rightarrow> [])"

definition present :: "settings \<Rightarrow> string \<Rightarrow> bool" where
  "present s k = (case asString s k of Some v \<Rightarrow> v \<noteq> [] | None \<Rightarrow> False)"

text \<open>
  coerceInt. A float is cut off towards zero; outside the int64 range, and for the non-finite
  values, the conversion gives the least int64 (amd64).
\<close>

definition truncInt :: "rat \<Rightarrow> int" where
  "truncInt q = (if 0 \<le> q then \<lfloor>q\<rfloor> else - \<lfloor>- q\<rfloor>)"

fun coerceInt :: "tomlval \<Rightarrow> int option" where
  "coerceInt (TInt n) = Some n"
| "coerceInt (TFloat q) =
     (let n = truncInt q in Some (if - (2 ^ 63) \<le> n \<and> n < 2 ^ 63 then n else - (2 ^ 63)))"
| "coerceInt TNonFinite = Some (- (2 ^ 63))"
| "coerceInt _ = None"

lemma present_strOr: "present s k \<longleftrightarrow> strOr s k \<noteq> []"
  by (simp add: present_def strOr_def split: option.split)

end
