(* ===== verification/HttpTransports.thy ===== *)
theory HttpTransports
  imports Transport Json Settings
begin

text \<open>
  core/transport/postmark.go, resend.go, mailgun.go and ses.go (the request of SES before it is
  signed): the request each builds from a message, the classification of the answer, and the
  settings it takes. The network and the JSON decoder are arguments (\<open>netlib\<close>).
\<close>

subsection \<open>Requests and answers\<close>

datatype out_body = RawBody bytes | MultipartBody "(string \<times> string) list"

record out_request =
  o_method :: string
  o_url :: string
  o_headers :: "(string \<times> string) list"
  o_body :: out_body

datatype http_result = NetError goerror | HttpResponse int bytes

datatype field_kind = KString | KInt

text \<open>
  \<open>newRequestError\<close> is what http.NewRequest says of a URL; \<open>exchange\<close> what the client's Do
  returns; \<open>unmarshal\<close> decodes a body into a struct with the given fields and gives its string
  fields (the empty string for an absent one), None on an error.
\<close>

record netlib =
  newRequestError :: "string \<Rightarrow> goerror option"
  exchange :: "out_request \<Rightarrow> http_result"
  unmarshal :: "(string \<times> field_kind) list \<Rightarrow> bytes \<Rightarrow> (string \<Rightarrow> string) option"

definition responseSizeLimit :: nat where
  "responseSizeLimit = 64 * 1024"

text \<open>
  The part all four Send methods share: build the request, send it, and read the status. \<open>oks\<close>
  are the success statuses, \<open>idOf\<close> the message id in a body, \<open>errMsg\<close> the upstream's message or
  the given fallback.
\<close>

definition sendHTTP ::
  "netlib \<Rightarrow> string \<Rightarrow> int set \<Rightarrow> (bytes \<Rightarrow> string) \<Rightarrow> (bytes \<Rightarrow> string \<Rightarrow> string) \<Rightarrow> out_request \<Rightarrow> send_outcome" where
  "sendHTTP n name oks idOf errMsg req =
     (case newRequestError n (o_url req) of
        Some err \<Rightarrow> Inl (terr ErrTerminal 0 (Some err) (''build '' @ name @ '' request''))
      | None \<Rightarrow>
          (case exchange n req of
             NetError err \<Rightarrow> Inl (terr ErrTransient 0 (Some err) (name @ '' request failed''))
           | HttpResponse status respBody \<Rightarrow>
               (let body = take responseSizeLimit respBody in
                if status \<in> oks then Inr \<lparr>messageID = idOf body\<rparr>
                else if status = 429 then Inl (terr ErrRateLimited status None (errMsg body (name @ '' rate limit'')))
                else if 500 \<le> status then Inl (terr ErrTransient status None (errMsg body (name @ '' server error'')))
                else if 400 \<le> status then Inl (terr ErrTerminal status None (errMsg body (name @ '' rejected request'')))
                else Inl (terr ErrTerminal status None (''unexpected '' @ name @ '' status '' @ formatInt status)))))"

subsection \<open>Postmark\<close>

record postmark =
  pk_APIKey :: string
  pk_BaseURL :: string

definition NewPostmarkTransport :: "string \<Rightarrow> string \<Rightarrow> postmark" where
  "NewPostmarkTransport apiKey baseURL =
     \<lparr>pk_APIKey = apiKey, pk_BaseURL = (if baseURL = [] then ''https://api.postmarkapp.com'' else baseURL)\<rparr>"

definition postmarkPayload :: "message \<Rightarrow> json" where
  "postmarkPayload m =
     JObject ([(''From'', JString (m_from m)), (''To'', JString (join '', '' (m_to m)))]
              @ (if m_replyTo m = [] then [] else [(''ReplyTo'', JString (m_replyTo m))])
              @ [(''Subject'', JString (m_subject m)), (''TextBody'', JString (m_bodyText m))])"

definition postmarkRequest :: "postmark \<Rightarrow> message \<Rightarrow> out_request" where
  "postmarkRequest p m =
     \<lparr>o_method = ''POST'', o_url = pk_BaseURL p @ ''/email'',
      o_headers = [(''Content-Type'', ''application/json''), (''Accept'', ''application/json''),
                   (''X-Postmark-Server-Token'', pk_APIKey p)],
      o_body = RawBody (jsonEncode (postmarkPayload m))\<rparr>"

definition postmarkFields :: "(string \<times> field_kind) list" where
  "postmarkFields = [(''MessageID'', KString), (''ErrorCode'', KInt), (''Message'', KString)]"

definition postmarkMessageID :: "netlib \<Rightarrow> bytes \<Rightarrow> string" where
  "postmarkMessageID n body =
     (case unmarshal n postmarkFields body of None \<Rightarrow> [] | Some resp \<Rightarrow> resp ''MessageID'')"

definition postmarkErrorMessage :: "netlib \<Rightarrow> bytes \<Rightarrow> string \<Rightarrow> string" where
  "postmarkErrorMessage n body fallback =
     (case unmarshal n postmarkFields body of
        None \<Rightarrow> fallback
      | Some resp \<Rightarrow> if resp ''Message'' = [] then fallback else resp ''Message'')"

definition postmarkSend :: "netlib \<Rightarrow> postmark \<Rightarrow> message \<Rightarrow> send_outcome" where
  "postmarkSend n p m =
     sendHTTP n ''postmark'' {200, 202} (postmarkMessageID n) (postmarkErrorMessage n) (postmarkRequest p m)"

definition validatePostmarkSettings :: "settings \<Rightarrow> string option" where
  "validatePostmarkSettings s =
     (if \<not> present s ''api_key'' then Some ''postmark transport requires settings.api_key'' else None)"

definition buildPostmarkFromSettings :: "settings \<Rightarrow> string + postmark" where
  "buildPostmarkFromSettings s =
     (let apiKey = strOr s ''api_key'' in
      if apiKey = [] then Inl ''postmark: api_key is empty''
      else Inr (NewPostmarkTransport apiKey (strOr s ''base_url'')))"

subsection \<open>Resend\<close>

record resend =
  rs_APIKey :: string
  rs_BaseURL :: string

definition NewResendTransport :: "string \<Rightarrow> string \<Rightarrow> resend" where
  "NewResendTransport apiKey baseURL =
     \<lparr>rs_APIKey = apiKey, rs_BaseURL = (if baseURL = [] then ''https://api.resend.com'' else baseURL)\<rparr>"

definition resendPayload :: "message \<Rightarrow> json" where
  "resendPayload m =
     JObject ([(''from'', JString (m_from m)), (''to'', JArray (map JString (m_to m)))]
              @ (if m_replyTo m = [] then [] else [(''reply_to'', JString (m_replyTo m))])
              @ [(''subject'', JString (m_subject m)), (''text'', JString (m_bodyText m))])"

definition resendRequest :: "resend \<Rightarrow> message \<Rightarrow> out_request" where
  "resendRequest r m =
     \<lparr>o_method = ''POST'', o_url = rs_BaseURL r @ ''/emails'',
      o_headers = [(''Content-Type'', ''application/json''), (''Accept'', ''application/json''),
                   (''Authorization'', ''Bearer '' @ rs_APIKey r)],
      o_body = RawBody (jsonEncode (resendPayload m))\<rparr>"

definition resendMessageID :: "netlib \<Rightarrow> bytes \<Rightarrow> string" where
  "resendMessageID n body =
     (case unmarshal n [(''id'', KString)] body of None \<Rightarrow> [] | Some resp \<Rightarrow> resp ''id'')"

definition resendErrorMessage :: "netlib \<Rightarrow> bytes \<Rightarrow> string \<Rightarrow> string" where
  "resendErrorMessage n body fallback =
     (case unmarshal n [(''statusCode'', KInt), (''message'', KString), (''name'', KString)] body of
        None \<Rightarrow> fallback
      | Some resp \<Rightarrow> if resp ''message'' = [] then fallback else resp ''message'')"

definition resendSend :: "netlib \<Rightarrow> resend \<Rightarrow> message \<Rightarrow> send_outcome" where
  "resendSend n r m =
     sendHTTP n ''resend'' {200} (resendMessageID n) (resendErrorMessage n) (resendRequest r m)"

definition validateResendSettings :: "settings \<Rightarrow> string option" where
  "validateResendSettings s =
     (if \<not> present s ''api_key'' then Some ''resend transport requires settings.api_key'' else None)"

definition buildResendFromSettings :: "settings \<Rightarrow> string + resend" where
  "buildResendFromSettings s =
     (let apiKey = strOr s ''api_key'' in
      if apiKey = [] then Inl ''resend: api_key is empty''
      else Inr (NewResendTransport apiKey (strOr s ''base_url'')))"

subsection \<open>Mailgun\<close>

record mailgun =
  mg_APIKey :: string
  mg_Domain :: string
  mg_BaseURL :: string

definition NewMailgunTransport :: "string \<Rightarrow> string \<Rightarrow> string \<Rightarrow> mailgun" where
  "NewMailgunTransport apiKey domain baseURL =
     \<lparr>mg_APIKey = apiKey, mg_Domain = domain,
      mg_BaseURL = (if baseURL = [] then ''https://api.mailgun.net'' else baseURL)\<rparr>"

text \<open>The fields written to the multipart writer, in order; writing to a buffer cannot fail.\<close>

definition mailgunFields :: "message \<Rightarrow> (string \<times> string) list" where
  "mailgunFields m =
     [(''from'', m_from m)] @ map (\<lambda>recipient. (''to'', recipient)) (m_to m)
     @ (if m_replyTo m = [] then [] else [(''h:Reply-To'', m_replyTo m)])
     @ [(''subject'', m_subject m), (''text'', m_bodyText m)]"

text \<open>
  The Content-Type names the boundary the multipart writer drew, the argument \<open>boundary\<close>; the
  credentials travel as HTTP basic authentication.
\<close>

definition mailgunRequest :: "string \<Rightarrow> mailgun \<Rightarrow> message \<Rightarrow> out_request" where
  "mailgunRequest boundary g m =
     \<lparr>o_method = ''POST'', o_url = mg_BaseURL g @ ''/v3/'' @ mg_Domain g @ ''/messages'',
      o_headers = [(''Content-Type'', ''multipart/form-data; boundary='' @ boundary),
                   (''Accept'', ''application/json''),
                   (''Authorization'', ''Basic '' @ b64Encode (''api:'' @ mg_APIKey g))],
      o_body = MultipartBody (mailgunFields m)\<rparr>"

definition mailgunMessageID :: "netlib \<Rightarrow> bytes \<Rightarrow> string" where
  "mailgunMessageID n body =
     (case unmarshal n [(''id'', KString), (''message'', KString)] body of None \<Rightarrow> [] | Some resp \<Rightarrow> resp ''id'')"

definition mailgunErrorMessage :: "netlib \<Rightarrow> bytes \<Rightarrow> string \<Rightarrow> string" where
  "mailgunErrorMessage n body fallback =
     (case unmarshal n [(''message'', KString)] body of
        None \<Rightarrow> fallback
      | Some resp \<Rightarrow> if resp ''message'' = [] then fallback else resp ''message'')"

definition mailgunSend :: "netlib \<Rightarrow> string \<Rightarrow> mailgun \<Rightarrow> message \<Rightarrow> send_outcome" where
  "mailgunSend n boundary g m =
     sendHTTP n ''mailgun'' {200} (mailgunMessageID n) (mailgunErrorMessage n) (mailgunRequest boundary g m)"

definition validateMailgunSettings :: "settings \<Rightarrow> string option" where
  "validateMailgunSettings s =
     (if \<not> present s ''api_key'' then Some ''mailgun transport requires settings.api_key''
      else if \<not> present s ''domain'' then Some ''mailgun transport requires settings.domain''
      else None)"

definition buildMailgunFromSettings :: "settings \<Rightarrow> string + mailgun" where
  "buildMailgunFromSettings s =
     (let apiKey = strOr s ''api_key''; domain = strOr s ''domain'' in
      if apiKey = [] then Inl ''mailgun: api_key is empty''
      else if domain = [] then Inl ''mailgun: domain is empty''
      else Inr (NewMailgunTransport apiKey domain (strOr s ''base_url'')))"

subsection \<open>The contract of the APIs\<close>

locale http_api =
  fixes name :: string
    and oks :: "int set"
    and idOf :: "netlib \<Rightarrow> bytes \<Rightarrow> string"
    and errMsg :: "netlib \<Rightarrow> bytes \<Rightarrow> string \<Rightarrow> string"
    and request :: "message \<Rightarrow> out_request"
    and send :: "netlib \<Rightarrow> message \<Rightarrow> send_outcome"
  assumes sends: "send n m = sendHTTP n name oks (idOf n) (errMsg n) (request m)"
    and ok_statuses: "st \<in> oks \<Longrightarrow> 200 \<le> st \<and> st \<le> 299"
begin

lemma failure: "send n m = Inl e \<Longrightarrow> \<exists>cls status cause msg. e = TransportErr cls status cause msg \<and> cls \<noteq> ErrUnknown"
  by (auto simp: sends sendHTTP_def terr_def Let_def split: option.splits http_result.splits if_splits)

lemma retry_iff:
  assumes "send n m = Inl (TransportErr cls status cause msg)"
  shows "retryable cls \<longleftrightarrow>
    newRequestError n (o_url (request m)) = None \<and>
    (case exchange n (request m) of NetError _ \<Rightarrow> True | HttpResponse st _ \<Rightarrow> st = 429 \<or> 500 \<le> st)"
proof (cases "newRequestError n (o_url (request m))")
  case None
  with assms show ?thesis
    by (cases "exchange n (request m)") (auto simp: sends sendHTTP_def terr_def Let_def split: if_splits)
next
  case (Some err)
  with assms show ?thesis by (simp add: sends sendHTTP_def terr_def) auto
qed

lemma delivered_iff:
  "(\<exists>r. send n m = Inr r) \<longleftrightarrow>
     newRequestError n (o_url (request m)) = None \<and>
     (\<exists>st body. exchange n (request m) = HttpResponse st body \<and> st \<in> oks)"
  by (auto simp: sends sendHTTP_def Let_def split: option.splits http_result.splits)

end

sublocale http_api \<subseteq> contract: transport_contract "send n" for n
  by unfold_locales (rule failure)

interpretation postmark: http_api "''postmark''" "{200, 202}" postmarkMessageID postmarkErrorMessage "postmarkRequest p" "\<lambda>n. postmarkSend n p" for p
  by unfold_locales (auto simp: postmarkSend_def)

interpretation resend: http_api "''resend''" "{200}" resendMessageID resendErrorMessage "resendRequest r" "\<lambda>n. resendSend n r" for r
  by unfold_locales (auto simp: resendSend_def)

interpretation mailgun: http_api "''mailgun''" "{200}" mailgunMessageID mailgunErrorMessage "mailgunRequest boundary g" "\<lambda>n. mailgunSend n boundary g" for boundary g
  by unfold_locales (auto simp: mailgunSend_def)

end
