(* ===== verification/Calendar.thy ===== *)
theory Calendar
  imports GoNum
begin

text \<open>Calendar dates in UTC, and the layouts of time.Time.Format that the program uses.\<close>

subsection \<open>Calendar dates\<close>

text \<open>The civil date of a day number (days since 1970-01-01) in UTC, and the time of day.\<close>

definition civil :: "int \<Rightarrow> int \<times> int \<times> int" where
  "civil days =
     (let z = days + 719468; era = z div 146097; doe = z mod 146097;
          yoe = (doe - doe div 1460 + doe div 36524 - doe div 146096) div 365;
          doy = doe - (365 * yoe + yoe div 4 - yoe div 100);
          mp = (5 * doy + 2) div 153;
          d = doy - (153 * mp + 2) div 5 + 1;
          m = (if mp < 10 then mp + 3 else mp - 9)
      in (yoe + era * 400 + (if m \<le> 2 then 1 else 0), m, d))"

definition pad :: "nat \<Rightarrow> int \<Rightarrow> string" where
  "pad w n = (let s = formatInt n in replicate (w - length s) CHR ''0'' @ s)"

definition clockOf :: "time \<Rightarrow> int \<times> int \<times> int" where
  "clockOf t = (let s = (t div second) mod 86400 in (s div 3600, s mod 3600 div 60, s mod 60))"

definition dayOf :: "time \<Rightarrow> int" where
  "dayOf t = t div second div 86400"

definition weekday :: "int \<Rightarrow> string" where
  "weekday days = [''Sun'', ''Mon'', ''Tue'', ''Wed'', ''Thu'', ''Fri'', ''Sat''] ! nat ((days + 4) mod 7)"

definition monthName :: "int \<Rightarrow> string" where
  "monthName m =
     [''Jan'', ''Feb'', ''Mar'', ''Apr'', ''May'', ''Jun'', ''Jul'', ''Aug'', ''Sep'', ''Oct'', ''Nov'', ''Dec'']
     ! nat ((m - 1) mod 12)"

text \<open>The layout RFC1123Z, of a time in UTC.\<close>

definition rfc1123z :: "time \<Rightarrow> string" where
  "rfc1123z t =
     (case (civil (dayOf t), clockOf t) of
        ((y, m, d), (h, mi, s)) \<Rightarrow>
          weekday (dayOf t) @ '', '' @ pad 2 d @ '' '' @ monthName m @ '' '' @ pad 4 y @ '' ''
          @ pad 2 h @ '':'' @ pad 2 mi @ '':'' @ pad 2 s @ '' +0000'')"

text \<open>A date has visible characters and spaces only.\<close>

definition printing :: "char \<Rightarrow> bool" where
  "printing c = (let n = of_char c :: nat in 32 \<le> n \<and> n \<le> 126)"

lemma pad_printing: "list_all printing (pad w n)"
proof -
  have "printing c" if "c \<in> set (formatInt n)" for c
    using formatInt_chars [OF that] by (auto simp: isDigit_def printing_def Let_def)
  then show ?thesis by (auto simp: pad_def Let_def list_all_iff printing_def)
qed

lemma weekday_printing: "list_all printing (weekday d)"
proof -
  have "nat ((d + 4) mod 7) < 7" by simp
  then have "weekday d \<in> {''Sun'', ''Mon'', ''Tue'', ''Wed'', ''Thu'', ''Fri'', ''Sat''}"
    unfolding weekday_def by (auto simp: less_Suc_eq numeral_eq_Suc)
  then show ?thesis by (auto simp: printing_def)
qed

lemma monthName_printing: "list_all printing (monthName m)"
proof -
  have "nat ((m - 1) mod 12) < 12" by simp
  then have "monthName m \<in> {''Jan'', ''Feb'', ''Mar'', ''Apr'', ''May'', ''Jun'', ''Jul'', ''Aug'', ''Sep'', ''Oct'', ''Nov'', ''Dec''}"
    unfolding monthName_def by (auto simp: less_Suc_eq numeral_eq_Suc)
  then show ?thesis by (auto simp: printing_def)
qed

lemma rfc1123z_printing: "list_all printing (rfc1123z t)"
  by (auto simp: rfc1123z_def pad_printing weekday_printing monthName_printing printing_def split: prod.split)

lemma rfc1123z_epoch: "rfc1123z (1700000000 * second) = ''Tue, 14 Nov 2023 22:13:20 +0000''"
  by code_simp

end
