(* ===== verification/SigV4.thy ===== *)
theory SigV4
  imports Std HttpTransports Calendar
begin

text \<open>
  core/transport/awssigv4.go and ses.go: the AWS Signature Version 4 of a request, and the SES
  transport that signs with it. SHA-256 and HMAC are arguments.
\<close>

subsection \<open>Time stamps\<close>

definition dateStamp :: "time \<Rightarrow> string" where
  "dateStamp t = (case civil (dayOf t) of (y, m, d) \<Rightarrow> pad 4 y @ pad 2 m @ pad 2 d)"

definition amzDate :: "time \<Rightarrow> string" where
  "amzDate t = (case clockOf t of (h, m, s) \<Rightarrow> dateStamp t @ ''T'' @ pad 2 h @ pad 2 m @ pad 2 s @ ''Z'')"

subsection \<open>The canonical request\<close>

definition isUnreserved :: "char \<Rightarrow> bool" where
  "isUnreserved c =
     (let n = of_char c :: nat in
      (65 \<le> n \<and> n \<le> 90) \<or> (97 \<le> n \<and> n \<le> 122) \<or> (48 \<le> n \<and> n \<le> 57) \<or>
      c = CHR ''-'' \<or> c = CHR ''_'' \<or> c = CHR ''.'' \<or> c = CHR ''~'')"

definition upperHex :: string where
  "upperHex = ''0123456789ABCDEF''"

fun awsURIEncode :: "string \<Rightarrow> bool \<Rightarrow> string" where
  "awsURIEncode [] encodePath = []"
| "awsURIEncode (c # cs) encodePath =
     (if isUnreserved c then [c]
      else if c = CHR ''/'' \<and> encodePath then [c]
      else [CHR ''%'', upperHex ! (of_char c div 16), upperHex ! (of_char c mod 16)])
     @ awsURIEncode cs encodePath"

record sig_request =
  sr_method :: string
  sr_url :: url
  sr_header :: values_map
  sr_host :: string

definition canonQuery :: "values_map \<Rightarrow> string" where
  "canonQuery q =
     join ''&''
       (concat (map (\<lambda>k. map (\<lambda>v. awsURIEncode k False @ ''='' @ awsURIEncode v False) (sort (the (map_of q k))))
                    (sort (map fst q))))"

definition headerMap :: "gostd \<Rightarrow> sig_request \<Rightarrow> (string \<times> string) list" where
  "headerMap g req =
     mapSet ''host'' (sr_host req)
       (fold (\<lambda>(k, v) m. mapSet (ToLower g k) (trimSpace (join '','' v)) m) (sr_header req) [])"

definition canonicalRequest :: "gostd \<Rightarrow> sig_request \<Rightarrow> string \<Rightarrow> string \<times> string" where
  "canonicalRequest g req bodyHash =
     (let uri = (if url_escPath (sr_url req) = [] then ''/'' else url_escPath (sr_url req));
          hm = headerMap g req;
          hkeys = sort (map fst hm);
          canonHeaders = concat (map (\<lambda>k. k @ '':'' @ the (map_of hm k) @ [CHR 0x0A]) hkeys);
          signedHeaders = join '';'' hkeys
      in (join [CHR 0x0A] [sr_method req, uri, canonQuery (url_query (sr_url req)), canonHeaders, signedHeaders, bodyHash],
          signedHeaders))"

subsection \<open>Signing\<close>

definition credentialScope :: "string \<Rightarrow> string \<Rightarrow> string \<Rightarrow> string" where
  "credentialScope date region service = date @ ''/'' @ region @ ''/'' @ service @ ''/aws4_request''"

definition deriveSigningKey :: "gostd \<Rightarrow> string \<Rightarrow> string \<Rightarrow> string \<Rightarrow> string \<Rightarrow> bytes" where
  "deriveSigningKey g secretKey date region service =
     (let kDate = hmacSHA256 g (''AWS4'' @ secretKey) date;
          kRegion = hmacSHA256 g kDate region;
          kService = hmacSHA256 g kRegion service
      in hmacSHA256 g kService ''aws4_request'')"

definition sha256Hex :: "gostd \<Rightarrow> bytes \<Rightarrow> string" where
  "sha256Hex g b = hexEncode (sha256 g b)"

definition headerSet :: "string \<Rightarrow> string \<Rightarrow> values_map \<Rightarrow> values_map" where
  "headerSet k v h = mapSet k [v] h"

record credentials =
  AccessKeyID :: string
  SecretAccessKey :: string

definition sigV4Algorithm :: string where
  "sigV4Algorithm = ''AWS4-HMAC-SHA256''"

definition SignRequest ::
  "gostd \<Rightarrow> sig_request \<Rightarrow> bytes \<Rightarrow> credentials \<Rightarrow> string \<Rightarrow> string \<Rightarrow> time \<Rightarrow> sig_request" where
  "SignRequest g req body creds region service now =
     (let bodyHash = sha256Hex g body;
          h1 = headerSet ''X-Amz-Content-Sha256'' bodyHash (headerSet ''X-Amz-Date'' (amzDate now) (sr_header req));
          req1 = req\<lparr>sr_header := h1,
                     sr_host := (if sr_host req = [] then url_host (sr_url req) else sr_host req)\<rparr>;
          (canonicalReq, signedHeaders) = canonicalRequest g req1 bodyHash;
          scope = credentialScope (dateStamp now) region service;
          stringToSign = join [CHR 0x0A] [sigV4Algorithm, amzDate now, scope, sha256Hex g canonicalReq];
          signingKey = deriveSigningKey g (SecretAccessKey creds) (dateStamp now) region service;
          signature = hexEncode (hmacSHA256 g signingKey stringToSign);
          authHeader = sigV4Algorithm @ '' Credential='' @ AccessKeyID creds @ ''/'' @ scope @ '', ''
                       @ ''SignedHeaders='' @ signedHeaders @ '', '' @ ''Signature='' @ signature
      in req1\<lparr>sr_header := headerSet ''Authorization'' authHeader h1\<rparr>)"

text \<open>
  readAndReplaceBody, which nothing calls: the bytes or the error of reading the body (None: a nil
  body), and the body the request has afterwards.
\<close>

definition readAndReplaceBody :: "(string + bytes) option \<Rightarrow> (string + bytes option) \<times> (string + bytes) option" where
  "readAndReplaceBody body =
     (case body of
        None \<Rightarrow> (Inr None, None)
      | Some (Inl err) \<Rightarrow> (Inl err, Some (Inl err))
      | Some (Inr buf) \<Rightarrow> (Inr (Some buf), Some (Inr buf)))"

lemma readAndReplaceBody_rereads: "readAndReplaceBody (snd (readAndReplaceBody body)) = readAndReplaceBody body"
  by (auto simp: readAndReplaceBody_def split: option.split sum.split)

subsection \<open>SES\<close>

record ses =
  ses_Credentials :: credentials
  ses_Region :: string
  ses_BaseURL :: string

definition NewSESTransport :: "string \<Rightarrow> string \<Rightarrow> string \<Rightarrow> string \<Rightarrow> ses" where
  "NewSESTransport accessKeyID secretAccessKey region baseURL =
     \<lparr>ses_Credentials = \<lparr>AccessKeyID = accessKeyID, SecretAccessKey = secretAccessKey\<rparr>,
      ses_Region = region,
      ses_BaseURL = (if baseURL = [] then ''https://email.'' @ region @ ''.amazonaws.com'' else baseURL)\<rparr>"

definition sesPayload :: "message \<Rightarrow> json" where
  "sesPayload m =
     JObject ([(''FromEmailAddress'', JString (m_from m)),
               (''Destination'', JObject [(''ToAddresses'', JArray (map JString (m_to m)))])]
              @ (if m_replyTo m = [] then [] else [(''ReplyToAddresses'', JArray [JString (m_replyTo m)])])
              @ [(''Content'', JObject [(''Simple'', JObject
                    [(''Subject'', JObject [(''Data'', JString (m_subject m))]),
                     (''Body'', JObject [(''Text'', JObject [(''Data'', JString (m_bodyText m))])])])])])"

definition sesSigned :: "gostd \<Rightarrow> time \<Rightarrow> ses \<Rightarrow> message \<Rightarrow> url \<Rightarrow> sig_request" where
  "sesSigned g now s m u =
     SignRequest g
       \<lparr>sr_method = ''POST'', sr_url = u,
        sr_header = [(''Content-Type'', [''application/json'']), (''Accept'', [''application/json''])],
        sr_host = url_host u\<rparr>
       (jsonEncode (sesPayload m)) (ses_Credentials s) (ses_Region s) ''ses'' now"

text \<open>http.NewRequest parses the URL first; only a request that was built is signed.\<close>

definition sesRequest :: "gostd \<Rightarrow> time \<Rightarrow> ses \<Rightarrow> message \<Rightarrow> out_request" where
  "sesRequest g now s m =
     \<lparr>o_method = ''POST'', o_url = ses_BaseURL s @ ''/v2/email/outbound-emails'',
      o_headers =
        (case urlParse g (ses_BaseURL s @ ''/v2/email/outbound-emails'') of
           None \<Rightarrow> []
         | Some u \<Rightarrow> map (\<lambda>(k, v). (k, join '','' v)) (sr_header (sesSigned g now s m u))),
      o_body = RawBody (jsonEncode (sesPayload m))\<rparr>"

definition sesMessageID :: "netlib \<Rightarrow> bytes \<Rightarrow> string" where
  "sesMessageID n body =
     (case unmarshal n [(''MessageId'', KString)] body of None \<Rightarrow> [] | Some resp \<Rightarrow> resp ''MessageId'')"

definition sesErrorMessage :: "netlib \<Rightarrow> bytes \<Rightarrow> string \<Rightarrow> string" where
  "sesErrorMessage n body fallback =
     (case unmarshal n [(''__type'', KString), (''message'', KString), (''Message'', KString)] body of
        None \<Rightarrow> fallback
      | Some resp \<Rightarrow>
          if resp ''message'' \<noteq> [] then resp ''message''
          else if resp ''Message'' \<noteq> [] then resp ''Message''
          else fallback)"

definition sesSend :: "netlib \<Rightarrow> gostd \<Rightarrow> time \<Rightarrow> ses \<Rightarrow> message \<Rightarrow> send_outcome" where
  "sesSend n g now s m =
     sendHTTP n ''ses'' {200} (sesMessageID n) (sesErrorMessage n) (sesRequest g now s m)"

definition validateSESSettings :: "settings \<Rightarrow> string option" where
  "validateSESSettings s =
     (if \<not> present s ''access_key_id'' then Some ''ses transport requires settings.access_key_id''
      else if \<not> present s ''secret_access_key'' then Some ''ses transport requires settings.secret_access_key''
      else if \<not> present s ''region'' then Some ''ses transport requires settings.region''
      else None)"

definition buildSESFromSettings :: "settings \<Rightarrow> string + ses" where
  "buildSESFromSettings s =
     (let akid = strOr s ''access_key_id''; sak = strOr s ''secret_access_key''; region = strOr s ''region'' in
      if akid = [] \<or> sak = [] \<or> region = []
      then Inl ''ses: access_key_id, secret_access_key, and region all required''
      else Inr (NewSESTransport akid sak region (strOr s ''base_url'')))"

interpretation ses: http_api "''ses''" "{200}" sesMessageID sesErrorMessage "sesRequest g now s" "\<lambda>n. sesSend n g now s" for g now s
  by unfold_locales (auto simp: sesSend_def)

subsection \<open>The HTTP APIs together\<close>

text \<open>
  C26: Whatever bytes a message holds, the JSON body of a Postmark, Resend or SES request reads
  back as exactly the provider's object with the message's own fields (each invalid UTF-8 byte
  as the replacement character): no field value can end a string early, add a field or change
  the recipients. The Mailgun form carries the fields as they are, one per recipient.
\<close>

theorem requests_carry_the_message:
  "(\<exists>b. o_body (postmarkRequest p m) = RawBody b \<and>
      jsonDecode b = Some (JObject
        ([(''From'', JString (validUTF8 (m_from m))), (''To'', JString (validUTF8 (join '', '' (m_to m))))]
         @ (if m_replyTo m = [] then [] else [(''ReplyTo'', JString (validUTF8 (m_replyTo m)))])
         @ [(''Subject'', JString (validUTF8 (m_subject m))), (''TextBody'', JString (validUTF8 (m_bodyText m)))])))
   \<and> (\<exists>b. o_body (resendRequest r m) = RawBody b \<and>
      jsonDecode b = Some (JObject
        ([(''from'', JString (validUTF8 (m_from m))), (''to'', JArray (map (\<lambda>t. JString (validUTF8 t)) (m_to m)))]
         @ (if m_replyTo m = [] then [] else [(''reply_to'', JString (validUTF8 (m_replyTo m)))])
         @ [(''subject'', JString (validUTF8 (m_subject m))), (''text'', JString (validUTF8 (m_bodyText m)))])))
   \<and> (\<exists>b. o_body (sesRequest g now s m) = RawBody b \<and>
      jsonDecode b = Some (JObject
        ([(''FromEmailAddress'', JString (validUTF8 (m_from m))),
          (''Destination'', JObject [(''ToAddresses'', JArray (map (\<lambda>t. JString (validUTF8 t)) (m_to m)))])]
         @ (if m_replyTo m = [] then [] else [(''ReplyToAddresses'', JArray [JString (validUTF8 (m_replyTo m))])])
         @ [(''Content'', JObject [(''Simple'', JObject
               [(''Subject'', JObject [(''Data'', JString (validUTF8 (m_subject m)))]),
                (''Body'', JObject [(''Text'', JObject [(''Data'', JString (validUTF8 (m_bodyText m)))])])])])])))
   \<and> o_body (mailgunRequest boundary mg m) =
       MultipartBody ((''from'', m_from m) # map (Pair ''to'') (m_to m)
         @ (if m_replyTo m = [] then [] else [(''h:Reply-To'', m_replyTo m)])
         @ [(''subject'', m_subject m), (''text'', m_bodyText m)])"
  by (simp add: postmarkRequest_def resendRequest_def sesRequest_def mailgunRequest_def mailgunFields_def
      jsonDecode_jsonEncode postmarkPayload_def resendPayload_def sesPayload_def comp_def
      del: jsonEncode.simps)

text \<open>
  C27: A failed Send of any of the four HTTP transports is a transport error with a definite
  class, and the class allows a retry exactly when the request could be built and either no
  answer came or the answer was 429 or a 5xx: a request the provider has rejected is never
  sent again, and an overloaded provider is.
\<close>

theorem failed_http_sends:
  assumes "out \<in> {(postmarkRequest p m, postmarkSend n p m), (resendRequest r m, resendSend n r m),
      (mailgunRequest boundary mg m, mailgunSend n boundary mg m), (sesRequest g now s m, sesSend n g now s m)}"
    and "snd out = Inl e"
  shows "\<exists>cls status cause msg. e = TransportErr cls status cause msg \<and> cls \<noteq> ErrUnknown \<and>
    (retryable cls \<longleftrightarrow> newRequestError n (o_url (fst out)) = None \<and>
       (case exchange n (fst out) of NetError _ \<Rightarrow> True | HttpResponse st _ \<Rightarrow> st = 429 \<or> 500 \<le> st))"
proof -
  note classified = postmark.failure resend.failure mailgun.failure ses.failure
  from assms consider
      "fst out = postmarkRequest p m" "postmarkSend n p m = Inl e"
    | "fst out = resendRequest r m" "resendSend n r m = Inl e"
    | "fst out = mailgunRequest boundary mg m" "mailgunSend n boundary mg m = Inl e"
    | "fst out = sesRequest g now s m" "sesSend n g now s m = Inl e"
    by auto
  then show ?thesis
  proof cases
    case 1
    with postmark.failure [OF 1(2)] postmark.retry_iff [of n p m] show ?thesis by fastforce
  next
    case 2
    with resend.failure [OF 2(2)] resend.retry_iff [of n r m] show ?thesis by fastforce
  next
    case 3
    with mailgun.failure [OF 3(2)] mailgun.retry_iff [of n boundary mg m] show ?thesis by fastforce
  next
    case 4
    with ses.failure [OF 4(2)] ses.retry_iff [of n g now s m] show ?thesis by fastforce
  qed
qed

definition busyNet :: netlib where
  "busyNet = \<lparr>newRequestError = (\<lambda>_. None), exchange = (\<lambda>_. HttpResponse 429 []), unmarshal = (\<lambda>_ _. None)\<rparr>"

theorem failed_http_sends_witness:
  "\<exists>cls status cause msg.
     TransportErr ErrRateLimited 429 None ''resend rate limit'' = TransportErr cls status cause msg \<and> cls \<noteq> ErrUnknown \<and>
     (retryable cls \<longleftrightarrow> newRequestError busyNet (o_url (resendRequest (NewResendTransport ''key'' []) sampleMessage)) = None \<and>
       (case exchange busyNet (resendRequest (NewResendTransport ''key'' []) sampleMessage) of
          NetError _ \<Rightarrow> True | HttpResponse st _ \<Rightarrow> st = 429 \<or> 500 \<le> st))"
proof -
  have sent: "resendSend busyNet (NewResendTransport ''key'' []) sampleMessage =
      Inl (TransportErr ErrRateLimited 429 None ''resend rate limit'')"
    by (simp add: resendSend_def sendHTTP_def busyNet_def terr_def resendErrorMessage_def)
  show ?thesis
    using failed_http_sends [of "(resendRequest (NewResendTransport ''key'' []) sampleMessage,
        resendSend busyNet (NewResendTransport ''key'' []) sampleMessage)" undefined sampleMessage busyNet
        "NewResendTransport ''key'' []" undefined undefined undefined undefined undefined
        "TransportErr ErrRateLimited 429 None ''resend rate limit''"] sent
    by simp
qed

subsection \<open>The canonical form\<close>

lemma canonQuery_same:
  assumes "sameMap q q'"
  shows "canonQuery q = canonQuery q'"
proof -
  have "map_of q = map_of q'" using assms by (simp add: sameMap_def)
  then show ?thesis by (simp add: canonQuery_def sameMap_keys [OF assms])
qed

lemma headerMap_same:
  assumes "sameMap (sr_header req) (sr_header req')" and "sr_host req = sr_host req'"
    and "inj_on (ToLower g) (fst ` set (sr_header req))"
  shows "sameMap (headerMap g req) (headerMap g req')"
  unfolding headerMap_def assms(2)
  by (intro sameMap_mapSet fold_mapSet_same assms(1) assms(3))

lemma canonicalRequest_same:
  assumes "sameMap (sr_header req) (sr_header req')" and "sr_host req = sr_host req'"
    and "inj_on (ToLower g) (fst ` set (sr_header req))" and "sr_method req = sr_method req'"
    and "url_escPath (sr_url req) = url_escPath (sr_url req')"
    and "sameMap (url_query (sr_url req)) (url_query (sr_url req'))"
  shows "canonicalRequest g req bh = canonicalRequest g req' bh"
proof -
  have "sort (map fst (headerMap g req)) = sort (map fst (headerMap g req'))"
    "map_of (headerMap g req) = map_of (headerMap g req')"
    using headerMap_same [OF assms(1-3)] by (auto simp: sameMap_keys) (auto simp: sameMap_def)
  with assms(4,5) canonQuery_same [OF assms(6)] show ?thesis
    by (simp add: canonicalRequest_def Let_def)
qed

text \<open>
  C28: The signature does not depend on the order in which Go visits the header and query maps:
  two requests that agree as maps are signed with the same headers, Authorization included, as
  long as no two header names differ in letter case only (net/http keeps names in one case).
\<close>

theorem signature_ignores_map_order:
  assumes "sameMap h h'" and "sameMap (url_query u) (url_query u')"
    and "url_escPath u = url_escPath u'" and "url_host u = url_host u'"
    and "inj_on (ToLower g) ({''X-Amz-Date'', ''X-Amz-Content-Sha256''} \<union> fst ` set h)"
  shows "sameMap
    (sr_header (SignRequest g \<lparr>sr_method = me, sr_url = u, sr_header = h, sr_host = ho\<rparr> body creds region service now))
    (sr_header (SignRequest g \<lparr>sr_method = me, sr_url = u', sr_header = h', sr_host = ho\<rparr> body creds region service now))"
proof -
  let ?set = "\<lambda>h. headerSet ''X-Amz-Content-Sha256'' (sha256Hex g body) (headerSet ''X-Amz-Date'' (amzDate now) h)"
  let ?req = "\<lambda>u h. \<lparr>sr_method = me, sr_url = u, sr_header = ?set h, sr_host = (if ho = [] then url_host u else ho)\<rparr>"
  have h: "sameMap (?set h) (?set h')"
    unfolding headerSet_def by (intro sameMap_mapSet assms(1))
  have "fst ` set (?set h) = {''X-Amz-Date'', ''X-Amz-Content-Sha256''} \<union> fst ` set h"
    by (auto simp: headerSet_def)
  then have inj: "inj_on (ToLower g) (fst ` set (?set h))" using assms(5) by simp
  have "canonicalRequest g (?req u h) (sha256Hex g body) = canonicalRequest g (?req u' h') (sha256Hex g body)"
    by (rule canonicalRequest_same) (use h inj assms in simp_all)
  then show ?thesis
    using h assms(4)
    by (cases "ho = []") (simp_all add: SignRequest_def Let_def headerSet_def sameMap_mapSet case_prod_unfold)
qed

theorem signature_ignores_map_order_witness:
  "sameMap
    (sr_header (SignRequest sampleStd \<lparr>sr_method = ''POST'',
       sr_url = \<lparr>url_scheme = ''https'', url_host = ''h'', url_escPath = [], url_query = [(''b'', [''2'']), (''a'', [''1''])]\<rparr>,
       sr_header = [(''Accept'', [''x'']), (''Content-Type'', [''y''])], sr_host = []\<rparr> ''body''
       \<lparr>AccessKeyID = ''id'', SecretAccessKey = ''secret''\<rparr> ''eu'' ''ses'' 0))
    (sr_header (SignRequest sampleStd \<lparr>sr_method = ''POST'',
       sr_url = \<lparr>url_scheme = ''https'', url_host = ''h'', url_escPath = [], url_query = [(''a'', [''1'']), (''b'', [''2''])]\<rparr>,
       sr_header = [(''Content-Type'', [''y'']), (''Accept'', [''x''])], sr_host = []\<rparr> ''body''
       \<lparr>AccessKeyID = ''id'', SecretAccessKey = ''secret''\<rparr> ''eu'' ''ses'' 0))"
proof (rule signature_ignores_map_order)
  show "inj_on (ToLower sampleStd)
      ({''X-Amz-Date'', ''X-Amz-Content-Sha256''} \<union> fst ` set [(''Accept'', [''x'']), (''Content-Type'', [''y''])])"
    by (simp add: toLower_def sampleStd_def lowerByte_def ascii_def)
qed (simp_all add: sameMap_def fun_eq_iff)

subsection \<open>Percent encoding\<close>

text \<open>The reading of percent-encoded text.\<close>

fun percentDecode :: "string \<Rightarrow> string option" where
  "percentDecode [] = Some []"
| "percentDecode (c # cs) =
     (if c \<noteq> CHR ''%'' then map_option (Cons c) (percentDecode cs)
      else
        (case cs of
           a # b # r \<Rightarrow>
             (case (hexVal a, hexVal b) of
                (Some h, Some l) \<Rightarrow> map_option (Cons (char_of (16 * h + l))) (percentDecode r)
              | _ \<Rightarrow> None)
         | _ \<Rightarrow> None))"

lemma upperHex_props: "k < 16 \<Longrightarrow> hexVal (upperHex ! k) = Some k \<and> isUnreserved (upperHex ! k)"
proof -
  have "\<forall>k \<in> {..<16}. hexVal (upperHex ! k) = Some k \<and> isUnreserved (upperHex ! k)"
    by (simp add: lessThan_nat_numeral upperHex_def hexVal_def isUnreserved_def Let_def lessThan_Suc)
  then show "k < 16 \<Longrightarrow> hexVal (upperHex ! k) = Some k \<and> isUnreserved (upperHex ! k)" by auto
qed

text \<open>
  C29: awsURIEncode loses nothing and leaves nothing ambiguous: percent-decoding gives the string
  back, and only unreserved characters, percent signs and (for a path) slashes remain, so no
  encoded query name or value can contain a separator of the canonical query string.
\<close>

theorem awsURIEncode_roundtrip:
  "percentDecode (awsURIEncode s encodePath) = Some s \<and>
   set (awsURIEncode s encodePath) \<subseteq>
     {c. isUnreserved c} \<union> {CHR ''%''} \<union> (if encodePath then {CHR ''/''} else {})"
proof (induction s)
  case (Cons c s)
  have "\<not> isUnreserved (CHR ''%'')" by (simp add: isUnreserved_def)
  moreover have "char_of (37::nat) = CHR ''%''" by code_simp
  ultimately show ?case
    using Cons upperHex_props [of "of_char c div 16"] upperHex_props [of "of_char c mod 16"]
    by (auto simp: Let_def)
qed simp

end
