(* ===== verification/NetIP.thy ===== *)
theory NetIP
  imports GoNum
begin

text \<open>
  The parts of Go's net and net/netip packages that the program calls: textual IPv4 and IPv6
  addresses, CIDR prefixes, containment, and the split of a host and port pair.
\<close>

datatype addr =
    Addr4 "32 word"
  | Addr6 "128 word" string  \<comment> \<open>address and zone\<close>

record prefix =
  pfx_addr :: addr
  pfx_bits :: nat

subsection \<open>Addresses\<close>

text \<open>One decimal field of a dotted quad: no leading zero, at most 255.\<close>

definition parseOctet :: "string \<Rightarrow> nat option" where
  "parseOctet w =
     (if w = [] \<or> (1 < length w \<and> hd w = CHR ''0'') then None
      else (case readNat 0 w of None \<Rightarrow> None | Some n \<Rightarrow> if n \<le> 255 then Some n else None))"

definition parseIPv4Fields :: "string \<Rightarrow> (nat \<times> nat \<times> nat \<times> nat) option" where
  "parseIPv4Fields s =
     (case map parseOctet (splitOn CHR ''.'' s) of
        [Some a, Some b, Some c, Some d] \<Rightarrow> Some (a, b, c, d)
      | _ \<Rightarrow> None)"

fun readHex :: "nat \<Rightarrow> string \<Rightarrow> nat" where
  "readHex acc [] = acc"
| "readHex acc (c # cs) = readHex (16 * acc + the (hexVal c)) cs"

definition isHex :: "char \<Rightarrow> bool" where
  "isHex c = (case hexVal c of None \<Rightarrow> False | Some _ \<Rightarrow> True)"

text \<open>
  The loop of the IPv6 parser over 16-bit groups: k groups may still follow, acc are the
  groups read, ell is the position of the double colon. It returns the unread rest.
\<close>

fun parseGroups :: "nat \<Rightarrow> nat list \<Rightarrow> nat option \<Rightarrow> string \<Rightarrow> (nat list \<times> nat option \<times> string) option" where
  "parseGroups 0 acc ell s = Some (acc, ell, s)"
| "parseGroups (Suc k) acc ell s =
     (let ds = takeWhile isHex s; rest = dropWhile isHex s; acc' = acc @ [readHex 0 ds] in
      if ds = [] \<or> 4 < length ds then None
      else (case rest of
              [] \<Rightarrow> Some (acc', ell, [])
            | c # r \<Rightarrow>
                if c = CHR ''.'' then
                  (if ell = None \<and> length acc \<noteq> 6 \<or> 6 < length acc then None
                   else (case parseIPv4Fields s of
                           None \<Rightarrow> None
                         | Some (a, b, c, d) \<Rightarrow> Some (acc @ [a * 256 + b, c * 256 + d], ell, [])))
                else if c \<noteq> CHR '':'' \<or> r = [] then None
                else if hd r = CHR '':'' then
                  (if ell \<noteq> None then None
                   else if tl r = [] then Some (acc', Some (length acc'), [])
                   else parseGroups k acc' (Some (length acc')) (tl r))
                else parseGroups k acc' ell r))"

lemma parseGroups_step:
  "0 < k \<Longrightarrow> parseGroups k acc ell s =
     (let ds = takeWhile isHex s; rest = dropWhile isHex s; acc' = acc @ [readHex 0 ds] in
      if ds = [] \<or> 4 < length ds then None
      else (case rest of
              [] \<Rightarrow> Some (acc', ell, [])
            | c # r \<Rightarrow>
                if c = CHR ''.'' then
                  (if ell = None \<and> length acc \<noteq> 6 \<or> 6 < length acc then None
                   else (case parseIPv4Fields s of
                           None \<Rightarrow> None
                         | Some (a, b, c, d) \<Rightarrow> Some (acc @ [a * 256 + b, c * 256 + d], ell, [])))
                else if c \<noteq> CHR '':'' \<or> r = [] then None
                else if hd r = CHR '':'' then
                  (if ell \<noteq> None then None
                   else if tl r = [] then Some (acc', Some (length acc'), [])
                   else parseGroups (k - 1) acc' (Some (length acc')) (tl r))
                else parseGroups (k - 1) acc' ell r))"
  by (cases k) (simp_all only: parseGroups.simps diff_Suc_1 less_irrefl)

fun groupsVal :: "nat list \<Rightarrow> nat" where
  "groupsVal [] = 0"
| "groupsVal (g # gs) = g * 65536 ^ length gs + groupsVal gs"

definition parseIPv6 :: "string \<Rightarrow> addr option" where
  "parseIPv6 str =
     (let (s, zone) = (case indexByte str CHR ''%'' of
                         None \<Rightarrow> (str, None)
                       | Some i \<Rightarrow> (take i str, Some (drop (Suc i) str)));
          z = (case zone of None \<Rightarrow> [] | Some w \<Rightarrow> w);
          lead = hasPrefix s ''::'';
          ell = (if lead then Some 0 else None);
          s' = (if lead then drop 2 s else s)
      in if zone = Some [] then None
         else if lead \<and> s' = [] then Some (Addr6 0 z)
         else (case parseGroups 8 [] ell s' of
                 Some (acc, ell', []) \<Rightarrow>
                   (if length acc < 8
                    then (case ell' of
                            None \<Rightarrow> None
                          | Some e \<Rightarrow>
                              Some (Addr6 (of_nat (groupsVal
                                (take e acc @ replicate (8 - length acc) 0 @ drop e acc))) z))
                    else if ell' \<noteq> None then None
                    else Some (Addr6 (of_nat (groupsVal acc)) z))
               | _ \<Rightarrow> None))"

text \<open>netip.ParseAddr dispatches on the first dot, colon or percent sign.\<close>

definition parseAddr :: "string \<Rightarrow> addr option" where
  "parseAddr s =
     (case find (\<lambda>c. c \<in> {CHR ''.'', CHR '':'', CHR ''%''}) s of
        Some c \<Rightarrow>
          if c = CHR ''.'' then
            map_option (\<lambda>(a, b, c, d). Addr4 (of_nat (((a * 256 + b) * 256 + c) * 256 + d))) (parseIPv4Fields s)
          else if c = CHR '':'' then parseIPv6 s
          else None
      | None \<Rightarrow> None)"

subsection \<open>Prefixes\<close>

definition parsePrefix :: "string \<Rightarrow> prefix option" where
  "parsePrefix s =
     (case lastIndexByte s CHR ''/'' of
        None \<Rightarrow> None
      | Some i \<Rightarrow>
          (case parseAddr (take i s) of
             None \<Rightarrow> None
           | Some ip \<Rightarrow>
               (let bitsStr = drop (Suc i) s;
                    maxBits = (case ip of Addr4 _ \<Rightarrow> 32 | Addr6 _ _ \<Rightarrow> 128);
                    zoned = (case ip of Addr4 _ \<Rightarrow> False | Addr6 _ z \<Rightarrow> z \<noteq> [])
                in if zoned then None
                   else if 1 < length bitsStr \<and> \<not> (isDigit (hd bitsStr) \<and> hd bitsStr \<noteq> CHR ''0'') then None
                   else (case parseInt bitsStr of
                           None \<Rightarrow> None
                         | Some n \<Rightarrow>
                             if 0 \<le> n \<and> n \<le> maxBits then Some \<lparr>pfx_addr = ip, pfx_bits = nat n\<rparr> else None))))"

text \<open>Prefix.Contains: the same family, no zone, and equal leading bits.\<close>

fun addrIn :: "addr \<Rightarrow> addr \<Rightarrow> nat \<Rightarrow> bool" where
  "addrIn (Addr4 p) (Addr4 a) n = (drop_bit (32 - n) (xor p a) = 0)"
| "addrIn (Addr6 p z) (Addr6 a zone) n = (zone = [] \<and> drop_bit (128 - n) (xor p a) = 0)"
| "addrIn _ _ n = False"

definition prefixContains :: "prefix \<Rightarrow> addr \<Rightarrow> bool" where
  "prefixContains p ip = addrIn (pfx_addr p) ip (pfx_bits p)"

lemmas parse_eval =
  parsePrefix_def parseAddr_def parseIPv4Fields_def parseIPv6_def parseGroups_step parseOctet_def
  lastIndexByte_def isHex_def hexVal_def parseInt_def isDigit_def digitVal_def

subsection \<open>Host and port\<close>

text \<open>net.SplitHostPort, None when it returns an error.\<close>

definition splitHostPort :: "string \<Rightarrow> (string \<times> string) option" where
  "splitHostPort hp =
     (case lastIndexByte hp CHR '':'' of
        None \<Rightarrow> None
      | Some i \<Rightarrow>
          if hd hp = CHR ''['' then
            (case indexByte hp CHR '']'' of
               None \<Rightarrow> None
             | Some e \<Rightarrow>
                 if Suc e = i \<and> CHR ''['' \<notin> set (drop 1 hp) \<and> CHR '']'' \<notin> set (drop (Suc e) hp)
                 then Some (drop 1 (take e hp), drop (Suc i) hp)
                 else None)
          else if CHR '':'' \<in> set (take i hp) \<or> CHR ''['' \<in> set hp \<or> CHR '']'' \<in> set hp then None
          else Some (take i hp, drop (Suc i) hp))"

lemma splitHostPort_plain:
  assumes "set (h @ p) \<inter> {CHR '':'', CHR ''['', CHR '']''} = {}"
  shows "splitHostPort (h @ CHR '':'' # p) = Some (h, p)"
proof -
  have i: "lastIndexByte (h @ CHR '':'' # p) CHR '':'' = Some (length h)"
    using assms by (intro lastIndexByte_split) auto
  have "hd (h @ CHR '':'' # p) \<noteq> CHR ''[''" using assms by (cases h) auto
  with i assms show ?thesis by (auto simp: splitHostPort_def disjoint_iff)
qed

end
