(* ===== verification/SmtpOut.thy ===== *)
theory SmtpOut
  imports Transport Std Settings Calendar NetIP
begin

text \<open>
  core/transport/smtpout.go: the outbound SMTP transport. The client library and the relay are
  an argument: what a command returns may depend on the commands before it. The commands issued
  are the trace of a Send.
\<close>

subsection \<open>State and environment\<close>

record smtpout =
  so_Host :: string
  so_Port :: int
  so_Username :: string
  so_Password :: string
  so_RequireTLS :: bool
  so_SkipVerify :: bool

datatype smtp_cmd =
    Dial string
  | Hello string
  | StartTLS string bool      \<comment> \<open>server name; certificate verification skipped\<close>
  | Auth string string
  | Mail string
  | Rcpt string
  | Data
  | Payload bytes
  | EndData
  | Quit

definition NewSMTPOutTransport :: "string \<Rightarrow> int \<Rightarrow> string \<Rightarrow> string \<Rightarrow> bool \<Rightarrow> smtpout" where
  "NewSMTPOutTransport host port user pass requireTLS =
     \<lparr>so_Host = host, so_Port = port, so_Username = user, so_Password = pass, so_RequireTLS = requireTLS,
      so_SkipVerify = False\<rparr>"

record smtp_client =
  c_reply :: "smtp_cmd list \<Rightarrow> smtp_cmd \<Rightarrow> goerror option"
  c_starttls :: "smtp_cmd list \<Rightarrow> bool"     \<comment> \<open>the extension is advertised\<close>

subsection \<open>The message text\<close>

definition crlf :: string where
  "crlf = [CHR 0x0D, CHR 0x0A]"

datatype crlf_error = FromCRLF | ReplyToCRLF | SubjectCRLF | ToCRLF nat

fun toCRLF :: "nat \<Rightarrow> string list \<Rightarrow> crlf_error option" where
  "toCRLF i [] = None"
| "toCRLF i (t # ts) = (if containsAny t crlf then Some (ToCRLF i) else toCRLF (Suc i) ts)"

definition validateNoHeaderCRLF :: "message \<Rightarrow> crlf_error option" where
  "validateNoHeaderCRLF m =
     (if containsAny (m_from m) crlf then Some FromCRLF
      else if containsAny (m_replyTo m) crlf then Some ReplyToCRLF
      else if containsAny (m_subject m) crlf then Some SubjectCRLF
      else toCRLF 0 (m_to m))"

fun crlfErrorText :: "crlf_error \<Rightarrow> string" where
  "crlfErrorText FromCRLF = ''from contains CR or LF''"
| "crlfErrorText ReplyToCRLF = ''reply-to contains CR or LF''"
| "crlfErrorText SubjectCRLF = ''subject contains CR or LF''"
| "crlfErrorText (ToCRLF i) = ''to['' @ showNat i @ ''] contains CR or LF''"

definition envelopeAddress :: "gostd \<Rightarrow> string \<Rightarrow> string option" where
  "envelopeAddress g addr = (case mailParse g addr of None \<Rightarrow> None | Some (name, address) \<Rightarrow> Some address)"

definition needsMIMEEncoding :: "string \<Rightarrow> bool" where
  "needsMIMEEncoding s = list_ex (\<lambda>c. 127 < (of_char c :: nat)) s"

definition encodeMIMESubject :: "gostd \<Rightarrow> string \<Rightarrow> string" where
  "encodeMIMESubject g subject = (if \<not> needsMIMEEncoding subject then subject else mimeBEncode g subject)"

definition writeHeader :: "string \<Rightarrow> string \<Rightarrow> string" where
  "writeHeader name v = name @ '': '' @ v @ crlf"

definition buildRFC5322 :: "gostd \<Rightarrow> time \<Rightarrow> message \<Rightarrow> bytes" where
  "buildRFC5322 g now m =
     writeHeader ''From'' (m_from m)
     @ writeHeader ''To'' (join '', '' (m_to m))
     @ (if m_replyTo m \<noteq> [] then writeHeader ''Reply-To'' (m_replyTo m) else [])
     @ writeHeader ''Subject'' (encodeMIMESubject g (m_subject m))
     @ writeHeader ''Date'' (rfc1123z now)
     @ writeHeader ''MIME-Version'' ''1.0''
     @ writeHeader ''Content-Type'' (''text/plain; charset='' @ CHR 0x22 # ''utf-8'' @ [CHR 0x22])
     @ writeHeader ''Content-Transfer-Encoding'' ''8bit''
     @ crlf @ m_bodyText m"

subsection \<open>Sending\<close>

definition classifySMTPError :: "goerror \<Rightarrow> string \<Rightarrow> goerror" where
  "classifySMTPError err contextMsg =
     (case asProtoError err of
        Some (code, _) \<Rightarrow> terr (if 500 \<le> code then ErrTerminal else ErrTransient) code (Some err) contextMsg
      | None \<Rightarrow> terr ErrTransient 0 (Some err) contextMsg)"

text \<open>Issue a command; on an error the Send ends with the given error.\<close>

type_synonym send_run = "send_outcome \<times> smtp_cmd list"

definition issue ::
  "smtp_client \<Rightarrow> smtp_cmd \<Rightarrow> (goerror \<Rightarrow> goerror) \<Rightarrow> (smtp_cmd list \<Rightarrow> send_run) \<Rightarrow> smtp_cmd list \<Rightarrow> send_run" where
  "issue c cmd onErr k tr =
     (case c_reply c tr cmd of Some e \<Rightarrow> (Inl (onErr e), tr @ [cmd]) | None \<Rightarrow> k (tr @ [cmd]))"

fun rcptAll :: "gostd \<Rightarrow> smtp_client \<Rightarrow> string list \<Rightarrow> (smtp_cmd list \<Rightarrow> send_run) \<Rightarrow> smtp_cmd list \<Rightarrow> send_run" where
  "rcptAll g c [] k tr = k tr"
| "rcptAll g c (t # ts) k tr =
     (case envelopeAddress g t of
        None \<Rightarrow> (Inl (terr ErrTerminal 0 (Some (PlainError ''parse address'')) ''smtp: invalid to address''), tr)
      | Some envTo \<Rightarrow>
          issue c (Rcpt envTo) (\<lambda>e. classifySMTPError e ''smtp: RCPT TO rejected'') (rcptAll g c ts k) tr)"

definition sendData :: "gostd \<Rightarrow> time \<Rightarrow> smtp_client \<Rightarrow> message \<Rightarrow> smtp_cmd list \<Rightarrow> send_run" where
  "sendData g now c m =
     issue c Data (\<lambda>e. classifySMTPError e ''smtp: DATA command rejected'')
      (issue c (Payload (buildRFC5322 g now m)) (\<lambda>e. terr ErrTransient 0 (Some e) ''smtp: write payload failed'')
       (issue c EndData (\<lambda>e. classifySMTPError e ''smtp: DATA finalize failed'')
         (\<lambda>tr. (Inr \<lparr>messageID = []\<rparr>, tr @ [Quit]))))"

definition sendEnvelope :: "gostd \<Rightarrow> time \<Rightarrow> smtp_client \<Rightarrow> message \<Rightarrow> smtp_cmd list \<Rightarrow> send_run" where
  "sendEnvelope g now c m tr =
     (case envelopeAddress g (m_from m) of
        None \<Rightarrow> (Inl (terr ErrTerminal 0 (Some (PlainError ''parse address'')) ''smtp: invalid from address''), tr)
      | Some envFrom \<Rightarrow>
          issue c (Mail envFrom) (\<lambda>e. classifySMTPError e ''smtp: MAIL FROM rejected'')
            (rcptAll g c (m_to m) (sendData g now c m)) tr)"

definition sendAuth :: "gostd \<Rightarrow> time \<Rightarrow> smtpout \<Rightarrow> smtp_client \<Rightarrow> message \<Rightarrow> smtp_cmd list \<Rightarrow> send_run" where
  "sendAuth g now s c m =
     (if so_Username s \<noteq> [] \<or> so_Password s \<noteq> [] then
        issue c (Auth (so_Username s) (so_Password s)) (\<lambda>e. classifySMTPError e ''smtp: AUTH failed'')
          (sendEnvelope g now c m)
      else sendEnvelope g now c m)"

definition sendTLS :: "gostd \<Rightarrow> time \<Rightarrow> smtpout \<Rightarrow> smtp_client \<Rightarrow> message \<Rightarrow> smtp_cmd list \<Rightarrow> send_run" where
  "sendTLS g now s c m tr =
     (if so_RequireTLS s then
        (if \<not> c_starttls c tr
         then (Inl (terr ErrTerminal 0 None ''smtp: server does not advertise STARTTLS but require_tls=true''), tr)
         else issue c (StartTLS (so_Host s) (so_SkipVerify s))
                (\<lambda>e. classifySMTPError e ''smtp: STARTTLS upgrade failed'') (sendAuth g now s c m) tr)
      else sendAuth g now s c m tr)"

definition joinHostPort :: "string \<Rightarrow> string \<Rightarrow> string" where
  "joinHostPort host port =
     (if CHR '':'' \<in> set host \<or> CHR ''%'' \<in> set host then ''['' @ host @ '']:'' @ port else host @ '':'' @ port)"

definition smtpSend :: "gostd \<Rightarrow> time \<Rightarrow> smtp_client \<Rightarrow> smtpout \<Rightarrow> message \<Rightarrow> send_run" where
  "smtpSend g now c s m =
     (case validateNoHeaderCRLF m of
        Some err \<Rightarrow>
          (Inl (terr ErrTerminal 0 (Some (PlainError (crlfErrorText err))) ''smtp: header injection attempt rejected''), [])
      | None \<Rightarrow>
          issue c (Dial (joinHostPort (so_Host s) (formatInt (so_Port s))))
            (\<lambda>e. terr ErrTransient 0 (Some e) ''smtp: dial failed'')
            (issue c (Hello ''localhost'') (\<lambda>e. classifySMTPError e ''smtp: EHLO failed'') (sendTLS g now s c m)) [])"

text \<open>
  The production dialer, the reply to \<open>Dial\<close>: the TCP connection, the host for the certificate,
  and the greeting the client reads; the second value tells whether it closed the connection.
\<close>

definition defaultSMTPDial ::
  "(string \<Rightarrow> goerror option) \<Rightarrow> (string \<Rightarrow> goerror option) \<Rightarrow> string \<Rightarrow> (goerror option) \<times> bool" where
  "defaultSMTPDial dialTCP newClient addr =
     (case dialTCP addr of
        Some err \<Rightarrow> (Some err, False)
      | None \<Rightarrow>
          (case splitHostPort addr of
             None \<Rightarrow> (Some (PlainError ''split host and port''), True)
           | Some (host, port) \<Rightarrow>
               (case newClient host of Some err \<Rightarrow> (Some err, True) | None \<Rightarrow> (None, False))))"

text \<open>For a host name or an IPv4 address the client is made for the configured host.\<close>

lemma defaultSMTPDial_host:
  assumes "set host \<inter> {CHR '':'', CHR ''['', CHR '']'', CHR ''%''} = {}" and "0 \<le> port"
    and "dialTCP (joinHostPort host (formatInt port)) = None"
  shows "fst (defaultSMTPDial dialTCP newClient (joinHostPort host (formatInt port))) = newClient host"
proof -
  have "CHR '':'' \<notin> set (formatInt port)" "CHR ''['' \<notin> set (formatInt port)" "CHR '']'' \<notin> set (formatInt port)"
    using formatInt_chars [of _ port] by (fastforce simp: isDigit_def)+
  then have "splitHostPort (host @ CHR '':'' # formatInt port) = Some (host, formatInt port)"
    using assms(1) by (intro splitHostPort_plain) auto
  with assms show ?thesis by (auto simp: defaultSMTPDial_def joinHostPort_def split: option.split)
qed

subsection \<open>Settings\<close>

datatype smtpout_error = HostRequired | PortRequired | PortRange | UserRequired | PassRequired | AllRequired

definition validateSMTPOutSettings :: "settings \<Rightarrow> smtpout_error option" where
  "validateSMTPOutSettings s =
     (if \<not> present s ''host'' then Some HostRequired
      else (case map_of s ''port'' of
              None \<Rightarrow> Some PortRequired
            | Some portRaw \<Rightarrow>
                (case coerceInt portRaw of
                   None \<Rightarrow> Some PortRange
                 | Some port \<Rightarrow>
                     if port \<le> 0 \<or> 65535 < port then Some PortRange
                     else if \<not> present s ''username'' then Some UserRequired
                     else if \<not> present s ''password'' then Some PassRequired
                     else None)))"

definition buildSMTPOutFromSettings :: "settings \<Rightarrow> smtpout_error + smtpout" where
  "buildSMTPOutFromSettings s =
     (let host = strOr s ''host'';
          port = (case map_of s ''port'' of None \<Rightarrow> 0
                  | Some v \<Rightarrow> (case coerceInt v of None \<Rightarrow> 0 | Some n \<Rightarrow> n));
          user = strOr s ''username'';
          pass = strOr s ''password'';
          requireTLS = (case asBool s ''require_tls'' of Some v \<Rightarrow> v | None \<Rightarrow> True);
          skip = (case asBool s ''tls_insecure_skip_verify'' of Some v \<Rightarrow> v | None \<Rightarrow> False)
      in if host = [] \<or> port \<le> 0 \<or> user = [] \<or> pass = [] then Inl AllRequired
         else Inr ((NewSMTPOutTransport host port user pass requireTLS)\<lparr>so_SkipVerify := skip\<rparr>))"

subsection \<open>Reading a message back\<close>

text \<open>The header lines up to the first empty line, and the rest.\<close>

fun nextLine :: "string \<Rightarrow> (string \<times> string) option" where
  "nextLine [] = None"
| "nextLine (a # s) =
     (if hasPrefix (a # s) crlf then Some ([], drop 1 s) else map_option (\<lambda>(l, r). (a # l, r)) (nextLine s))"

lemma nextLine_shorter: "nextLine s = Some (l, r) \<Longrightarrow> length r < length s"
  by (induction s arbitrary: l r rule: nextLine.induct) (auto split: if_splits intro: less_SucI)

function headerLines :: "string \<Rightarrow> (string list \<times> string) option" where
  "headerLines s =
     (case nextLine s of
        None \<Rightarrow> None
      | Some (l, r) \<Rightarrow>
          if l = [] then Some ([], r) else map_option (\<lambda>(ls, b). (l # ls, b)) (headerLines r))"
  by pat_completeness auto
termination by (relation "measure length") (auto dest: nextLine_shorter)

declare headerLines.simps [simp del]

lemma nextLine_line:
  "CHR 0x0D \<notin> set l \<Longrightarrow> nextLine (l @ crlf @ r) = Some (l, r)"
  by (induction l) (auto simp: crlf_def)

lemma headerLines_line:
  assumes "CHR 0x0D \<notin> set l" and "l \<noteq> []"
  shows "headerLines (l @ crlf @ r) = map_option (\<lambda>(ls, b). (l # ls, b)) (headerLines r)"
  using assms by (subst headerLines.simps) (simp add: nextLine_line)

lemma headerLines_end: "headerLines (crlf @ b) = Some ([], b)"
  using nextLine_line [of "[]" b] by (subst headerLines.simps) simp

lemma headerLines_concat:
  assumes "\<forall>l \<in> set ls. CHR 0x0D \<notin> set l \<and> l \<noteq> []"
  shows "headerLines (concat (map (\<lambda>l. l @ crlf) ls) @ crlf @ b) = Some (ls, b)"
  using assms by (induction ls) (simp_all add: headerLines_end headerLines_line)

subsection \<open>The header block\<close>

abbreviation noBreaks :: "string \<Rightarrow> bool" where
  "noBreaks s \<equiv> CHR 0x0D \<notin> set s \<and> CHR 0x0A \<notin> set s"

lemma containsAny_crlf: "containsAny s crlf \<longleftrightarrow> \<not> noBreaks s"
  by (auto simp: containsAny_iff crlf_def)

lemma toCRLF_None: "toCRLF i ts = None \<longleftrightarrow> (\<forall>t \<in> set ts. noBreaks t)"
  by (induction ts arbitrary: i) (auto simp: containsAny_crlf)

lemma validateNoHeaderCRLF_None:
  "validateNoHeaderCRLF m = None \<longleftrightarrow>
     noBreaks (m_from m) \<and> noBreaks (m_replyTo m) \<and> noBreaks (m_subject m) \<and> (\<forall>t \<in> set (m_to m). noBreaks t)"
  by (simp add: validateNoHeaderCRLF_def containsAny_crlf toCRLF_None)

lemma noBreaks_join: "noBreaks sep \<Longrightarrow> \<forall>t \<in> set ts. noBreaks t \<Longrightarrow> noBreaks (join sep ts)"
  by (induction sep ts rule: join.induct) auto

lemma noBreaks_printing: "list_all printing s \<Longrightarrow> noBreaks s"
  by (induction s) (auto simp: printing_def)

definition rfcHeaders :: "gostd \<Rightarrow> time \<Rightarrow> message \<Rightarrow> string list" where
  "rfcHeaders g now m =
     [''From: '' @ m_from m, ''To: '' @ join '', '' (m_to m)]
     @ (if m_replyTo m \<noteq> [] then [''Reply-To: '' @ m_replyTo m] else [])
     @ [''Subject: '' @ encodeMIMESubject g (m_subject m), ''Date: '' @ rfc1123z now, ''MIME-Version: 1.0'',
        ''Content-Type: text/plain; charset='' @ CHR 0x22 # ''utf-8'' @ [CHR 0x22],
        ''Content-Transfer-Encoding: 8bit'']"

lemma buildRFC5322_lines:
  "buildRFC5322 g now m = concat (map (\<lambda>l. l @ crlf) (rfcHeaders g now m)) @ crlf @ m_bodyText m"
  by (simp add: buildRFC5322_def rfcHeaders_def writeHeader_def)

lemma headers_fixed:
  assumes "validateNoHeaderCRLF m = None" and "noBreaks (mimeBEncode g (m_subject m))"
  shows "headerLines (buildRFC5322 g now m) = Some (rfcHeaders g now m, m_bodyText m) \<and>
    list_all (\<lambda>l. noBreaks l) (rfcHeaders g now m)"
proof -
  have "noBreaks (join '', '' (m_to m))"
    using assms(1) by (intro noBreaks_join) (auto simp: validateNoHeaderCRLF_None)
  moreover have "noBreaks (rfc1123z now)" by (rule noBreaks_printing [OF rfc1123z_printing])
  ultimately have *: "\<forall>l \<in> set (rfcHeaders g now m). noBreaks l \<and> l \<noteq> []"
    using assms by (auto simp: rfcHeaders_def validateNoHeaderCRLF_None encodeMIMESubject_def)
  then show ?thesis by (simp add: buildRFC5322_lines headerLines_concat list_all_iff)
qed

text \<open>
  C30: No header injection: a message that passes the check is written as exactly the fixed header
  lines, each a single line without CR or LF, then the blank line and the body. A receiver that
  splits the text at the line ends sees no further header, whatever the form fields held. The
  hypothesis on the MIME encoder is that an encoded word has no line break.
\<close>

theorem smtp_headers_are_fixed:
  assumes "validateNoHeaderCRLF m = None" and "noBreaks (mimeBEncode g (m_subject m))"
  shows "headerLines (buildRFC5322 g now m) = Some (rfcHeaders g now m, m_bodyText m) \<and>
    list_all (\<lambda>l. noBreaks l) (rfcHeaders g now m)"
  by (rule headers_fixed [OF assms])

theorem smtp_headers_are_fixed_witness:
  "headerLines (buildRFC5322 sampleStd 0 (sampleMessage\<lparr>m_subject := [CHR 0xC3, CHR 0xA9]\<rparr>)) =
     Some (rfcHeaders sampleStd 0 (sampleMessage\<lparr>m_subject := [CHR 0xC3, CHR 0xA9]\<rparr>), ''text'') \<and>
   list_all (\<lambda>l. noBreaks l) (rfcHeaders sampleStd 0 (sampleMessage\<lparr>m_subject := [CHR 0xC3, CHR 0xA9]\<rparr>))"
proof -
  let ?m = "sampleMessage\<lparr>m_subject := [CHR 0xC3, CHR 0xA9]\<rparr>"
  have "validateNoHeaderCRLF ?m = None" by code_simp
  moreover have "noBreaks (mimeBEncode sampleStd (m_subject ?m))" by code_simp
  ultimately have "headerLines (buildRFC5322 sampleStd 0 ?m) = Some (rfcHeaders sampleStd 0 ?m, m_bodyText ?m) \<and>
      list_all (\<lambda>l. noBreaks l) (rfcHeaders sampleStd 0 ?m)"
    by (rule smtp_headers_are_fixed)
  then show ?thesis by (simp add: sampleMessage_def)
qed

subsection \<open>The dialogue\<close>

text \<open>Every command of a list is accepted, after the ones before it.\<close>

fun accepted :: "smtp_client \<Rightarrow> smtp_cmd list \<Rightarrow> smtp_cmd list \<Rightarrow> bool" where
  "accepted c tr [] = True"
| "accepted c tr (x # xs) = (c_reply c tr x = None \<and> accepted c (tr @ [x]) xs)"

lemma accepted_append: "accepted c tr (xs @ ys) = (accepted c tr xs \<and> accepted c (tr @ xs) ys)"
  by (induction xs arbitrary: tr) auto

lemma issue_Inr:
  "issue c cmd f k tr = (Inr r, t) \<longleftrightarrow> c_reply c tr cmd = None \<and> k (tr @ [cmd]) = (Inr r, t)"
  by (simp add: issue_def split: option.split)

lemma rcptAll_Inr:
  "rcptAll g c ts k tr = (Inr r, t) \<longleftrightarrow>
     (\<exists>tos. map (envelopeAddress g) ts = map Some tos \<and> accepted c tr (map Rcpt tos) \<and>
        k (tr @ map Rcpt tos) = (Inr r, t))"
proof (induction ts arbitrary: tr)
  case (Cons a ts)
  then show ?case
    by (cases "envelopeAddress g a") (auto simp: issue_Inr Cons_eq_map_conv)
qed simp

text \<open>The commands of a delivery.\<close>

definition dialogue :: "gostd \<Rightarrow> time \<Rightarrow> smtpout \<Rightarrow> message \<Rightarrow> string \<Rightarrow> string list \<Rightarrow> smtp_cmd list" where
  "dialogue g now s m envFrom tos =
     [Dial (joinHostPort (so_Host s) (formatInt (so_Port s))), Hello ''localhost'']
     @ (if so_RequireTLS s then [StartTLS (so_Host s) (so_SkipVerify s)] else [])
     @ (if so_Username s \<noteq> [] \<or> so_Password s \<noteq> [] then [Auth (so_Username s) (so_Password s)] else [])
     @ [Mail envFrom] @ map Rcpt tos @ [Data, Payload (buildRFC5322 g now m), EndData]"

text \<open>
  C31: Send reports a delivery exactly when the message has no line break in a header field, every
  address parses, the relay offers STARTTLS where it is required, and every command of the
  dialogue was accepted; the commands are then the whole dialogue, all recipients in order, and
  a final QUIT whose answer does not matter. No recipient is skipped and nothing is sent twice.
\<close>

theorem smtp_delivery:
  "smtpSend g now c s m = (Inr r, tr) \<longleftrightarrow>
     (\<exists>envFrom tos. validateNoHeaderCRLF m = None \<and> envelopeAddress g (m_from m) = Some envFrom \<and>
        map (envelopeAddress g) (m_to m) = map Some tos \<and>
        (so_RequireTLS s \<longrightarrow> c_starttls c (take 2 (dialogue g now s m envFrom tos))) \<and>
        accepted c [] (dialogue g now s m envFrom tos) \<and>
        tr = dialogue g now s m envFrom tos @ [Quit] \<and> r = \<lparr>messageID = []\<rparr>)"
  (is "?lhs \<longleftrightarrow> ?rhs")
proof (cases "validateNoHeaderCRLF m = None \<and> envelopeAddress g (m_from m) \<noteq> None")
  case True
  then obtain envFrom where "envelopeAddress g (m_from m) = Some envFrom" by auto
  with True show ?thesis
    by (auto simp: smtpSend_def sendTLS_def sendAuth_def sendEnvelope_def sendData_def issue_Inr rcptAll_Inr
        dialogue_def accepted_append)
next
  case False
  then show ?thesis
    by (auto simp: smtpSend_def sendTLS_def sendAuth_def sendEnvelope_def issue_Inr split: option.splits if_splits)
qed

definition sampleSmtpOut :: smtpout where
  "sampleSmtpOut = \<lparr>so_Host = ''relay'', so_Port = 587, so_Username = ''u'', so_Password = ''p'',
     so_RequireTLS = True, so_SkipVerify = False\<rparr>"

definition obligingRelay :: smtp_client where
  "obligingRelay = \<lparr>c_reply = (\<lambda>tr cmd. if cmd = Quit then Some (PlainError ''gone'') else None), c_starttls = (\<lambda>_. True)\<rparr>"

theorem smtp_delivery_witness:
  "smtpSend sampleStd 0 obligingRelay sampleSmtpOut sampleMessage =
     (Inr \<lparr>messageID = []\<rparr>,
      [Dial ''relay:587'', Hello ''localhost'', StartTLS ''relay'' False, Auth ''u'' ''p'', Mail ''a@x.org'',
       Rcpt ''b@y.org'', Data, Payload (buildRFC5322 sampleStd 0 sampleMessage), EndData, Quit])"
proof -
  have *: "joinHostPort ''relay'' (formatInt 587) = ''relay:587''" "validateNoHeaderCRLF sampleMessage = None"
    "envelopeAddress sampleStd (m_from sampleMessage) = Some ''a@x.org''"
    "map (envelopeAddress sampleStd) (m_to sampleMessage) = map Some [''b@y.org'']"
    by code_simp+
  show ?thesis
    by (subst smtp_delivery, rule exI [of _ "''a@x.org''"], rule exI [of _ "[''b@y.org'']"])
      (simp only: *, simp add: dialogue_def sampleSmtpOut_def obligingRelay_def *)
qed

lemma issue_extends:
  "(\<And>t. \<exists>ys. snd (k t) = t @ ys) \<Longrightarrow> \<exists>ys. snd (issue c cmd f k tr) = tr @ ys"
  by (auto simp: issue_def split: option.split) (metis append.assoc)

lemma rcptAll_extends:
  "(\<And>t. \<exists>ys. snd (k t) = t @ ys) \<Longrightarrow> \<exists>ys. snd (rcptAll g c ts k tr) = tr @ ys"
proof (induction ts arbitrary: tr)
  case (Cons a ts)
  have "\<exists>ys. snd (issue c (Rcpt e) f (rcptAll g c ts k) tr) = tr @ ys" for e f
    by (rule issue_extends) (use Cons in blast)
  then show ?case by (simp split: option.split)
qed simp

lemma sendData_extends: "\<exists>ys. snd (sendData g now c m tr) = tr @ ys"
  unfolding sendData_def by (auto simp: issue_def split: option.split)

lemma sendEnvelope_extends: "\<exists>ys. snd (sendEnvelope g now c m tr) = tr @ ys"
  unfolding sendEnvelope_def
  by (simp split: option.split) (intro allI impI issue_extends rcptAll_extends sendData_extends)

lemma sendAuth_extends: "\<exists>ys. snd (sendAuth g now s c m tr) = tr @ ys"
  unfolding sendAuth_def by (simp only: split: if_split) (intro conjI impI issue_extends sendEnvelope_extends)

text \<open>
  C32: With require_tls, credentials, addresses and message text only ever travel inside TLS: in
  every run, also in one that fails, a command other than the connection and EHLO comes after a
  STARTTLS the server accepted, for the configured host name; without a STARTTLS offer nothing
  is sent.
\<close>

theorem smtp_tls_before_anything_else:
  assumes "so_RequireTLS s" and "smtpSend g now c s m = (out, tr)"
    and "i < length tr" and "tr ! i = cmd" and "cmd \<in> {Auth u p, Mail a, Rcpt a, Data, Payload b, EndData, Quit}"
  shows "2 < i \<and> tr ! 2 = StartTLS (so_Host s) (so_SkipVerify s) \<and> c_reply c (take 2 tr) (tr ! 2) = None"
proof -
  let ?head = "[Dial (joinHostPort (so_Host s) (formatInt (so_Port s))), Hello ''localhost'']"
  let ?tls = "StartTLS (so_Host s) (so_SkipVerify s)"
  have "tr \<in> {[], [hd ?head], ?head, ?head @ [?tls]} \<or>
      c_reply c ?head ?tls = None \<and> (\<exists>ys. tr = ?head @ [?tls] @ ys)"
    using assms(1,2) sendAuth_extends [of g now s c m "?head @ [?tls]"]
    by (auto simp: smtpSend_def sendTLS_def issue_def split: option.splits if_splits)
  then show ?thesis
    using assms(3,4,5) by (auto simp: nth_Cons' less_Suc_eq split: if_splits)
qed

definition sampleRelay :: smtp_client where
  "sampleRelay = \<lparr>c_reply = (\<lambda>tr cmd. if cmd = Data then Some (ProtoError 554 ''no'') else None), c_starttls = (\<lambda>_. True)\<rparr>"

lemma sampleSend:
  "smtpSend sampleStd 0 sampleRelay sampleSmtpOut sampleMessage =
     (Inl (TransportErr ErrTerminal 554 (Some (ProtoError 554 ''no'')) ''smtp: DATA command rejected''),
      [Dial ''relay:587'', Hello ''localhost'', StartTLS ''relay'' False, Auth ''u'' ''p'', Mail ''a@x.org'',
       Rcpt ''b@y.org'', Data])"
proof -
  have *: "joinHostPort ''relay'' (formatInt 587) = ''relay:587''" by code_simp
  have "validateNoHeaderCRLF sampleMessage = None" by code_simp
  moreover have "envelopeAddress sampleStd ''a@x.org'' = Some ''a@x.org''" "envelopeAddress sampleStd ''b@y.org'' = Some ''b@y.org''"
    by code_simp+
  ultimately show ?thesis
    by (simp add: smtpSend_def sendTLS_def sendAuth_def sendEnvelope_def sendData_def issue_def sampleRelay_def
        sampleSmtpOut_def * classifySMTPError_def terr_def) (simp add: sampleMessage_def issue_def sendData_def
        classifySMTPError_def terr_def)
qed

theorem smtp_tls_before_anything_else_witness:
  "2 < (3::nat) \<and>
   [Dial ''relay:587'', Hello ''localhost'', StartTLS ''relay'' False, Auth ''u'' ''p'', Mail ''a@x.org'',
       Rcpt ''b@y.org'', Data] ! 2 = StartTLS (so_Host sampleSmtpOut) (so_SkipVerify sampleSmtpOut) \<and>
   c_reply sampleRelay (take 2 [Dial ''relay:587'', Hello ''localhost'', StartTLS ''relay'' False, Auth ''u'' ''p'',
       Mail ''a@x.org'', Rcpt ''b@y.org'', Data]) ([Dial ''relay:587'', Hello ''localhost'', StartTLS ''relay'' False,
       Auth ''u'' ''p'', Mail ''a@x.org'', Rcpt ''b@y.org'', Data] ! 2) = None"
  by (rule smtp_tls_before_anything_else [OF _ sampleSend, where cmd = "Auth ''u'' ''p''" and u = "''u''" and p = "''p''"
        and a = "[]" and b = "[]"]) (simp_all add: sampleSmtpOut_def)

subsection \<open>The contract\<close>

lemma classifySMTPError_class: "\<exists>cls st cause msg. classifySMTPError e t = TransportErr cls st cause msg \<and> cls \<noteq> ErrUnknown"
  by (auto simp: classifySMTPError_def terr_def split: option.split)

lemma issue_Inl:
  "issue c cmd f k tr = (Inl e, t) \<Longrightarrow> (\<exists>x. e = f x) \<or> k (tr @ [cmd]) = (Inl e, t)"
  by (auto simp: issue_def split: option.splits)

definition classifies :: "(smtp_cmd list \<Rightarrow> send_run) \<Rightarrow> bool" where
  "classifies k \<longleftrightarrow> (\<forall>tr e t. k tr = (Inl e, t) \<longrightarrow>
     (\<exists>cls st cause msg. e = TransportErr cls st cause msg \<and> cls \<noteq> ErrUnknown))"

lemma classifies_issue:
  assumes "classifies k" and "\<And>x. \<exists>cls st cause msg. f x = TransportErr cls st cause msg \<and> cls \<noteq> ErrUnknown"
  shows "classifies (issue c cmd f k)"
  using assms issue_Inl unfolding classifies_def by metis

lemma terr_classified: "cls \<noteq> ErrUnknown \<Longrightarrow> \<exists>cls' st' cause' msg'. terr cls st cause msg = TransportErr cls' st' cause' msg' \<and> cls' \<noteq> ErrUnknown"
  by (simp add: terr_def)

lemma classifies_rcptAll: "classifies k \<Longrightarrow> classifies (rcptAll g c ts k)"
proof (induction ts)
  case Nil
  then show ?case by (simp add: classifies_def)
next
  case (Cons a ts)
  have "classifies (issue c (Rcpt e) (\<lambda>e. classifySMTPError e msg) (rcptAll g c ts k))" for e msg
    by (intro classifies_issue classifySMTPError_class Cons)
  then show ?case by (fastforce simp: classifies_def terr_def split: option.splits)
qed

lemma classifies_data: "classifies (sendData g now c m)"
  unfolding sendData_def
  by (intro classifies_issue classifySMTPError_class terr_classified) (simp_all add: classifies_def)

lemma classifies_envelope: "classifies (sendEnvelope g now c m)"
proof -
  have "classifies (issue c (Mail a) (\<lambda>e. classifySMTPError e t) (rcptAll g c (m_to m) (sendData g now c m)))" for a t
    by (intro classifies_issue classifySMTPError_class classifies_rcptAll classifies_data)
  then show ?thesis by (fastforce simp: sendEnvelope_def classifies_def terr_def split: option.splits)
qed

lemma classifies_auth: "classifies (sendAuth g now s c m)"
  unfolding sendAuth_def by (auto intro!: classifies_issue classifySMTPError_class classifies_envelope)

lemma classifies_tls: "classifies (sendTLS g now s c m)"
proof -
  have "classifies (issue c (StartTLS h b) (\<lambda>e. classifySMTPError e t) (sendAuth g now s c m))" for h b t
    by (intro classifies_issue classifySMTPError_class classifies_auth)
  with classifies_auth show ?thesis by (fastforce simp: sendTLS_def classifies_def terr_def split: if_splits)
qed

interpretation smtp: transport_contract "\<lambda>m. fst (smtpSend g now c s m)" for g now c s
proof unfold_locales
  fix m e
  assume *: "fst (smtpSend g now c s m) = Inl e"
  let ?dial = "issue c (Dial (joinHostPort (so_Host s) (formatInt (so_Port s))))
      (\<lambda>e. terr ErrTransient 0 (Some e) ''smtp: dial failed'')
      (issue c (Hello ''localhost'') (\<lambda>e. classifySMTPError e ''smtp: EHLO failed'') (sendTLS g now s c m))"
  have dial: "classifies ?dial"
    by (intro classifies_issue classifySMTPError_class terr_classified classifies_tls) simp
  obtain t where t: "smtpSend g now c s m = (Inl e, t)"
    using * by (metis prod.collapse)
  show "\<exists>cls status cause msg. e = TransportErr cls status cause msg \<and> cls \<noteq> ErrUnknown"
  proof (cases "validateNoHeaderCRLF m")
    case None
    with t have "?dial [] = (Inl e, t)" by (simp add: smtpSend_def)
    with dial show ?thesis unfolding classifies_def by blast
  next
    case (Some err)
    with t show ?thesis by (auto simp: smtpSend_def terr_def)
  qed
qed

end
