(* ===== verification/Builtins.thy ===== *)
theory Builtins
  imports SigV4 SmtpOut
begin

text \<open>
  The registrations that the init functions of core/transport make, and what they promise: a
  block of settings that its validator accepts can be built, for every type the registry knows.
\<close>

datatype any_transport =
    APostmark postmark
  | AResend resend
  | AMailgun mailgun
  | ASES ses
  | ASMTP smtpout

datatype settings_error = SettingsText string | SettingsSMTP smtpout_error

type_synonym any_registration = "(settings, settings_error, any_transport) registration"

definition mailgunRegistration :: any_registration where
  "mailgunRegistration =
     \<lparr>reg_Type = ''mailgun'', reg_Validate = Some (map_option SettingsText \<circ> validateMailgunSettings),
      reg_Build = Some (map_sum SettingsText AMailgun \<circ> buildMailgunFromSettings)\<rparr>"

definition postmarkRegistration :: any_registration where
  "postmarkRegistration =
     \<lparr>reg_Type = ''postmark'', reg_Validate = Some (map_option SettingsText \<circ> validatePostmarkSettings),
      reg_Build = Some (map_sum SettingsText APostmark \<circ> buildPostmarkFromSettings)\<rparr>"

definition resendRegistration :: any_registration where
  "resendRegistration =
     \<lparr>reg_Type = ''resend'', reg_Validate = Some (map_option SettingsText \<circ> validateResendSettings),
      reg_Build = Some (map_sum SettingsText AResend \<circ> buildResendFromSettings)\<rparr>"

definition sesRegistration :: any_registration where
  "sesRegistration =
     \<lparr>reg_Type = ''ses'', reg_Validate = Some (map_option SettingsText \<circ> validateSESSettings),
      reg_Build = Some (map_sum SettingsText ASES \<circ> buildSESFromSettings)\<rparr>"

definition smtpRegistration :: any_registration where
  "smtpRegistration =
     \<lparr>reg_Type = ''smtp'', reg_Validate = Some (map_option SettingsSMTP \<circ> validateSMTPOutSettings),
      reg_Build = Some (map_sum SettingsSMTP ASMTP \<circ> buildSMTPOutFromSettings)\<rparr>"

text \<open>The files of a package are initialised in the order of their names.\<close>

definition builtins :: "any_registration list" where
  "builtins = [mailgunRegistration, postmarkRegistration, resendRegistration, sesRegistration, smtpRegistration]"

definition builtinRegistry :: "(settings, settings_error, any_transport) registry" where
  "builtinRegistry = (case registerAll builtins [] of Inr r \<Rightarrow> r | Inl _ \<Rightarrow> [])"

lemmas registration_defs =
  mailgunRegistration_def postmarkRegistration_def resendRegistration_def sesRegistration_def smtpRegistration_def

lemma builtins_registered: "registerAll builtins [] = Inr builtinRegistry"
  by (simp add: builtinRegistry_def builtins_def Register_def registration_defs)

lemma Lookup_builtin:
  "Lookup typ builtinRegistry = find (\<lambda>reg. reg_Type reg = typ) builtins"
  using registerAll_Lookup [OF builtins_registered] by (auto simp: Lookup_def split: option.splits)

lemma Lookup_builtin_cases:
  assumes "Lookup typ builtinRegistry = Some reg"
  obtains "reg = mailgunRegistration" | "reg = postmarkRegistration" | "reg = resendRegistration"
    | "reg = sesRegistration" | "reg = smtpRegistration"
  using assms by (auto simp: Lookup_builtin builtins_def split: if_splits)

text \<open>A transport that has what a Send needs.\<close>

fun equipped :: "any_transport \<Rightarrow> bool" where
  "equipped (APostmark p) = (pk_APIKey p \<noteq> [] \<and> pk_BaseURL p \<noteq> [])"
| "equipped (AResend r) = (rs_APIKey r \<noteq> [] \<and> rs_BaseURL r \<noteq> [])"
| "equipped (AMailgun m) = (mg_APIKey m \<noteq> [] \<and> mg_Domain m \<noteq> [] \<and> mg_BaseURL m \<noteq> [])"
| "equipped (ASES s) =
     (AccessKeyID (ses_Credentials s) \<noteq> [] \<and> SecretAccessKey (ses_Credentials s) \<noteq> [] \<and> ses_Region s \<noteq> [] \<and>
      ses_BaseURL s \<noteq> [])"
| "equipped (ASMTP s) =
     (so_Host s \<noteq> [] \<and> 0 < so_Port s \<and> so_Port s \<le> 65535 \<and> so_Username s \<noteq> [] \<and> so_Password s \<noteq> [])"

text \<open>The Send of any of them: the network, the clock and the boundary are the environment.\<close>

record send_env =
  se_net :: netlib
  se_std :: gostd
  se_now :: time
  se_boundary :: string
  se_smtp :: smtp_client

fun anySend :: "send_env \<Rightarrow> any_transport \<Rightarrow> message \<Rightarrow> send_outcome" where
  "anySend v (APostmark p) m = postmarkSend (se_net v) p m"
| "anySend v (AResend r) m = resendSend (se_net v) r m"
| "anySend v (AMailgun g) m = mailgunSend (se_net v) (se_boundary v) g m"
| "anySend v (ASES s) m = sesSend (se_net v) (se_std v) (se_now v) s m"
| "anySend v (ASMTP s) m = fst (smtpSend (se_std v) (se_now v) (se_smtp v) s m)"

interpretation any: transport_contract "anySend v t" for v t
proof unfold_locales
  fix m e
  assume "anySend v t m = Inl e"
  then show "\<exists>cls status cause msg. e = TransportErr cls status cause msg \<and> cls \<noteq> ErrUnknown"
    by (cases t) (auto dest: postmark.failure resend.failure mailgun.failure ses.failure smtp.fails_classified)
qed

text \<open>
  Every transport type in the registry, and no other, builds from the settings its validator
  accepts, and the transport built has every credential and address it needs; so a configuration
  that passes Validate never fails at start-up for its transport.
\<close>

lemma validated_settings_build:
  assumes "Lookup typ builtinRegistry = Some reg"
    and "reg_Validate reg = Some check" and "check s = None"
  shows "typ \<in> {''mailgun'', ''postmark'', ''resend'', ''ses'', ''smtp''} \<and>
    (\<exists>build t. reg_Build reg = Some build \<and> build s = Inr t \<and> equipped t)"
proof -
  have "typ \<in> {''mailgun'', ''postmark'', ''resend'', ''ses'', ''smtp''}"
    using assms(1) by (auto simp: Lookup_builtin builtins_def registration_defs split: if_splits)
  moreover from assms(1) have "\<exists>build t. reg_Build reg = Some build \<and> build s = Inr t \<and> equipped t"
  proof (cases rule: Lookup_builtin_cases)
    case 1
    with assms(2,3) show ?thesis
      by (auto simp: registration_defs validateMailgunSettings_def buildMailgunFromSettings_def present_strOr
          NewMailgunTransport_def split: if_splits)
  next
    case 2
    with assms(2,3) show ?thesis
      by (auto simp: registration_defs validatePostmarkSettings_def buildPostmarkFromSettings_def present_strOr
          NewPostmarkTransport_def split: if_splits)
  next
    case 3
    with assms(2,3) show ?thesis
      by (auto simp: registration_defs validateResendSettings_def buildResendFromSettings_def present_strOr
          NewResendTransport_def split: if_splits)
  next
    case 4
    with assms(2,3) show ?thesis
      by (auto simp: registration_defs validateSESSettings_def buildSESFromSettings_def present_strOr
          NewSESTransport_def Let_def split: if_splits)
  next
    case 5
    with assms(2,3) show ?thesis
      by (auto simp: registration_defs validateSMTPOutSettings_def buildSMTPOutFromSettings_def present_strOr
          NewSMTPOutTransport_def Let_def split: if_splits option.splits)
  qed
  ultimately show ?thesis ..
qed

lemma validated_settings_build_witness:
  "''smtp'' \<in> {''mailgun'', ''postmark'', ''resend'', ''ses'', ''smtp''} \<and>
    (\<exists>build t. reg_Build smtpRegistration = Some build \<and>
       build [(''host'', TString ''relay''), (''port'', TInt 25), (''username'', TString ''u''), (''password'', TString ''p'')]
         = Inr t \<and> equipped t)"
  by (rule validated_settings_build [where check = "map_option SettingsSMTP \<circ> validateSMTPOutSettings"])
    (simp_all add: Lookup_builtin builtins_def registration_defs validateSMTPOutSettings_def present_def asString_def)

end
