(* ===== verification/Csrf.thy ===== *)
theory Csrf
  imports Std
begin

text \<open>
  core/csrf/csrf.go: tokens made of a timestamp and its HMAC. The MAC is an argument (the
  record of library functions); what is proved holds for any.
\<close>

datatype csrf_error = ErrMissingToken | ErrMalformedToken | ErrInvalidSignature | ErrExpired

fun csrfErrorText :: "csrf_error \<Rightarrow> string" where
  "csrfErrorText ErrMissingToken = ''csrf: token missing''"
| "csrfErrorText ErrMalformedToken = ''csrf: token malformed''"
| "csrfErrorText ErrInvalidSignature = ''csrf: signature invalid''"
| "csrfErrorText ErrExpired = ''csrf: token expired''"

definition TokenField :: string where
  "TokenField = ''_csrf_token''"

definition sign :: "gostd \<Rightarrow> bytes \<Rightarrow> bytes \<Rightarrow> bytes" where
  "sign g message secret = hmacSHA256 g secret message"

text \<open>Time.Unix: whole seconds, rounded down.\<close>

definition unixSeconds :: "time \<Rightarrow> int" where
  "unixSeconds t = t div second"

definition Issue :: "gostd \<Rightarrow> bytes \<Rightarrow> time \<Rightarrow> string" where
  "Issue g secret issuedAt =
     (let ts = formatInt (unixSeconds issuedAt)
      in ts @ ''.'' @ hexEncode (sign g ts secret))"

text \<open>IssueNow, with the time the clock shows.\<close>

definition IssueNow :: "gostd \<Rightarrow> bytes \<Rightarrow> time \<Rightarrow> string" where
  "IssueNow g secret clock = Issue g secret clock"

definition Verify :: "gostd \<Rightarrow> string \<Rightarrow> bytes \<Rightarrow> duration \<Rightarrow> time \<Rightarrow> csrf_error option" where
  "Verify g token secret ttl now =
     (if token = [] then Some ErrMissingToken
      else (case splitN CHR ''.'' 1 token of
              [tsStr, sigHex] \<Rightarrow>
                (case parseInt tsStr of
                   None \<Rightarrow> Some ErrMalformedToken
                 | Some tsUnix \<Rightarrow>
                     (case hexDecode sigHex of
                        None \<Rightarrow> Some ErrMalformedToken
                      | Some gotSig \<Rightarrow>
                          if gotSig \<noteq> sign g tsStr secret then Some ErrInvalidSignature
                          else if ttl < timeSub now (timeUnix tsUnix) then Some ErrExpired
                          else None))
            | _ \<Rightarrow> Some ErrMalformedToken))"

definition ValidateSecret :: "bytes \<Rightarrow> int option" where
  "ValidateSecret secret = (if length secret < 16 then Some (int (length secret)) else None)"

lemma splitN_one:
  "splitN b (Suc 0) s = [x, y] \<longleftrightarrow> s = x @ b # y \<and> b \<notin> set x"
proof (cases "indexByte s b")
  case None
  moreover from None have "b \<notin> set s" by (simp add: indexByte_None)
  ultimately show ?thesis by auto
next
  case (Some i)
  note i = indexByte_Some [OF Some]
  then have s: "s = take i s @ b # drop (Suc i) s" by (metis id_take_nth_drop)
  show ?thesis
  proof
    assume "splitN b (Suc 0) s = [x, y]"
    with Some i s show "s = x @ b # y \<and> b \<notin> set x" by auto
  next
    assume "s = x @ b # y \<and> b \<notin> set x"
    then show "splitN b (Suc 0) s = [x, y]" using indexByte_split [of b x y] by simp
  qed
qed

lemma Verify_cases:
  "Verify g token secret ttl now = None \<longleftrightarrow>
     (\<exists>ts sig n. token = ts @ CHR ''.'' # sig \<and> CHR ''.'' \<notin> set ts \<and> parseInt ts = Some n \<and>
        hexDecode sig = Some (sign g ts secret) \<and> timeSub now (timeUnix n) \<le> ttl)"
proof -
  have "Verify g token secret ttl now = None \<longleftrightarrow>
     (\<exists>ts sig n. splitN CHR ''.'' (Suc 0) token = [ts, sig] \<and> parseInt ts = Some n \<and>
        hexDecode sig = Some (sign g ts secret) \<and> timeSub now (timeUnix n) \<le> ttl)"
  proof (cases "\<exists>ts sig. splitN CHR ''.'' (Suc 0) token = [ts, sig]")
    case True
    then obtain ts sig where sp: "splitN CHR ''.'' (Suc 0) token = [ts, sig]" by blast
    then have "token \<noteq> []" unfolding splitN_one by auto
    with sp show ?thesis
      by (auto simp: Verify_def simp del: splitN.simps split: option.split)
  next
    case False
    then show ?thesis
      by (auto simp: Verify_def simp del: splitN.simps split: list.split)
  qed
  then show ?thesis unfolding splitN_one by simp
qed

lemma parseInt_no_dot:
  assumes "parseInt s = Some n"
  shows "CHR ''.'' \<notin> set s"
proof
  assume dot: "CHR ''.'' \<in> set s"
  obtain c r where s: "s = c # r" using assms by (cases s) (auto simp: parseInt_def)
  obtain k where "readNat 0 (if c = CHR ''-'' \<or> c = CHR ''+'' then r else s) = Some k"
    using assms s by (auto simp: parseInt_def Let_def split: if_splits option.splits)
  moreover have "CHR ''.'' \<in> set (if c = CHR ''-'' \<or> c = CHR ''+'' then r else s)"
    using dot s by auto
  ultimately have "isDigit CHR ''.''" by (rule readNat_digits)
  then show False by (simp add: isDigit_def)
qed

text \<open>A MAC in padded base64, as the architecture document gives the format, is not accepted.\<close>

lemma hexDecode_chars: "hexDecode s = Some b \<Longrightarrow> c \<in> set s \<Longrightarrow> hexVal c \<noteq> None"
  by (induction s arbitrary: b rule: hexDecode.induct) (auto split: option.splits)

lemma base64_token_rejected: "Verify g (ts @ CHR ''.'' # mac @ ''='') secret ttl now \<noteq> None"
proof
  assume "Verify g (ts @ CHR ''.'' # mac @ ''='') secret ttl now = None"
  then obtain ts' sig where t: "(ts @ CHR ''.'' # mac) @ ''='' = ts' @ CHR ''.'' # sig"
      and sig: "hexDecode sig = Some (sign g ts' secret)"
    unfolding Verify_cases by auto
  from arg_cong [OF t, of last] have "sig \<noteq> [] \<and> last sig = CHR ''=''" by (simp split: if_splits)
  then have "CHR ''='' \<in> set sig" by (metis last_in_set)
  then have "hexVal CHR ''='' \<noteq> None" by (rule hexDecode_chars [OF sig])
  then show False by (simp add: hexVal_def)
qed

subsection \<open>Properties\<close>

text \<open>
  C20: What Verify accepts. A token passes exactly when it is a timestamp, a dot, and the hex
  form (in either letter case) of the MAC of that very timestamp under the secret, and the
  timestamp is not older than the TTL: without the secret's MAC no token passes.
\<close>
theorem Verify_accepts:
  "Verify g token secret ttl now = None \<longleftrightarrow>
     (\<exists>ts sig n. token = ts @ CHR ''.'' # sig \<and> parseInt ts = Some n \<and>
        hexDecode sig = Some (hmacSHA256 g secret ts) \<and> timeSub now (timeUnix n) \<le> ttl)"
  unfolding Verify_cases sign_def by (metis parseInt_no_dot)

text \<open>
  C21: Tokens issued by the form verify, under the same secret, until the TTL has passed since
  the whole second they were issued in, and are expired from then on.
\<close>
theorem Verify_Issue:
  assumes "- (2 ^ 63) \<le> unixSeconds t" and "unixSeconds t < 2 ^ 63 - 62135596800"
  shows "Verify g (Issue g secret t) secret ttl now =
           (if timeSub now (unixSeconds t * second) \<le> ttl then None else Some ErrExpired)"
proof -
  let ?ts = "formatInt (unixSeconds t)"
  have "splitN CHR ''.'' (Suc 0) (Issue g secret t) = [?ts, hexEncode (sign g ?ts secret)]"
    unfolding Issue_def Let_def splitN_one using formatInt_no_dot by simp
  moreover have "parseInt ?ts = Some (unixSeconds t)" using assms by (intro parseInt_formatInt) simp_all
  moreover have "Issue g secret t \<noteq> []" by (simp add: Issue_def Let_def)
  ultimately show ?thesis
    using assms by (simp add: Verify_def hexDecode_hexEncode timeUnix_exact del: splitN.simps)
qed

theorem Verify_Issue_witness:
  "Verify sampleStd (Issue sampleStd ''0123456789abcdef'' (1700000000 * second + 5)) ''0123456789abcdef'' (3600 * second)
     (1700003600 * second) = None \<and>
   Verify sampleStd (Issue sampleStd ''0123456789abcdef'' (1700000000 * second + 5)) ''0123456789abcdef'' (3600 * second)
     (1700003601 * second) = Some ErrExpired"
  using Verify_Issue [of "1700000000 * second + 5" sampleStd "''0123456789abcdef''" "3600 * second"]
  by (simp add: unixSeconds_def timeSub_def)

end
