(* ===== verification/SmtpConfig.thy ===== *)
theory SmtpConfig
  imports Std
begin

text \<open>
  core/smtp/config.go and the TLS part of listener.go: the configuration of the SMTP listener,
  its validation and its effective values.
\<close>

text \<open>AuthMode is a string type; its named values.\<close>

definition AuthSMTP :: string where "AuthSMTP = ''smtp-auth''"
definition AuthClientCert :: string where "AuthClientCert = ''client-cert''"
definition AuthEither :: string where "AuthEither = ''either''"

record user =
  username :: string
  password :: string

record listener_config =
  Listen :: string
  RequireTLS :: bool
  TLSCert :: string
  TLSKey :: string
  ClientCertCA :: string
  AuthRequired :: string
  SMTPUsers :: "user list"
  AllowedSenders :: "string list"
  AllowedRecipients :: "string list"
  MaxRecipientsPerSession :: int
  MaxMessageSize :: string
  IdleTimeout :: duration
  TransportType :: string

datatype listener_error =
    ListenRequired
  | SendersRequired
  | BadAuthMode string
  | UsersRequired string
  | UsernameRequired nat
  | PasswordRequired nat
  | ClientCARequired string
  | CertRequired
  | KeyRequired
  | NegativeRecipients int
  | NegativeIdle duration

definition EffectiveAuthMode :: "listener_config \<Rightarrow> string" where
  "EffectiveAuthMode c = (if AuthRequired c = [] then AuthSMTP else AuthRequired c)"

definition EffectiveMaxRecipients :: "listener_config \<Rightarrow> int" where
  "EffectiveMaxRecipients c =
     (if 0 < MaxRecipientsPerSession c then MaxRecipientsPerSession c
      else if AllowedRecipients c = [] then 10
      else 0)"

definition EffectiveIdleTimeout :: "listener_config \<Rightarrow> duration" where
  "EffectiveIdleTimeout c = (if IdleTimeout c = 0 then 60 * second else IdleTimeout c)"

fun checkUsers :: "nat \<Rightarrow> user list \<Rightarrow> listener_error option" where
  "checkUsers i [] = None"
| "checkUsers i (u # us) =
     (if trimSpace (username u) = [] then Some (UsernameRequired i)
      else if password u = [] then Some (PasswordRequired i)
      else checkUsers (Suc i) us)"

definition listener_Validate :: "listener_config \<Rightarrow> listener_error option" where
  "listener_Validate c =
     (if Listen c = [] then Some ListenRequired
      else if AllowedSenders c = [] then Some SendersRequired
      else
        (let mode = (if AuthRequired c = [] then AuthSMTP else AuthRequired c) in
         if mode \<notin> {AuthSMTP, AuthClientCert, AuthEither} then Some (BadAuthMode (AuthRequired c))
         else if (mode = AuthSMTP \<or> mode = AuthEither) \<and> SMTPUsers c = [] then Some (UsersRequired mode)
         else
           (case (if mode = AuthSMTP \<or> mode = AuthEither then checkUsers 0 (SMTPUsers c) else None) of
              Some e \<Rightarrow> Some e
            | None \<Rightarrow>
                if (mode = AuthClientCert \<or> mode = AuthEither) \<and> ClientCertCA c = [] then
                  Some (ClientCARequired mode)
                else if (RequireTLS c \<or> mode = AuthClientCert \<or> mode = AuthEither) \<and> TLSCert c = [] then
                  Some CertRequired
                else if (RequireTLS c \<or> mode = AuthClientCert \<or> mode = AuthEither) \<and> TLSKey c = [] then
                  Some KeyRequired
                else if \<not> (AllowedRecipients c = [] \<and> MaxRecipientsPerSession c = 0)
                        \<and> MaxRecipientsPerSession c < 0 then
                  Some (NegativeRecipients (MaxRecipientsPerSession c))
                else if IdleTimeout c < 0 then Some (NegativeIdle (IdleTimeout c))
                else None)))"

subsection \<open>TLS material\<close>

text \<open>What the files of the configuration hold, as the TLS library reads them.\<close>

record tls_files =
  loadKeyPair :: "string \<Rightarrow> string \<Rightarrow> bool"
  readCA :: "string \<Rightarrow> bytes option"
  certsInPEM :: "bytes \<Rightarrow> bool"

record tls_config =
  tls_clientCA :: "bytes option"  \<comment> \<open>a client certificate, if given, is verified against these\<close>

datatype tls_error = KeyPairError | CAReadError | CAEmpty

definition buildTLSConfig :: "tls_files \<Rightarrow> listener_config \<Rightarrow> tls_error + tls_config option" where
  "buildTLSConfig fs cfg =
     (let mode = EffectiveAuthMode cfg;
          certMode = (mode = AuthClientCert \<or> mode = AuthEither)
      in if \<not> (RequireTLS cfg \<or> certMode) then Inr None
         else if \<not> loadKeyPair fs (TLSCert cfg) (TLSKey cfg) then Inl KeyPairError
         else if certMode then
           (case readCA fs (ClientCertCA cfg) of
              None \<Rightarrow> Inl CAReadError
            | Some pem \<Rightarrow> if \<not> certsInPEM fs pem then Inl CAEmpty
                          else Inr (Some \<lparr>tls_clientCA = Some pem\<rparr>))
         else Inr (Some \<lparr>tls_clientCA = None\<rparr>))"

subsection \<open>Lemmas\<close>

lemma modes_distinct [simp]:
  "AuthSMTP \<noteq> AuthClientCert" "AuthSMTP \<noteq> AuthEither" "AuthClientCert \<noteq> AuthEither"
  "AuthClientCert \<noteq> AuthSMTP" "AuthEither \<noteq> AuthSMTP" "AuthEither \<noteq> AuthClientCert"
  "AuthSMTP \<noteq> []" "AuthClientCert \<noteq> []" "AuthEither \<noteq> []"
  by (simp_all add: AuthSMTP_def AuthClientCert_def AuthEither_def)

lemma checkUsers_None:
  "checkUsers i us = None \<longleftrightarrow> (\<forall>u \<in> set us. trimSpace (username u) \<noteq> [] \<and> password u \<noteq> [])"
  by (induction i us rule: checkUsers.induct) auto

text \<open>What a validated configuration guarantees.\<close>

lemma Validate_senders: "listener_Validate c = None \<Longrightarrow> AllowedSenders c \<noteq> [] \<and> Listen c \<noteq> []"
  by (auto simp: listener_Validate_def split: if_splits)

lemma Validate_mode:
  "listener_Validate c = None \<Longrightarrow> EffectiveAuthMode c \<in> {AuthSMTP, AuthClientCert, AuthEither}"
  by (auto simp: listener_Validate_def EffectiveAuthMode_def Let_def split: if_splits)

lemma Validate_users:
  assumes "listener_Validate c = None" and "EffectiveAuthMode c \<noteq> AuthClientCert"
  shows "SMTPUsers c \<noteq> [] \<and> (\<forall>u \<in> set (SMTPUsers c). trimSpace (username u) \<noteq> [] \<and> password u \<noteq> [])"
proof -
  have "EffectiveAuthMode c = AuthSMTP \<or> EffectiveAuthMode c = AuthEither"
    using Validate_mode [OF assms(1)] assms(2) by auto
  with assms(1) show ?thesis
    by (auto simp: listener_Validate_def EffectiveAuthMode_def Let_def checkUsers_None
        split: if_splits option.splits)
qed

lemma Validate_recipients: "listener_Validate c = None \<Longrightarrow> 0 \<le> MaxRecipientsPerSession c"
  by (cases "AllowedRecipients c = [] \<and> MaxRecipientsPerSession c = 0")
     (auto simp: listener_Validate_def Let_def split: if_splits option.splits)

lemma EffectiveMaxRecipients_bound:
  "0 \<le> EffectiveMaxRecipients c \<and> (AllowedRecipients c = [] \<longrightarrow> 0 < EffectiveMaxRecipients c)"
  by (simp add: EffectiveMaxRecipients_def)

end
