(* ===== verification/Config.thy ===== *)
theory Config
  imports Builtins Csrf SmtpConfig
begin

text \<open>
  core/config/config.go: the configuration, its validation, and loading it. Reading the file, the
  environment and the TOML decoder are arguments of \<open>Load\<close>; mail.ParseAddress is \<open>mailParse\<close>.
\<close>

subsection \<open>The configuration\<close>

record transport_config =
  tc_Type :: string
  tc_Settings :: settings

record ratelimit_config =
  rl_Count :: int
  rl_Interval :: duration

text \<open>A nil slice is None where the program tells it from an empty one.\<close>

record endpoint_config =
  ep_Path :: string
  ep_To :: "string list"
  ep_From :: string
  ep_Transport :: transport_config
  ep_RateLimit :: "ratelimit_config option"
  ep_TrustedProxies :: "string list"
  ep_Honeypot :: string
  ep_AllowedOrigins :: "string list option"
  ep_MaxBodySize :: string
  ep_Required :: "string list"
  ep_EmailField :: string
  ep_ReplyToEmailField :: string
  ep_Subject :: string
  ep_Body :: string
  ep_LogFailedSubmissions :: "bool option"
  ep_RedirectSuccess :: string
  ep_RedirectError :: string
  ep_Auth :: string
  ep_APIKeys :: "string list"
  ep_IdempotencyCacheSize :: int
  ep_DryRun :: bool
  ep_StripClientIP :: bool
  ep_CSRFSecret :: string
  ep_CSRFTokenTTL :: duration

record smtp_listener_config =
  sl_Listen :: string
  sl_RequireTLS :: "bool option"
  sl_TLSCert :: string
  sl_TLSKey :: string
  sl_ClientCertCA :: string
  sl_AuthRequired :: string
  sl_SMTPUsers :: "user list"
  sl_AllowedSenders :: "string list"
  sl_AllowedRecipients :: "string list"
  sl_MaxRecipientsPerSession :: int
  sl_MaxMessageSize :: string
  sl_IdleTimeout :: duration
  sl_Transport :: transport_config

record logging_config =
  lg_Level :: string
  lg_Format :: string

record config =
  cf_Endpoints :: "endpoint_config list"
  cf_Logging :: logging_config
  cf_SMTPListener :: "smtp_listener_config option"

definition AuthForm :: string where "AuthForm = ''form''"
definition AuthAPIKey :: string where "AuthAPIKey = ''api-key''"

subsection \<open>Validation\<close>

datatype transport_cfg_error =
    TypeRequired
  | UnknownType string "string list"
  | BadSettings settings_error

text \<open>A registration in the registry has its validator: Register refuses one without.\<close>

definition TransportConfig_Validate :: "transport_config \<Rightarrow> transport_cfg_error option" where
  "TransportConfig_Validate t =
     (if tc_Type t = [] then Some TypeRequired
      else
        (case Lookup (tc_Type t) builtinRegistry of
           None \<Rightarrow> (case UnknownTypeError (tc_Type t) builtinRegistry of (ty, known) \<Rightarrow> Some (UnknownType ty known))
         | Some reg \<Rightarrow> map_option BadSettings (the (reg_Validate reg) (tc_Settings t))))"

datatype endpoint_error =
    PathRequired
  | PathSlash string
  | ToRequired
  | ToInvalid string
  | FromRequired
  | FromInvalid string
  | SubjectRequired
  | BodyRequired
  | EndpointTransport transport_cfg_error
  | BadAuth string
  | APIKeysRequired
  | APIKeyEmpty nat
  | HoneypotInAPIMode
  | OriginsInAPIMode
  | RedirectSuccessInAPIMode
  | RedirectErrorInAPIMode
  | CSRFInAPIMode
  | CacheSizeNegative int
  | CacheSizeInFormMode
  | APIKeysInFormMode
  | CSRFSecretShort int
  | CSRFTTLNegative duration
  | OriginsEmpty
  | RateCount int
  | RateInterval duration

fun checkTo :: "gostd \<Rightarrow> string list \<Rightarrow> endpoint_error option" where
  "checkTo g [] = None"
| "checkTo g (addr # addrs) = (if mailParse g addr = None then Some (ToInvalid addr) else checkTo g addrs)"

fun checkKeys :: "nat \<Rightarrow> string list \<Rightarrow> endpoint_error option" where
  "checkKeys i [] = None"
| "checkKeys i (k # ks) = (if trimSpace k = [] then Some (APIKeyEmpty i) else checkKeys (Suc i) ks)"

definition checkAPIMode :: "endpoint_config \<Rightarrow> endpoint_error option" where
  "checkAPIMode e =
     (if ep_APIKeys e = [] then Some APIKeysRequired
      else
        (case checkKeys 0 (ep_APIKeys e) of
           Some err \<Rightarrow> Some err
         | None \<Rightarrow>
             if ep_Honeypot e \<noteq> [] then Some HoneypotInAPIMode
             else if ep_AllowedOrigins e \<noteq> None then Some OriginsInAPIMode
             else if ep_RedirectSuccess e \<noteq> [] then Some RedirectSuccessInAPIMode
             else if ep_RedirectError e \<noteq> [] then Some RedirectErrorInAPIMode
             else if ep_CSRFSecret e \<noteq> [] then Some CSRFInAPIMode
             else if ep_IdempotencyCacheSize e < 0 then Some (CacheSizeNegative (ep_IdempotencyCacheSize e))
             else None))"

definition checkFormMode :: "endpoint_config \<Rightarrow> endpoint_error option" where
  "checkFormMode e =
     (if ep_IdempotencyCacheSize e \<noteq> 0 then Some CacheSizeInFormMode
      else if ep_APIKeys e \<noteq> [] then Some APIKeysInFormMode
      else
        (case (if ep_CSRFSecret e \<noteq> [] then ValidateSecret (ep_CSRFSecret e) else None) of
           Some n \<Rightarrow> Some (CSRFSecretShort n)
         | None \<Rightarrow> if ep_CSRFTokenTTL e < 0 then Some (CSRFTTLNegative (ep_CSRFTokenTTL e)) else None))"

definition checkLimits :: "endpoint_config \<Rightarrow> endpoint_error option" where
  "checkLimits e =
     (if ep_AllowedOrigins e = Some [] then Some OriginsEmpty
      else
        (case ep_RateLimit e of
           None \<Rightarrow> None
         | Some rl \<Rightarrow>
             if rl_Count rl \<le> 0 then Some (RateCount (rl_Count rl))
             else if rl_Interval rl \<le> 0 then Some (RateInterval (rl_Interval rl))
             else None))"

definition effectiveAuth :: "endpoint_config \<Rightarrow> string" where
  "effectiveAuth e = (if ep_Auth e = [] then AuthForm else ep_Auth e)"

definition EndpointConfig_Validate :: "gostd \<Rightarrow> endpoint_config \<Rightarrow> endpoint_error option" where
  "EndpointConfig_Validate g e =
     (if ep_Path e = [] then Some PathRequired
      else if \<not> hasPrefix (ep_Path e) ''/'' then Some (PathSlash (ep_Path e))
      else if ep_To e = [] then Some ToRequired
      else
        (case checkTo g (ep_To e) of
           Some err \<Rightarrow> Some err
         | None \<Rightarrow>
             if ep_From e = [] then Some FromRequired
             else if mailParse g (ep_From e) = None then Some (FromInvalid (ep_From e))
             else if ep_Subject e = [] then Some SubjectRequired
             else if ep_Body e = [] then Some BodyRequired
             else
               (case TransportConfig_Validate (ep_Transport e) of
                  Some err \<Rightarrow> Some (EndpointTransport err)
                | None \<Rightarrow>
                    (let auth = effectiveAuth e in
                     if auth \<noteq> AuthForm \<and> auth \<noteq> AuthAPIKey then Some (BadAuth (ep_Auth e))
                     else
                       (case (if auth = AuthAPIKey then checkAPIMode e else checkFormMode e) of
                          Some err \<Rightarrow> Some err
                        | None \<Rightarrow> checkLimits e)))))"

datatype smtp_listener_error =
    SLListenRequired
  | SLSendersRequired
  | SLTransport transport_cfg_error
  | SLRecipientsNegative int
  | SLIdleNegative duration

definition SMTPListenerConfig_Validate :: "smtp_listener_config \<Rightarrow> smtp_listener_error option" where
  "SMTPListenerConfig_Validate s =
     (if sl_Listen s = [] then Some SLListenRequired
      else if sl_AllowedSenders s = [] then Some SLSendersRequired
      else
        (case TransportConfig_Validate (sl_Transport s) of
           Some err \<Rightarrow> Some (SLTransport err)
         | None \<Rightarrow>
             if sl_MaxRecipientsPerSession s < 0 then Some (SLRecipientsNegative (sl_MaxRecipientsPerSession s))
             else if sl_IdleTimeout s < 0 then Some (SLIdleNegative (sl_IdleTimeout s))
             else None))"

definition EffectiveRequireTLS :: "smtp_listener_config \<Rightarrow> bool" where
  "EffectiveRequireTLS s = (case sl_RequireTLS s of None \<Rightarrow> True | Some b \<Rightarrow> b)"

datatype config_error =
    NoEndpoints
  | BadEndpoint nat string endpoint_error
  | DuplicatePath string
  | LogFormat string
  | LogLevel string
  | BadListener smtp_listener_error

fun checkEndpoints :: "gostd \<Rightarrow> nat \<Rightarrow> string set \<Rightarrow> endpoint_config list \<Rightarrow> config_error option" where
  "checkEndpoints g i seen [] = None"
| "checkEndpoints g i seen (ep # eps) =
     (case EndpointConfig_Validate g ep of
        Some err \<Rightarrow> Some (BadEndpoint i (ep_Path ep) err)
      | None \<Rightarrow>
          if ep_Path ep \<in> seen then Some (DuplicatePath (ep_Path ep))
          else checkEndpoints g (Suc i) (insert (ep_Path ep) seen) eps)"

definition Config_Validate :: "gostd \<Rightarrow> config \<Rightarrow> config_error option" where
  "Config_Validate g c =
     (if cf_Endpoints c = [] then Some NoEndpoints
      else
        (case checkEndpoints g 0 {} (cf_Endpoints c) of
           Some err \<Rightarrow> Some err
         | None \<Rightarrow>
             if lg_Format (cf_Logging c) \<noteq> [] \<and> lg_Format (cf_Logging c) \<noteq> ''json''
             then Some (LogFormat (lg_Format (cf_Logging c)))
             else if lg_Level (cf_Logging c) \<notin> {[], ''debug'', ''info'', ''warn'', ''error''}
             then Some (LogLevel (lg_Level (cf_Logging c)))
             else
               (case cf_SMTPListener c of
                  None \<Rightarrow> None
                | Some s \<Rightarrow> map_option BadListener (SMTPListenerConfig_Validate s))))"

subsection \<open>Environment variables and loading\<close>

definition nameChar :: "char \<Rightarrow> bool" where
  "nameChar c = (let n = of_char c :: nat in 65 \<le> n \<and> n \<le> 90 \<or> c = CHR ''_'' \<or> isDigit c)"

text \<open>
  A match of envVarPattern at the head: the name and what follows. A name cannot hold the closing
  brace, so the longest run of name characters is the only candidate.
\<close>

definition envMatch :: "string \<Rightarrow> (string \<times> string) option" where
  "envMatch s =
     (if \<not> hasPrefix s ''${env.'' then None
      else
        (let r = drop 6 s; name = takeWhile nameChar r; rest = dropWhile nameChar r in
         if name = [] \<or> isDigit (hd name) then None
         else (case rest of [] \<Rightarrow> None | c # r' \<Rightarrow> if c = CHR ''}'' then Some (name, r') else None)))"

lemma envMatch_shorter: "envMatch s = Some (name, r) \<Longrightarrow> length r < length s"
  using length_dropWhile_le [of nameChar "drop 6 s"]
  by (auto simp: envMatch_def Let_def split: if_splits list.splits)

definition placeholder :: "string \<Rightarrow> string" where
  "placeholder name = ''${env.'' @ name @ ''}''"

text \<open>ReplaceAllFunc with the closure of resolveEnvVars: the text and the missing names so far.\<close>

function expandEnv :: "(string \<Rightarrow> string option) \<Rightarrow> string list \<Rightarrow> string \<Rightarrow> string \<times> string list" where
  "expandEnv env missing [] = ([], missing)"
| "expandEnv env missing (c # cs) =
     (case envMatch (c # cs) of
        Some (name, r) \<Rightarrow>
          (case env name of
             None \<Rightarrow>
               (let (out, m) = expandEnv env (if name \<in> set missing then missing else missing @ [name]) r
                in (placeholder name @ out, m))
           | Some val \<Rightarrow> (let (out, m) = expandEnv env missing r in (val @ out, m)))
      | None \<Rightarrow> (let (out, m) = expandEnv env missing cs in (c # out, m)))"
  by pat_completeness auto
termination
  by (relation "measure (\<lambda>(_, _, s). length s)") (auto dest: envMatch_shorter)

declare expandEnv.simps(2) [simp del]

definition resolveEnvVars :: "(string \<Rightarrow> string option) \<Rightarrow> bytes \<Rightarrow> string list + bytes" where
  "resolveEnvVars env raw =
     (let (out, missing) = expandEnv env [] raw in if missing \<noteq> [] then Inl missing else Inr out)"

datatype load_error = ReadError string | MissingEnv "string list" | TOMLError string | InvalidConfig config_error

definition Load ::
  "gostd \<Rightarrow> (string \<Rightarrow> string + bytes) \<Rightarrow> (string \<Rightarrow> string option) \<Rightarrow> (bytes \<Rightarrow> string + config) \<Rightarrow> string
     \<Rightarrow> load_error + config" where
  "Load g readFile env decode path =
     (case readFile path of
        Inl err \<Rightarrow> Inl (ReadError err)
      | Inr raw \<Rightarrow>
          (case resolveEnvVars env raw of
             Inl missing \<Rightarrow> Inl (MissingEnv missing)
           | Inr resolved \<Rightarrow>
               (case decode resolved of
                  Inl err \<Rightarrow> Inl (TOMLError err)
                | Inr cfg \<Rightarrow>
                    (case Config_Validate g cfg of
                       Some err \<Rightarrow> Inl (InvalidConfig err)
                     | None \<Rightarrow> Inr cfg))))"

subsection \<open>What validation accepts\<close>

text \<open>A valid endpoint, whatever the order of the checks.\<close>

definition validMode :: "endpoint_config \<Rightarrow> bool" where
  "validMode e \<longleftrightarrow>
     (if effectiveAuth e = AuthAPIKey
      then ep_APIKeys e \<noteq> [] \<and> list_all (\<lambda>k. trimSpace k \<noteq> []) (ep_APIKeys e) \<and> ep_Honeypot e = [] \<and>
        ep_AllowedOrigins e = None \<and> ep_RedirectSuccess e = [] \<and> ep_RedirectError e = [] \<and>
        ep_CSRFSecret e = [] \<and> 0 \<le> ep_IdempotencyCacheSize e
      else effectiveAuth e = AuthForm \<and> ep_IdempotencyCacheSize e = 0 \<and> ep_APIKeys e = [] \<and>
        (ep_CSRFSecret e = [] \<or> 16 \<le> length (ep_CSRFSecret e)) \<and> 0 \<le> ep_CSRFTokenTTL e)"

definition validEndpoint :: "gostd \<Rightarrow> endpoint_config \<Rightarrow> bool" where
  "validEndpoint g e \<longleftrightarrow>
     hasPrefix (ep_Path e) ''/'' \<and> ep_To e \<noteq> [] \<and> list_all (\<lambda>a. mailParse g a \<noteq> None) (ep_To e) \<and>
     ep_From e \<noteq> [] \<and> mailParse g (ep_From e) \<noteq> None \<and> ep_Subject e \<noteq> [] \<and> ep_Body e \<noteq> [] \<and>
     TransportConfig_Validate (ep_Transport e) = None \<and> validMode e \<and> ep_AllowedOrigins e \<noteq> Some [] \<and>
     pred_option (\<lambda>rl. 0 < rl_Count rl \<and> 0 < rl_Interval rl) (ep_RateLimit e)"

definition validListener :: "smtp_listener_config \<Rightarrow> bool" where
  "validListener s \<longleftrightarrow>
     sl_Listen s \<noteq> [] \<and> sl_AllowedSenders s \<noteq> [] \<and> TransportConfig_Validate (sl_Transport s) = None \<and>
     0 \<le> sl_MaxRecipientsPerSession s \<and> 0 \<le> sl_IdleTimeout s"

lemma checkTo_None: "checkTo g as = None \<longleftrightarrow> list_all (\<lambda>a. mailParse g a \<noteq> None) as"
  by (induction as) auto

lemma checkKeys_None: "checkKeys i ks = None \<longleftrightarrow> list_all (\<lambda>k. trimSpace k \<noteq> []) ks"
  by (induction ks arbitrary: i) auto

lemma checkAPIMode_None: "effectiveAuth e = AuthAPIKey \<Longrightarrow> checkAPIMode e = None \<longleftrightarrow> validMode e"
  by (cases "checkKeys 0 (ep_APIKeys e)")
    (auto simp: checkAPIMode_def validMode_def simp flip: checkKeys_None [of 0])

lemma checkFormMode_None: "effectiveAuth e = AuthForm \<Longrightarrow> checkFormMode e = None \<longleftrightarrow> validMode e"
  by (auto simp: checkFormMode_def validMode_def ValidateSecret_def AuthForm_def AuthAPIKey_def
      split: option.splits if_splits)

lemma checkLimits_None:
  "checkLimits e = None \<longleftrightarrow> ep_AllowedOrigins e \<noteq> Some [] \<and>
     pred_option (\<lambda>rl. 0 < rl_Count rl \<and> 0 < rl_Interval rl) (ep_RateLimit e)"
  by (auto simp: checkLimits_def split: option.splits if_splits)

lemma checkMode_None:
  "\<not> (effectiveAuth e \<noteq> AuthForm \<and> effectiveAuth e \<noteq> AuthAPIKey) \<and>
     (if effectiveAuth e = AuthAPIKey then checkAPIMode e else checkFormMode e) = None \<longleftrightarrow> validMode e"
  using checkAPIMode_None [of e] checkFormMode_None [of e] by (auto simp: validMode_def)

lemma EndpointConfig_Validate_None: "EndpointConfig_Validate g e = None \<longleftrightarrow> validEndpoint g e"
proof -
  have "EndpointConfig_Validate g e = None \<longleftrightarrow>
      ep_Path e \<noteq> [] \<and> hasPrefix (ep_Path e) ''/'' \<and> ep_To e \<noteq> [] \<and> checkTo g (ep_To e) = None \<and>
      ep_From e \<noteq> [] \<and> mailParse g (ep_From e) \<noteq> None \<and> ep_Subject e \<noteq> [] \<and> ep_Body e \<noteq> [] \<and>
      TransportConfig_Validate (ep_Transport e) = None \<and>
      (\<not> (effectiveAuth e \<noteq> AuthForm \<and> effectiveAuth e \<noteq> AuthAPIKey) \<and>
        (if effectiveAuth e = AuthAPIKey then checkAPIMode e else checkFormMode e) = None) \<and>
      checkLimits e = None"
    unfolding EndpointConfig_Validate_def Let_def
    by (cases "checkTo g (ep_To e)"; cases "TransportConfig_Validate (ep_Transport e)";
        cases "if effectiveAuth e = AuthAPIKey then checkAPIMode e else checkFormMode e") auto
  then show ?thesis
    unfolding checkMode_None by (auto simp: validEndpoint_def checkTo_None checkLimits_None)
qed

lemma SMTPListenerConfig_Validate_None: "SMTPListenerConfig_Validate s = None \<longleftrightarrow> validListener s"
  by (auto simp: SMTPListenerConfig_Validate_def validListener_def split: option.splits if_splits)

lemma checkEndpoints_None:
  "checkEndpoints g i seen eps = None \<longleftrightarrow>
     list_all (validEndpoint g) eps \<and> distinct (map ep_Path eps) \<and> seen \<inter> ep_Path ` set eps = {}"
proof (induction eps arbitrary: i seen)
  case (Cons ep eps)
  then show ?case
    by (auto simp: EndpointConfig_Validate_None split: option.splits)
      (simp_all flip: EndpointConfig_Validate_None)
qed simp

text \<open>
  C35: Validate accepts exactly the configurations with at least one endpoint, every endpoint valid
  in its mode (form defences and API keys never mixed), distinct paths, known logging values and a
  sound SMTP listener block. Which check runs first only decides which error is reported.
\<close>

theorem Config_Validate_accepts:
  "Config_Validate g c = None \<longleftrightarrow>
     cf_Endpoints c \<noteq> [] \<and> list_all (validEndpoint g) (cf_Endpoints c) \<and> distinct (map ep_Path (cf_Endpoints c)) \<and>
     lg_Format (cf_Logging c) \<in> {[], ''json''} \<and> lg_Level (cf_Logging c) \<in> {[], ''debug'', ''info'', ''warn'', ''error''} \<and>
     pred_option validListener (cf_SMTPListener c)"
  using checkEndpoints_None [of g 0 "{}" "cf_Endpoints c"]
  by (cases "checkEndpoints g 0 {} (cf_Endpoints c)"; cases "cf_SMTPListener c")
    (auto simp: Config_Validate_def SMTPListenerConfig_Validate_None)

subsection \<open>Placeholders\<close>

definition isEnvName :: "string \<Rightarrow> bool" where
  "isEnvName n \<longleftrightarrow> n \<noteq> [] \<and> hd n \<notin> set ''0123456789'' \<and> set n \<subseteq> set ''ABCDEFGHIJKLMNOPQRSTUVWXYZ_0123456789''"

lemma char_range:
  assumes "b < 256"
  shows "a \<le> (of_char c :: nat) \<and> (of_char c :: nat) \<le> b \<longleftrightarrow> c \<in> set (map char_of [a..<Suc b])"
proof
  assume "a \<le> (of_char c :: nat) \<and> of_char c \<le> b"
  then have "(of_char c :: nat) \<in> set [a..<Suc b]" by auto
  then have "char_of (of_char c :: nat) \<in> char_of ` set [a..<Suc b]" by (rule imageI)
  then show "c \<in> set (map char_of [a..<Suc b])" by simp
next
  assume "c \<in> set (map char_of [a..<Suc b])"
  with assms show "a \<le> (of_char c :: nat) \<and> of_char c \<le> b" by (auto simp: of_char_of)
qed

lemma isDigit_set: "isDigit c \<longleftrightarrow> c \<in> set ''0123456789''"
proof -
  have "map char_of [48..<Suc 57] = ''0123456789''" by code_simp
  then show ?thesis using char_range [of 57 48 c] by (simp only: isDigit_def Let_def)
qed

lemma nameChar_set: "nameChar c \<longleftrightarrow> c \<in> set ''ABCDEFGHIJKLMNOPQRSTUVWXYZ_0123456789''"
proof -
  have "map char_of [65..<Suc 90] = ''ABCDEFGHIJKLMNOPQRSTUVWXYZ''" by code_simp
  then have "65 \<le> (of_char c :: nat) \<and> (of_char c :: nat) \<le> 90 \<longleftrightarrow> c \<in> set ''ABCDEFGHIJKLMNOPQRSTUVWXYZ''"
    using char_range [of 90 65 c] by simp
  then show ?thesis by (auto simp: nameChar_def isDigit_set Let_def)
qed

lemma isEnvName_iff: "isEnvName n \<longleftrightarrow> n \<noteq> [] \<and> \<not> isDigit (hd n) \<and> list_all nameChar n"
  unfolding isEnvName_def isDigit_set list_all_iff nameChar_set by blast

text \<open>The variables a text names.\<close>

definition envNames :: "string \<Rightarrow> string set" where
  "envNames raw = {n. isEnvName n \<and> contains raw (placeholder n)}"

lemma nameChar_marks: "\<not> nameChar (CHR ''}'')" "\<not> nameChar (CHR ''$'')"
  by (simp_all add: nameChar_def isDigit_def)

lemma takeWhile_name: "list_all nameChar n \<Longrightarrow> takeWhile nameChar (n @ CHR ''}'' # r) = n"
  by (induction n) (simp_all add: nameChar_marks)

lemma dropWhile_name: "list_all nameChar n \<Longrightarrow> dropWhile nameChar (n @ CHR ''}'' # r) = CHR ''}'' # r"
  by (induction n) (simp_all add: nameChar_marks)

lemma envMatch_iff: "envMatch s = Some (n, r) \<longleftrightarrow> s = placeholder n @ r \<and> isEnvName n"
proof
  assume *: "envMatch s = Some (n, r)"
  then obtain u where u: "s = ''${env.'' @ u" by (auto simp: envMatch_def hasPrefix_iff split: if_splits)
  with * have n: "n = takeWhile nameChar u" "n \<noteq> []" "\<not> isDigit (hd n)" "dropWhile nameChar u = CHR ''}'' # r"
    by (auto simp: envMatch_def Let_def split: if_splits list.splits)
  have "u = n @ CHR ''}'' # r" using n(1,4) by (metis takeWhile_dropWhile_id)
  moreover have "list_all nameChar n" using n(1) set_takeWhileD by (fastforce simp: list_all_iff)
  ultimately show "s = placeholder n @ r \<and> isEnvName n"
    using u n(2,3) by (simp add: placeholder_def isEnvName_iff)
next
  assume *: "s = placeholder n @ r \<and> isEnvName n"
  then show "envMatch s = Some (n, r)"
    by (simp add: envMatch_def placeholder_def isEnvName_iff Let_def takeWhile_name dropWhile_name)
qed

lemma placeholder_dollar:
  assumes "isEnvName n"
  obtains u where "placeholder n = CHR ''$'' # u" and "CHR ''$'' \<notin> set u"
proof
  show "placeholder n = CHR ''$'' # tl (placeholder n)" by (simp add: placeholder_def)
  have "CHR ''$'' \<notin> set n" using assms nameChar_marks(2) by (auto simp: isEnvName_iff list_all_iff)
  then show "CHR ''$'' \<notin> set (tl (placeholder n))" by (simp add: placeholder_def)
qed

lemma contains_skip:
  "CHR ''$'' \<notin> set u \<Longrightarrow> contains (u @ r) (placeholder k) = contains r (placeholder k)"
  by (induction u) (auto simp: placeholder_def)

lemma envNames_match: "isEnvName n \<Longrightarrow> envNames (placeholder n @ r) = insert n (envNames r)"
proof -
  assume n: "isEnvName n"
  then obtain u where u: "placeholder n = CHR ''$'' # u" "CHR ''$'' \<notin> set u" by (rule placeholder_dollar)
  have "contains (placeholder n @ r) (placeholder k) \<longleftrightarrow> k = n \<or> contains r (placeholder k)" if k: "isEnvName k" for k
  proof -
    have "hasPrefix (placeholder n @ r) (placeholder k) \<longleftrightarrow> k = n"
      using envMatch_iff [of "placeholder n @ r"] n k by (auto simp: hasPrefix_iff) (metis Pair_inject option.inject)
    then show ?thesis using contains_skip [OF u(2)] u(1) by simp
  qed
  then show ?thesis using n by (auto simp: envNames_def)
qed

lemma envNames_other: "envMatch (c # cs) = None \<Longrightarrow> envNames (c # cs) = envNames cs"
  using envMatch_iff [of "c # cs"] by (auto simp: envNames_def hasPrefix_iff simp del: hasPrefix.simps)

lemma envNames_Nil: "envNames [] = {}"
  by (auto simp: envNames_def placeholder_def)

lemma expandEnv_missing:
  assumes "distinct missing"
  shows "case expandEnv env missing raw of (out, m) \<Rightarrow> distinct m \<and> set m = set missing \<union> (envNames raw - dom env)"
  using assms
proof (induction env missing raw rule: expandEnv.induct)
  case (1 env missing)
  then show ?case by (simp add: envNames_Nil)
next
  case (2 env missing c cs)
  show ?case
  proof (cases "envMatch (c # cs)")
    case None
    with "2.IH"(1) [OF None "2.prems"] show ?thesis
      by (auto simp: expandEnv.simps(2) envNames_other split: prod.splits)
  next
    case (Some p)
    then obtain n r where p: "envMatch (c # cs) = Some (n, r)" by (cases p) auto
    then have names: "envNames (c # cs) = insert n (envNames r)"
      using envMatch_iff envNames_match by metis
    show ?thesis
    proof (cases "env n")
      case None
      let ?m = "if n \<in> set missing then missing else missing @ [n]"
      have m: "distinct ?m" "set ?m = insert n (set missing)" using "2.prems" by auto
      obtain out m' where e: "expandEnv env ?m r = (out, m')" by fastforce
      have "distinct m' \<and> set m' = insert n (set missing) \<union> (envNames r - dom env)"
        using "2.IH"(2) [OF p refl None m(1)] unfolding e m(2) by simp
      moreover have "n \<notin> dom env" using None by auto
      moreover have "expandEnv env missing (c # cs) = (placeholder n @ out, m')"
        by (simp only: expandEnv.simps(2) p None e option.case prod.case Let_def)
      ultimately show ?thesis by (auto simp: names)
    next
      case (Some v)
      with "2.IH"(3) [OF p refl Some "2.prems"] names show ?thesis
        by (auto simp: expandEnv.simps(2) p split: prod.splits)
    qed
  qed
qed

text \<open>
  C36: Loading fails for its placeholders exactly when one names an unset variable, and the error
  then lists every such variable of the file, each once.
\<close>

theorem resolveEnvVars_reports_all:
  "case resolveEnvVars env raw of
     Inl missing \<Rightarrow> missing \<noteq> [] \<and> distinct missing \<and> set missing = envNames raw - dom env
   | Inr out \<Rightarrow> envNames raw - dom env = {}"
  using expandEnv_missing [of "[]", where env = env and raw = raw] by (auto simp: resolveEnvVars_def split: prod.splits)

lemma envMatch_append:
  assumes "s \<noteq> []"
  shows "envMatch (s @ CHR ''$'' # t) = map_option (\<lambda>(n, r). (n, r @ CHR ''$'' # t)) (envMatch s)"
proof (cases "envMatch s")
  case (Some p)
  then obtain n r where "envMatch s = Some (n, r)" by (cases p) auto
  then have "s @ CHR ''$'' # t = placeholder n @ (r @ CHR ''$'' # t)" "isEnvName n"
    using envMatch_iff by auto
  then have "envMatch (s @ CHR ''$'' # t) = Some (n, r @ CHR ''$'' # t)" using envMatch_iff by blast
  with \<open>envMatch s = Some (n, r)\<close> show ?thesis by simp
next
  case None
  have False if "envMatch (s @ CHR ''$'' # t) = Some (n, r)" for n r
  proof -
    from that have *: "s @ CHR ''$'' # t = placeholder n @ r" "isEnvName n" using envMatch_iff by blast+
    obtain u where u: "placeholder n = CHR ''$'' # u" "CHR ''$'' \<notin> set u" using *(2) by (rule placeholder_dollar)
    from *(1) consider us where "s = placeholder n @ us" | us where "s @ us = placeholder n" "us \<noteq> []" "hd us = CHR ''$''"
      by (auto simp: append_eq_append_conv2 Cons_eq_append_conv)
    then show False
    proof cases
      case 1
      with *(2) None show False using envMatch_iff [of s n us] by simp
    next
      case 2
      then have "CHR ''$'' \<in> set us" by (cases us) auto
      moreover have "set us \<subseteq> set u" using 2(1) u(1) assms by (cases s) auto
      ultimately show False using u(2) by auto
    qed
  qed
  then have "envMatch (s @ CHR ''$'' # t) = None" by (cases "envMatch (s @ CHR ''$'' # t)") auto
  with None show ?thesis by simp
qed

lemma expandEnv_append:
  "expandEnv env m (a @ CHR ''$'' # t) =
     (case expandEnv env m a of (o1, m1) \<Rightarrow> case expandEnv env m1 (CHR ''$'' # t) of (o2, m2) \<Rightarrow> (o1 @ o2, m2))"
proof (induction env m a rule: expandEnv.induct)
  case (1 env m)
  then show ?case by (simp split: prod.split)
next
  case (2 env m c cs)
  have app: "envMatch (c # cs @ CHR ''$'' # t) = map_option (\<lambda>(n, r). (n, r @ CHR ''$'' # t)) (envMatch (c # cs))"
    using envMatch_append [of "c # cs" t] by simp
  show ?case
  proof (cases "envMatch (c # cs)")
    case None
    with "2.IH"(1) [OF None] app show ?thesis
      by (simp add: expandEnv.simps(2) [of env m c] split: prod.split)
  next
    case (Some p)
    then obtain n r where p: "envMatch (c # cs) = Some (n, r)" by (cases p) auto
    show ?thesis
    proof (cases "env n")
      case None
      with "2.IH"(2) [OF p refl None] app p show ?thesis
        by (simp add: expandEnv.simps(2) [of env m c] split: prod.split)
    next
      case (Some v)
      with "2.IH"(3) [OF p refl Some] app p show ?thesis
        by (simp add: expandEnv.simps(2) [of env m c] split: prod.split)
    qed
  qed
qed

lemma expandEnv_match:
  assumes "isEnvName n" and "env n = Some v"
  shows "expandEnv env m (placeholder n @ b) = (case expandEnv env m b of (out, m') \<Rightarrow> (v @ out, m'))"
proof -
  obtain u where u: "placeholder n = CHR ''$'' # u" using assms(1) by (rule placeholder_dollar)
  have "envMatch (placeholder n @ b) = Some (n, b)" using assms(1) envMatch_iff by blast
  with assms(2) show ?thesis by (simp add: u expandEnv.simps(2) Let_def)
qed

lemma resolve_Inr: "resolveEnvVars env raw = Inr out \<longleftrightarrow> expandEnv env [] raw = (out, [])"
  by (simp add: resolveEnvVars_def split: prod.split)

text \<open>A text without placeholders is kept as it is.\<close>

lemma expandEnv_plain: "envNames t = {} \<Longrightarrow> expandEnv env m t = (t, m)"
proof (induction t)
  case (Cons c cs)
  have "envMatch (c # cs) = None"
  proof (cases "envMatch (c # cs)")
    case (Some p)
    then obtain n r where "envMatch (c # cs) = Some (n, r)" by (cases p) auto
    then have "envNames (c # cs) = insert n (envNames r)" using envMatch_iff envNames_match by metis
    with Cons.prems show ?thesis by simp
  qed
  with Cons envNames_other [of c cs] show ?case by (simp add: expandEnv.simps(2))
qed simp

text \<open>A text cut at its placeholders: pieces of other text, each with the name behind it, and the rest.\<close>

definition spliced :: "(string \<Rightarrow> string) \<Rightarrow> (string \<times> string) list \<Rightarrow> string \<Rightarrow> string" where
  "spliced f ps tail = concat (map (\<lambda>(t, n). t @ f n) ps) @ tail"

lemma spliced_simps [simp]:
  "spliced f [] tail = tail"
  "spliced f ((t, n) # ps) tail = t @ f n @ spliced f ps tail"
  by (simp_all add: spliced_def)

lemma every_text_splits:
  "\<exists>ps tail. raw = spliced placeholder ps tail \<and> list_all (\<lambda>(t, n). envNames t = {} \<and> isEnvName n) ps \<and> envNames tail = {}"
proof (induction raw rule: length_induct)
  case (1 raw)
  show ?case
  proof (cases raw)
    case Nil
    then show ?thesis by (intro exI [of _ "[]"]) (simp add: envNames_Nil)
  next
    case (Cons c cs)
    show ?thesis
    proof (cases "envMatch raw")
      case (Some p)
      then obtain n r where m: "envMatch raw = Some (n, r)" by (cases p) auto
      then have raw: "raw = placeholder n @ r" "isEnvName n" using envMatch_iff by blast+
      from "1.IH" envMatch_shorter [OF m] obtain ps tail where "r = spliced placeholder ps tail"
          "list_all (\<lambda>(t, n). envNames t = {} \<and> isEnvName n) ps" "envNames tail = {}" by blast
      with raw show ?thesis by (intro exI [of _ "([], n) # ps"] exI [of _ tail]) (simp add: envNames_Nil)
    next
      case None
      from "1.IH" Cons obtain ps tail where IH: "cs = spliced placeholder ps tail"
          "list_all (\<lambda>(t, n). envNames t = {} \<and> isEnvName n) ps" "envNames tail = {}" by force
      show ?thesis
      proof (cases ps)
        case Nil
        with IH None Cons show ?thesis
          by (intro exI [of _ "[]"] exI [of _ "c # tail"]) (simp add: envNames_other)
      next
        case (Cons p ps')
        obtain t n where p: "p = (t, n)" by (cases p)
        with IH Cons have n: "isEnvName n" "envNames t = {}" by simp_all
        obtain u where u: "placeholder n = CHR ''$'' # u" using n(1) by (rule placeholder_dollar)
        have "envMatch (c # t) = None"
          using envMatch_append [of "c # t" "u @ spliced placeholder ps' tail"] None IH(1) Cons p u \<open>raw = c # cs\<close> by simp
        with n have "envNames (c # t) = {}" by (simp add: envNames_other)
        with IH Cons p \<open>raw = c # cs\<close> show ?thesis
          by (intro exI [of _ "(c # t, n) # ps'"] exI [of _ tail]) simp
      qed
    qed
  qed
qed

text \<open>
  C37: Placeholders of set variables are replaced, and nothing else is touched. Cut a text at its
  placeholders (every text can be, \<open>every_text_splits\<close>), all of them naming set variables; then the
  result has each placeholder replaced by its variable's value and every byte between, before and
  behind them as it was. A value is not scanned again, so one that looks like a placeholder stays
  as it is.
\<close>

theorem env_substitution:
  assumes "list_all (\<lambda>(t, n). envNames t = {} \<and> isEnvName n \<and> env n \<noteq> None) ps" and "envNames tail = {}"
  shows "resolveEnvVars env (spliced placeholder ps tail) = Inr (spliced (\<lambda>n. the (env n)) ps tail)"
proof -
  have "expandEnv env [] (spliced placeholder ps tail) = (spliced (\<lambda>n. the (env n)) ps tail, [])"
    using assms(1)
  proof (induction ps)
    case Nil
    then show ?case using expandEnv_plain [OF assms(2)] by simp
  next
    case (Cons p ps)
    obtain t n where p: "p = (t, n)" by (cases p)
    with Cons.prems obtain v where n: "envNames t = {}" "isEnvName n" "env n = Some v" by auto
    obtain u where u: "placeholder n = CHR ''$'' # u" using n(2) by (rule placeholder_dollar)
    have "expandEnv env [] (placeholder n @ spliced placeholder ps tail) = (v @ spliced (\<lambda>n. the (env n)) ps tail, [])"
      using expandEnv_match [where env = env and n = n and v = v and b = "spliced placeholder ps tail" and m = "[]"] n(2,3) Cons by simp
    then show ?case
      using expandEnv_append [of env "[]" t "u @ spliced placeholder ps tail"] expandEnv_plain [OF n(1)] p n(3) u by simp
  qed
  then show ?thesis by (simp add: resolve_Inr)
qed

lemma sample_texts: "envNames ''a='' = {}" "envNames ''; # note $'' = {}"
proof -
  have "envNames s = {}" if "\<not> contains s ''${env.''" for s
  proof -
    have pre: "hasPrefix t ''${env.''" if "hasPrefix t (placeholder n)" for t n
      using that by (auto simp: placeholder_def hasPrefix_iff)
    have "contains s ''${env.''" if "contains s (placeholder n)" for n
      using that
    proof (induction s)
      case (Cons c s)
      with pre [of "c # s" n] show ?case by (auto simp del: hasPrefix.simps)
    qed (simp add: placeholder_def)
    with that show ?thesis by (auto simp: envNames_def)
  qed
  then show "envNames ''a='' = {}" "envNames ''; # note $'' = {}" by simp_all
qed

theorem env_substitution_witness:
  "resolveEnvVars (\<lambda>n. if n = ''KEY'' then Some ''${env.KEY}'' else None) ''a=${env.KEY}; # note $'' =
     Inr ''a=${env.KEY}; # note $''"
  using env_substitution [of "\<lambda>n. if n = ''KEY'' then Some ''${env.KEY}'' else None" "[(''a='', ''KEY'')]" "''; # note $''"]
    sample_texts by (simp add: isEnvName_def placeholder_def)

end
