(* ===== verification/Template.thy ===== *)
theory Template
  imports Std "HOL-Library.Multiset"
begin

text \<open>
  core/template/template.go: subject and body templates and the passthrough block. The
  text/template engine and the file system are arguments: \<open>tplParse\<close> gives the parse tree the
  code walks, \<open>tplExec\<close> the output on a data map, \<open>statFile\<close> what Stat and ReadFile say.
\<close>

datatype node =
    ListNode "node list"
  | ActionNode node
  | PipeNode "node list"
  | CommandNode "node list"
  | FieldNode "string list"
  | ChainNode node "string list"
  | IfNode node node "node option"
  | RangeNode node node "node option"
  | WithNode node node "node option"
  | OtherNode string   \<comment> \<open>text, literals, variables, template calls and the rest\<close>

datatype file_status = NoFile | Directory | Unreadable | File string

record engine =
  tplParse :: "string \<Rightarrow> node option"
  tplExec :: "node \<Rightarrow> (string \<Rightarrow> string option) \<Rightarrow> string option"
  statFile :: "string \<Rightarrow> file_status"

record renderer =
  rd_subject :: node
  rd_body :: node
  namedFields :: "string set"

datatype tpl_error =
    BodyEmpty
  | BodyUnreadable string
  | BodyNoSuchFile string
  | SubjectSyntax
  | BodySyntax

subsection \<open>Construction\<close>

definition loadBodyTemplate :: "engine \<Rightarrow> string \<Rightarrow> tpl_error + string" where
  "loadBodyTemplate e body =
     (if body = [] then Inl BodyEmpty
      else if contains body ''{{'' then Inr body
      else (case statFile e body of
              File raw \<Rightarrow> Inr raw
            | Unreadable \<Rightarrow> Inl (BodyUnreadable body)
            | _ \<Rightarrow> if contains body ''/'' then Inl (BodyNoSuchFile body) else Inr body))"

fun collectFieldNames :: "node \<Rightarrow> string set \<Rightarrow> string set" where
  "collectFieldNames (ListNode ns) S = fold collectFieldNames ns S"
| "collectFieldNames (ActionNode p) S = collectFieldNames p S"
| "collectFieldNames (PipeNode cs) S = fold collectFieldNames cs S"
| "collectFieldNames (CommandNode as) S = fold collectFieldNames as S"
| "collectFieldNames (FieldNode ident) S = (case ident of [] \<Rightarrow> S | i # _ \<Rightarrow> insert i S)"
| "collectFieldNames (ChainNode n f) S = collectFieldNames n S"
| "collectFieldNames (IfNode p l e) S =
     (case e of None \<Rightarrow> collectFieldNames l (collectFieldNames p S)
      | Some el \<Rightarrow> collectFieldNames el (collectFieldNames l (collectFieldNames p S)))"
| "collectFieldNames (RangeNode p l e) S =
     (case e of None \<Rightarrow> collectFieldNames l (collectFieldNames p S)
      | Some el \<Rightarrow> collectFieldNames el (collectFieldNames l (collectFieldNames p S)))"
| "collectFieldNames (WithNode p l e) S =
     (case e of None \<Rightarrow> collectFieldNames l (collectFieldNames p S)
      | Some el \<Rightarrow> collectFieldNames el (collectFieldNames l (collectFieldNames p S)))"
| "collectFieldNames (OtherNode _) S = S"

definition NewRenderer :: "engine \<Rightarrow> string \<Rightarrow> string \<Rightarrow> string list \<Rightarrow> tpl_error + renderer" where
  "NewRenderer e subject body reservedNames =
     (case loadBodyTemplate e body of
        Inl err \<Rightarrow> Inl err
      | Inr bodySrc \<Rightarrow>
          (case tplParse e subject of
             None \<Rightarrow> Inl SubjectSyntax
           | Some subj \<Rightarrow>
               (case tplParse e bodySrc of
                  None \<Rightarrow> Inl BodySyntax
                | Some bod \<Rightarrow>
                    (let named = set (filter (\<lambda>n. n \<noteq> []) reservedNames) in
                     Inr \<lparr>rd_subject = subj, rd_body = bod,
                          namedFields = collectFieldNames bod (collectFieldNames subj named)\<rparr>))))"

subsection \<open>Rendering\<close>

definition flattenForm :: "values_map \<Rightarrow> (string \<times> string) list" where
  "flattenForm form =
     List.map_filter (\<lambda>(k, v). case v of [] \<Rightarrow> None | [x] \<Rightarrow> Some (k, x) | _ \<Rightarrow> Some (k, join '', '' v)) form"

definition RenderSubject :: "engine \<Rightarrow> renderer \<Rightarrow> values_map \<Rightarrow> string option" where
  "RenderSubject e r form = tplExec e (rd_subject r) (map_of (flattenForm form))"

definition extraFields :: "renderer \<Rightarrow> values_map \<Rightarrow> (string \<times> string) list" where
  "extraFields r form =
     List.map_filter
       (\<lambda>(k, v). if k \<in> namedFields r then None
                 else if v = [] then None
                 else (let joined = join '', '' v in
                       if trimSpace joined = [] then None else Some (k, joined))) form"

definition fieldLine :: "string \<Rightarrow> string \<Rightarrow> string" where
  "fieldLine k v = ''  '' @ k @ '': '' @ v @ [CHR 0x0A]"

definition RenderBody :: "engine \<Rightarrow> renderer \<Rightarrow> values_map \<Rightarrow> string option" where
  "RenderBody e r form =
     (case tplExec e (rd_body r) (map_of (flattenForm form)) of
        None \<Rightarrow> None
      | Some buf \<Rightarrow>
          (let extras = extraFields r form in
           if extras = [] then Some buf
           else
             (let keys = sort (map fst extras);
                  out = (if hasSuffix buf [CHR 0x0A] then buf else buf @ [CHR 0x0A]) @ [CHR 0x0A]
                        @ ''Additional fields:'' @ [CHR 0x0A]
              in Some (out @ concat (map (\<lambda>k. fieldLine k (the (map_of extras k))) keys)))))"

subsection \<open>Lemmas\<close>

text \<open>Walking a tree adds its field names to the set, whatever the set.\<close>

definition additive :: "('a set \<Rightarrow> 'a set) \<Rightarrow> bool" where
  "additive f \<longleftrightarrow> (\<forall>S. f S = S \<union> f {})"

lemma additiveD: "additive f \<Longrightarrow> f S = S \<union> f {}"
  unfolding additive_def by (rule spec)

lemma additive_comp:
  assumes "additive f" and "additive g"
  shows "additive (\<lambda>S. g (f S))"
  unfolding additive_def
proof
  fix S
  show "g (f S) = S \<union> g (f {})"
    unfolding additiveD [OF assms(2), of "f S"] additiveD [OF assms(2), of "f {}"]
    by (subst additiveD [OF assms(1), of S]) (rule Un_assoc)
qed

lemma additive_fold: "(\<And>n. n \<in> set ns \<Longrightarrow> additive (f n)) \<Longrightarrow> additive (fold f ns)"
proof (induction ns)
  case Nil
  show ?case unfolding additive_def by simp
next
  case (Cons n ns)
  then have "additive (f n)" and "additive (fold f ns)" by simp_all
  then have "additive (\<lambda>S. fold f ns (f n S))" by (rule additive_comp)
  then show ?case by (simp add: comp_def)
qed

lemma additive_eta: "(\<And>S. f S = g S) \<Longrightarrow> additive f = additive g"
  unfolding additive_def by simp

lemma collectFieldNames_additive: "additive (collectFieldNames n)"
proof (induction n)
  case (ListNode ns)
  then show ?case by (subst additive_eta [of _ "fold collectFieldNames ns"]) (auto intro: additive_fold)
next
  case (PipeNode ns)
  then show ?case by (subst additive_eta [of _ "fold collectFieldNames ns"]) (auto intro: additive_fold)
next
  case (CommandNode ns)
  then show ?case by (subst additive_eta [of _ "fold collectFieldNames ns"]) (auto intro: additive_fold)
next
  case (FieldNode i)
  then show ?case by (cases i) (auto simp: additive_def)
next
  case (ActionNode n)
  then show ?case by (subst additive_eta [of _ "collectFieldNames n"]) auto
next
  case (ChainNode n f)
  then show ?case by (subst additive_eta [of _ "collectFieldNames n"]) auto
next
  case (OtherNode t)
  then show ?case by (simp add: additive_def)
next
  case (IfNode p l e)
  show ?case
  proof (cases e)
    case None
    then have "collectFieldNames (IfNode p l e) = (\<lambda>S. collectFieldNames l (collectFieldNames p S))"
      by (intro ext) simp
    with IfNode(1,2) show ?thesis by (metis additive_comp)
  next
    case (Some el)
    then have "collectFieldNames (IfNode p l e) =
        (\<lambda>S. collectFieldNames el (collectFieldNames l (collectFieldNames p S)))"
      by (intro ext) simp
    moreover have "additive (collectFieldNames el)" using IfNode(3) Some by simp
    ultimately show ?thesis using IfNode(1,2) by (metis additive_comp [OF additive_comp])
  qed
next
  case (RangeNode p l e)
  show ?case
  proof (cases e)
    case None
    then have "collectFieldNames (RangeNode p l e) = (\<lambda>S. collectFieldNames l (collectFieldNames p S))"
      by (intro ext) simp
    with RangeNode(1,2) show ?thesis by (metis additive_comp)
  next
    case (Some el)
    then have "collectFieldNames (RangeNode p l e) =
        (\<lambda>S. collectFieldNames el (collectFieldNames l (collectFieldNames p S)))"
      by (intro ext) simp
    moreover have "additive (collectFieldNames el)" using RangeNode(3) Some by simp
    ultimately show ?thesis using RangeNode(1,2) by (metis additive_comp [OF additive_comp])
  qed
next
  case (WithNode p l e)
  show ?case
  proof (cases e)
    case None
    then have "collectFieldNames (WithNode p l e) = (\<lambda>S. collectFieldNames l (collectFieldNames p S))"
      by (intro ext) simp
    with WithNode(1,2) show ?thesis by (metis additive_comp)
  next
    case (Some el)
    then have "collectFieldNames (WithNode p l e) =
        (\<lambda>S. collectFieldNames el (collectFieldNames l (collectFieldNames p S)))"
      by (intro ext) simp
    moreover have "additive (collectFieldNames el)" using WithNode(3) Some by simp
    ultimately show ?thesis using WithNode(1,2) by (metis additive_comp [OF additive_comp])
  qed
qed

text \<open>
  The nodes of a tree that the walk looks at, and the names its field references start with.
\<close>

fun walked :: "node \<Rightarrow> node set" where
  "walked (ListNode ns) = insert (ListNode ns) (\<Union>n \<in> set ns. walked n)"
| "walked (PipeNode cs) = insert (PipeNode cs) (\<Union>n \<in> set cs. walked n)"
| "walked (CommandNode as) = insert (CommandNode as) (\<Union>n \<in> set as. walked n)"
| "walked (ActionNode p) = insert (ActionNode p) (walked p)"
| "walked (ChainNode n f) = insert (ChainNode n f) (walked n)"
| "walked (IfNode p l e) = insert (IfNode p l e) (walked p \<union> walked l \<union> (\<Union>n \<in> set_option e. walked n))"
| "walked (RangeNode p l e) = insert (RangeNode p l e) (walked p \<union> walked l \<union> (\<Union>n \<in> set_option e. walked n))"
| "walked (WithNode p l e) = insert (WithNode p l e) (walked p \<union> walked l \<union> (\<Union>n \<in> set_option e. walked n))"
| "walked (FieldNode ident) = {FieldNode ident}"
| "walked (OtherNode t) = {OtherNode t}"

definition fieldNames :: "node \<Rightarrow> string set" where
  "fieldNames n = {f. \<exists>rest. FieldNode (f # rest) \<in> walked n}"

lemma collect_from: "collectFieldNames n {} = fieldNames n \<Longrightarrow> collectFieldNames n S = S \<union> fieldNames n"
  using additiveD [OF collectFieldNames_additive [of n], of S] by simp

lemma fold_collect:
  assumes "\<And>n. n \<in> set ns \<Longrightarrow> collectFieldNames n {} = fieldNames n"
  shows "fold collectFieldNames ns S = S \<union> (\<Union>n \<in> set ns. fieldNames n)"
  using assms
proof (induction ns arbitrary: S)
  case (Cons n ns)
  then show ?case using collect_from [of n S] by auto
qed simp

lemma branch_collect:
  assumes "collectFieldNames p {} = fieldNames p" and "collectFieldNames l {} = fieldNames l"
    and "\<And>n. n \<in> set_option e \<Longrightarrow> collectFieldNames n {} = fieldNames n"
  shows "(case e of None \<Rightarrow> collectFieldNames l (collectFieldNames p {})
            | Some el \<Rightarrow> collectFieldNames el (collectFieldNames l (collectFieldNames p {}))) =
    fieldNames p \<union> fieldNames l \<union> (\<Union>n \<in> set_option e. fieldNames n)"
  using assms collect_from [of l "fieldNames p"] collect_from [of "the e" "fieldNames p \<union> fieldNames l"]
  by (cases e) simp_all

lemma collectFieldNames_names: "collectFieldNames n S = S \<union> fieldNames n"
proof (rule collect_from, induction n)
  case (FieldNode ident)
  then show ?case by (cases ident) (simp_all add: fieldNames_def)
next
  case (IfNode p l e)
  from branch_collect [OF IfNode] show ?case by (auto simp: fieldNames_def)
next
  case (RangeNode p l e)
  from branch_collect [OF RangeNode] show ?case by (auto simp: fieldNames_def)
next
  case (WithNode p l e)
  from branch_collect [OF WithNode] show ?case by (auto simp: fieldNames_def)
qed (auto simp: fold_collect fieldNames_def)

text \<open>The named set of a renderer: the reserved names and the names of both templates.\<close>

lemma NewRenderer_named:
  assumes "NewRenderer e subject body reserved = Inr r"
  shows "namedFields r = (set reserved - {[]}) \<union> fieldNames (rd_subject r) \<union> fieldNames (rd_body r)"
  using assms by (auto simp: NewRenderer_def collectFieldNames_names split: sum.splits option.splits)

text \<open>The passthrough entries: unnamed fields with something other than blanks.\<close>

definition passes :: "renderer \<Rightarrow> string list \<Rightarrow> string \<Rightarrow> bool" where
  "passes r v k \<longleftrightarrow> k \<notin> namedFields r \<and> v \<noteq> [] \<and> trimSpace (join '', '' v) \<noteq> []"

lemma passes_iff: "passes r v k \<longleftrightarrow> k \<notin> namedFields r \<and> trimSpace (join '', '' v) \<noteq> []"
  by (cases "v = []") (simp_all add: passes_def)

lemma extraFields_set: "set (extraFields r form) = {(k, join '', '' v) | k v. (k, v) \<in> set form \<and> passes r v k}"
  by (force simp: extraFields_def passes_def Let_def List.map_filter_def split: if_splits)

lemma map_filter_distinct:
  assumes "distinct (map fst m)" and "\<And>k v w. f (k, v) = Some w \<Longrightarrow> fst w = k"
  shows "distinct (map fst (List.map_filter f m))"
  using assms(1)
proof (induction m)
  case Nil
  then show ?case by (simp add: List.map_filter_def)
next
  case (Cons p m)
  obtain k v where p: "p = (k, v)" by (cases p)
  have "fst ` set (List.map_filter f m) \<subseteq> fst ` set m"
    using assms(2) by (force simp: List.map_filter_def)
  with Cons p show ?case
    by (cases "f (k, v)") (auto simp: map_filter_simps dest: assms(2))
qed

lemma extraFields_distinct: "distinct (map fst form) \<Longrightarrow> distinct (map fst (extraFields r form))"
  unfolding extraFields_def by (rule map_filter_distinct) (auto simp: Let_def split: if_splits)

lemma flattenForm_distinct: "distinct (map fst form) \<Longrightarrow> distinct (map fst (flattenForm form))"
  unfolding flattenForm_def by (rule map_filter_distinct) (auto split: list.splits)

lemma map_filter_same:
  assumes "sameMap m m'" and "\<And>k v w. f (k, v) = Some w \<Longrightarrow> fst w = k"
  shows "sameMap (List.map_filter f m) (List.map_filter f m')"
proof -
  have d: "distinct (map fst (List.map_filter f m))" "distinct (map fst (List.map_filter f m'))"
    using assms by (auto simp: sameMap_def intro: map_filter_distinct)
  moreover have "set (List.map_filter f m) = set (List.map_filter f m')"
    using sameMap_set [OF assms(1)] by (auto simp: List.map_filter_def)
  ultimately show ?thesis unfolding sameMap_def by (metis map_of_inject_set)
qed

lemma flattenForm_same: "sameMap form form' \<Longrightarrow> sameMap (flattenForm form) (flattenForm form')"
  unfolding flattenForm_def by (rule map_filter_same) (auto split: list.splits)

lemma extraFields_same: "sameMap form form' \<Longrightarrow> sameMap (extraFields r form) (extraFields r form')"
  unfolding extraFields_def by (rule map_filter_same) (auto simp: Let_def split: if_splits)

text \<open>
  The block: a blank line, a heading, and for each entry two blanks, the key, a colon, a blank, the
  value and a line feed.
\<close>

definition passthroughBlock :: "(string \<times> string) list \<Rightarrow> string" where
  "passthroughBlock entries =
     (if entries = [] then []
      else CHR 0x0A # ''Additional fields:'' @ CHR 0x0A # concat (map (\<lambda>(k, v). ''  '' @ k @ '': '' @ v @ [CHR 0x0A]) entries))"

lemma block_lines:
  assumes "distinct (map fst m)"
  shows "map (\<lambda>k. fieldLine k (the (map_of m k))) (sort (map fst m)) =
    map (\<lambda>(k, v). ''  '' @ k @ '': '' @ v @ [CHR 0x0A]) (sort_key fst m)"
proof -
  have "fieldLine (fst p) (the (map_of m (fst p))) = (case p of (k, v) \<Rightarrow> ''  '' @ k @ '': '' @ v @ [CHR 0x0A])"
    if "p \<in> set m" for p
    using map_of_is_SomeI [OF assms, of "fst p" "snd p"] that by (simp add: case_prod_unfold fieldLine_def)
  then show ?thesis by (simp add: sort_map_fst comp_def)
qed

text \<open>RenderBody writes the body, ends its last line, and appends the block.\<close>

lemma RenderBody_eq:
  assumes "distinct (map fst form)"
  shows "RenderBody e r form =
           map_option (\<lambda>buf. if extraFields r form = [] then buf
             else (if hasSuffix buf [CHR 0x0A] then buf else buf @ [CHR 0x0A]) @
                  passthroughBlock (sort_key fst (extraFields r form)))
             (tplExec e (rd_body r) (map_of (flattenForm form)))"
proof -
  have "sort_key fst m \<noteq> []" if "m \<noteq> []" for m :: "(string \<times> string) list"
    using that by (metis length_0_conv length_sort)
  then show ?thesis
    using block_lines [OF extraFields_distinct [OF assms]]
    by (simp add: RenderBody_def passthroughBlock_def Let_def split: option.split)
qed

text \<open>What a template sees of a form: each field that has a value, several joined by comma and blank.\<close>

definition templateData :: "values_map \<Rightarrow> string \<Rightarrow> string option" where
  "templateData form k = (if \<exists>v vs. map_of form k = Some (v # vs) then Some (join '', '' (the (map_of form k))) else None)"

lemma flattenForm_data: "distinct (map fst form) \<Longrightarrow> map_of (flattenForm form) = templateData form"
proof (induction form)
  case Nil
  show ?case by (rule ext) (simp add: flattenForm_def map_filter_simps templateData_def)
next
  case (Cons p form)
  obtain k vs where p: "p = (k, vs)" by (cases p)
  have flat: "flattenForm ((k, vs) # form) = (if vs = [] then [] else [(k, join '', '' vs)]) @ flattenForm form"
    unfolding flattenForm_def map_filter_simps by (cases vs; cases "tl vs") simp_all
  have IH: "map_of (flattenForm form) = templateData form" using Cons by simp
  have "map_of form k = None" using Cons.prems p by (simp add: map_of_eq_None_iff)
  then have "templateData form k = None" unfolding templateData_def by simp
  then show ?case
    unfolding p by (intro ext) (auto simp: flat IH templateData_def neq_Nil_conv)
qed

subsection \<open>Properties\<close>

text \<open>
  C22: No submitted field is lost, and none the operator accounted for is repeated. The rendered
  body is the template's output, its last line ended, and behind it a heading and one entry, its
  key and its values written out as in \<open>passthroughBlock\<close>, for every form field that has something
  other than blanks and is neither a reserved name nor mentioned by a template, in key order;
  without such a field it is the template's output alone.
\<close>
theorem RenderBody_passthrough:
  assumes "NewRenderer e subject body reserved = Inr r" and "distinct (map fst form)"
    and "RenderBody e r form = Some out"
  shows "\<exists>buf entries.
           tplExec e (rd_body r) (templateData form) = Some buf \<and>
           out = (if entries = [] then buf
                  else (if hasSuffix buf [CHR 0x0A] then buf else buf @ [CHR 0x0A]) @ passthroughBlock entries) \<and>
           sorted (map fst entries) \<and> distinct (map fst entries) \<and>
           set entries = {(k, join '', '' v) | k v. (k, v) \<in> set form \<and>
              k \<notin> (set reserved - {[]}) \<union> fieldNames (rd_subject r) \<union> fieldNames (rd_body r) \<and>
              trimSpace (join '', '' v) \<noteq> []}"
proof -
  let ?es = "sort_key fst (extraFields r form)"
  obtain buf where buf: "tplExec e (rd_body r) (templateData form) = Some buf"
      "out = (if extraFields r form = [] then buf
              else (if hasSuffix buf [CHR 0x0A] then buf else buf @ [CHR 0x0A]) @ passthroughBlock ?es)"
    using assms(3) unfolding RenderBody_eq [OF assms(2)] flattenForm_data [OF assms(2)] by auto
  moreover have "?es = [] \<longleftrightarrow> extraFields r form = []" by (metis length_0_conv length_sort)
  moreover have "distinct (map fst ?es)"
    using extraFields_distinct [OF assms(2), of r] by (simp add: distinct_map)
  moreover have "set ?es = {(k, join '', '' v) | k v. (k, v) \<in> set form \<and>
              k \<notin> (set reserved - {[]}) \<union> fieldNames (rd_subject r) \<union> fieldNames (rd_body r) \<and>
              trimSpace (join '', '' v) \<noteq> []}"
    unfolding set_sort extraFields_set passes_iff NewRenderer_named [OF assms(1)] by (rule refl)
  ultimately show ?thesis by (intro exI [of _ buf] exI [of _ ?es]) simp
qed

text \<open>A toy engine: a template is one field reference in braces, or text.\<close>

definition sampleEngine :: engine where
  "sampleEngine =
     \<lparr>tplParse = (\<lambda>s. Some (if hasPrefix s ''{{.'' then FieldNode [takeWhile (\<lambda>c. c \<noteq> CHR ''}'') (drop 3 s)] else OtherNode s)),
      tplExec = (\<lambda>n m. case n of FieldNode [f] \<Rightarrow> Some (case m f of None \<Rightarrow> [] | Some v \<Rightarrow> v) | OtherNode s \<Rightarrow> Some s | _ \<Rightarrow> None),
      statFile = (\<lambda>_. NoFile)\<rparr>"

definition sampleRenderer :: renderer where
  "sampleRenderer =
     \<lparr>rd_subject = OtherNode ''hi'', rd_body = FieldNode [''msg''], namedFields = {''email'', ''msg''}\<rparr>"

lemma sampleRenderer_new: "NewRenderer sampleEngine ''hi'' ''{{.msg}}'' [''email''] = Inr sampleRenderer"
  by (auto simp: NewRenderer_def loadBodyTemplate_def sampleEngine_def sampleRenderer_def)

definition sampleForm :: values_map where
  "sampleForm = [(''msg'', [''hello'']), (''email'', [''a@b.c'']), (''z'', [''1'', ''2'']), (''a'', [''x''])]"

lemma sampleRender:
  "RenderBody sampleEngine sampleRenderer sampleForm =
     Some (''hello'' @ [CHR 0x0A, CHR 0x0A] @ ''Additional fields:'' @ CHR 0x0A # fieldLine ''a'' ''x'' @ fieldLine ''z'' ''1, 2'')"
proof -
  have "trimSpace ''1, 2'' = ''1, 2''" "trimSpace ''x'' = ''x''"
    by (rule trimSpace_graphic; simp add: graphic_def)+
  then have "extraFields sampleRenderer sampleForm = [(''z'', ''1, 2''), (''a'', ''x'')]"
    by (simp add: extraFields_def sampleRenderer_def sampleForm_def map_filter_simps)
  moreover have "sort [''z'', ''a''] = [''a'', ''z'']"
    by (simp add: less_eq_char_def less_char_def)
  ultimately show ?thesis
    by (simp add: RenderBody_def sampleRenderer_def sampleEngine_def flattenForm_def sampleForm_def
        map_filter_simps hasSuffix_def)
qed

lemma sorted_two:
  assumes "set es = {(k, v), (k', v')}" and "sorted (map fst es)" and "distinct (map fst es)" and "k < (k' :: string)"
  shows "es = [(k, v), (k', v')]"
proof (rule map_sorted_distinct_set_unique [of fst])
  show "inj_on fst (set es \<union> set [(k, v), (k', v')])" using assms(1,4) by (auto simp: inj_on_def)
qed (use assms in auto)

theorem RenderBody_passthrough_witness:
  "RenderBody sampleEngine sampleRenderer sampleForm =
     Some (concat (map (\<lambda>l. l @ [CHR 0x0A]) [''hello'', [], ''Additional fields:'', ''  a: x'', ''  z: 1, 2'']))"
proof -
  have trim: "trimSpace ''1, 2'' = ''1, 2''" "trimSpace ''x'' = ''x''"
    by (rule trimSpace_graphic; simp add: graphic_def)+
  have "distinct (map fst sampleForm)" by (simp add: sampleForm_def)
  from RenderBody_passthrough [OF sampleRenderer_new this sampleRender]
  obtain buf entries where buf: "tplExec sampleEngine (rd_body sampleRenderer) (templateData sampleForm) = Some buf"
    and out: "the (RenderBody sampleEngine sampleRenderer sampleForm) = (if entries = [] then buf
                  else (if hasSuffix buf [CHR 0x0A] then buf else buf @ [CHR 0x0A]) @ passthroughBlock entries)"
    and s: "sorted (map fst entries)" "distinct (map fst entries)"
    and e: "set entries = {(k, join '', '' v) | k v. (k, v) \<in> set sampleForm \<and>
              k \<notin> (set [''email''] - {[]}) \<union> fieldNames (rd_subject sampleRenderer) \<union> fieldNames (rd_body sampleRenderer) \<and>
              trimSpace (join '', '' v) \<noteq> []}"
    unfolding sampleRender option.sel by blast
  have "set entries = {(''a'', ''x''), (''z'', ''1, 2'')}"
    unfolding e using trim by (auto simp: sampleForm_def sampleRenderer_def fieldNames_def)
  then have "entries = [(''a'', ''x''), (''z'', ''1, 2'')]"
    using s by (intro sorted_two) (simp_all add: less_char_def)
  moreover have "buf = ''hello''"
    using buf by (simp add: sampleEngine_def sampleRenderer_def templateData_def sampleForm_def)
  ultimately have "the (RenderBody sampleEngine sampleRenderer sampleForm) =
      concat (map (\<lambda>l. l @ [CHR 0x0A]) [''hello'', [], ''Additional fields:'', ''  a: x'', ''  z: 1, 2''])"
    unfolding out by (simp add: hasSuffix_def passthroughBlock_def)
  with sampleRender show ?thesis by (metis option.sel)
qed

text \<open>
  Rendering does not depend on the order in which Go ranges over the form: two orders of
  the same form give the same subject and the same body.
\<close>
lemma rendering_is_deterministic:
  assumes "sameMap form form'"
  shows "RenderSubject e r form = RenderSubject e r form' \<and> RenderBody e r form = RenderBody e r form'"
proof -
  have flat: "map_of (flattenForm form) = map_of (flattenForm form')"
    using flattenForm_same [OF assms] by (simp add: sameMap_def)
  note extra = extraFields_same [OF assms, of r]
  have "extraFields r form = [] \<longleftrightarrow> extraFields r form' = []"
    using sameMap_set [OF extra] by (metis set_empty)
  moreover have "distinct (map fst form)" "distinct (map fst form')" using assms by (simp_all add: sameMap_def)
  ultimately show ?thesis
    using flat sameMap_sort [OF extra] by (simp add: RenderSubject_def RenderBody_eq cong: if_cong)
qed

lemma rendering_is_deterministic_witness:
  "RenderBody sampleEngine sampleRenderer sampleForm = RenderBody sampleEngine sampleRenderer (rev sampleForm)"
proof -
  have "sameMap sampleForm (rev sampleForm)" by (auto simp: sameMap_def sampleForm_def)
  from rendering_is_deterministic [OF this] show ?thesis by blast
qed

end
