(* ===== verification/Spam.thy ===== *)
theory Spam
  imports Std Http
begin

text \<open>
  core/spam/spam.go: the honeypot check, the Origin and Referer check, and the size strings
  of the configuration.
\<close>

datatype spam_result = Pass | SilentReject | HardReject

definition CheckHoneypot :: "values_map \<Rightarrow> string \<Rightarrow> spam_result" where
  "CheckHoneypot form fieldName =
     (if fieldName = [] then Pass
      else (case map_of form fieldName of
              None \<Rightarrow> Pass
            | Some vs \<Rightarrow> if list_ex (\<lambda>v. trimSpace v \<noteq> []) vs then SilentReject else Pass))"

subsection \<open>Origins\<close>

definition normalizeOrigin :: "gostd \<Rightarrow> string \<Rightarrow> string option" where
  "normalizeOrigin g raw =
     (case urlParse g raw of
        None \<Rightarrow> None
      | Some u \<Rightarrow>
          if url_scheme u = [] \<or> url_host u = [] then None
          else Some (ToLower g (url_scheme u) @ ''://'' @ ToLower g (url_host u)))"

definition originFromReferer :: "gostd \<Rightarrow> string \<Rightarrow> string option" where
  "originFromReferer g referer =
     (case urlParse g referer of
        None \<Rightarrow> None
      | Some u \<Rightarrow>
          if url_scheme u = [] \<or> url_host u = [] then None
          else Some (url_scheme u @ ''://'' @ url_host u))"

definition matchesAllowed :: "gostd \<Rightarrow> string \<Rightarrow> string list \<Rightarrow> bool" where
  "matchesAllowed g candidate allowed =
     (case normalizeOrigin g candidate of
        None \<Rightarrow> False
      | Some candNorm \<Rightarrow>
          list_ex (\<lambda>a. case normalizeOrigin g a of None \<Rightarrow> False | Some allowNorm \<Rightarrow> candNorm = allowNorm) allowed)"

datatype origin_reason = NoReason | BothMissing | NotInAllowList string string

text \<open>The reason as it is logged; \<open>quote\<close> is the verb q of package fmt.\<close>

fun reasonText :: "(string \<Rightarrow> string) \<Rightarrow> origin_reason \<Rightarrow> string" where
  "reasonText quote NoReason = []"
| "reasonText quote BothMissing = ''Origin and Referer both missing''"
| "reasonText quote (NotInAllowList orig ref) =
     ''origin not in allow-list: origin='' @ quote orig @ '' referer='' @ quote ref"

definition CheckOrigin :: "gostd \<Rightarrow> string \<Rightarrow> string \<Rightarrow> string list \<Rightarrow> spam_result \<times> origin_reason" where
  "CheckOrigin g originHeader refererHeader allowed =
     (if allowed = [] then (Pass, NoReason)
      else if originHeader = [] \<and> refererHeader = [] then (HardReject, BothMissing)
      else if originHeader \<noteq> [] \<and> matchesAllowed g originHeader allowed then (Pass, NoReason)
      else if refererHeader \<noteq> [] \<and>
              (case originFromReferer g refererHeader of
                 None \<Rightarrow> False | Some refOrigin \<Rightarrow> matchesAllowed g refOrigin allowed)
      then (Pass, NoReason)
      else (HardReject, NotInAllowList originHeader refererHeader))"

definition ExtractOriginAndReferer :: "http_request \<Rightarrow> string \<times> string" where
  "ExtractOriginAndReferer r = (headerGet (r_header r) ''Origin'', headerGet (r_header r) ''Referer'')"

subsection \<open>Sizes\<close>

datatype size_error = SizeSyntax string | SizeNegative int

definition ParseSize :: "gostd \<Rightarrow> string \<Rightarrow> size_error + int" where
  "ParseSize g str =
     (let s = trimSpace str in
      if s = [] then Inr 0
      else
        (let upper = ToUpper g s;
             (digits, multiplier) =
               (if hasSuffix upper ''GB'' then (take (length upper - 2) upper, 1024 * 1024 * 1024)
                else if hasSuffix upper ''MB'' then (take (length upper - 2) upper, 1024 * 1024)
                else if hasSuffix upper ''KB'' then (take (length upper - 2) upper, 1024)
                else if hasSuffix upper ''B'' then (take (length upper - 1) upper, 1)
                else (upper, 1))
         in case parseInt (trimSpace digits) of
              None \<Rightarrow> Inl (SizeSyntax digits)
            | Some n \<Rightarrow> if n < 0 then Inl (SizeNegative n) else Inr (wrap64 (n * multiplier))))"

subsection \<open>Lemmas\<close>

lemma CheckHoneypot_cases: "CheckHoneypot form f = Pass \<or> CheckHoneypot form f = SilentReject"
  by (simp add: CheckHoneypot_def split: option.splits)

text \<open>The scheme and host a string names, in lower case: the identity of an origin.\<close>

definition originOf :: "gostd \<Rightarrow> string \<Rightarrow> (string \<times> string) option" where
  "originOf g raw =
     (case urlParse g raw of
        None \<Rightarrow> None
      | Some u \<Rightarrow> if url_scheme u = [] \<or> url_host u = [] then None
                  else Some (ToLower g (url_scheme u), ToLower g (url_host u)))"

text \<open>url.Parse accepts only ASCII schemes without a colon.\<close>

definition schemesAscii :: "gostd \<Rightarrow> bool" where
  "schemesAscii g \<longleftrightarrow>
     (\<forall>s u. urlParse g s = Some u \<longrightarrow> list_all (\<lambda>c. ascii c \<and> c \<noteq> CHR '':'') (url_scheme u))"

lemma lowerByte_range:
  assumes "lowerByte c \<noteq> c"
  shows "97 \<le> (of_char (lowerByte c) :: nat) \<and> of_char (lowerByte c) \<le> (122::nat)"
proof -
  have r: "65 \<le> (of_char c :: nat) \<and> of_char c \<le> (90::nat)"
    using assms by (rule contrapos_np) (auto simp: lowerByte_def Let_def)
  then have "lowerByte c = char_of (of_char c + 32 :: nat)" by (simp add: lowerByte_def Let_def)
  then have "(of_char (lowerByte c) :: nat) = of_char c + 32" using r by (simp add: of_char_of)
  with r show ?thesis by simp
qed

lemma lowerByte_colon: "lowerByte c = CHR '':'' \<Longrightarrow> c = CHR '':''"
  using lowerByte_range [of c] by force

lemma ToLower_no_colon:
  "list_all (\<lambda>c. ascii c \<and> c \<noteq> CHR '':'') s \<Longrightarrow> CHR '':'' \<notin> set (ToLower g s)"
  by (auto simp: toLower_def list_all_iff dest!: lowerByte_colon [OF sym])

lemma append_sep_eq:
  "b \<notin> set x \<Longrightarrow> b \<notin> set x' \<Longrightarrow> x @ b # y = x' @ b # y' \<longleftrightarrow> x = x' \<and> y = y'"
proof (induction x arbitrary: x')
  case Nil
  then show ?case by (cases x') auto
next
  case (Cons a x)
  then show ?case by (cases x') auto
qed

lemma normalizeOrigin_originOf:
  "normalizeOrigin g raw = map_option (\<lambda>(s, h). s @ ''://'' @ h) (originOf g raw)"
  by (simp add: normalizeOrigin_def originOf_def split: option.split)

lemma originOf_scheme:
  "schemesAscii g \<Longrightarrow> originOf g raw = Some (s, h) \<Longrightarrow> CHR '':'' \<notin> set s"
  unfolding originOf_def schemesAscii_def
  by (auto split: option.splits if_splits dest!: spec ToLower_no_colon)

text \<open>Matching is equality of origins.\<close>

lemma matchesAllowed_iff:
  assumes "schemesAscii g"
  shows "matchesAllowed g c allowed \<longleftrightarrow> originOf g c \<noteq> None \<and> originOf g c \<in> originOf g ` set allowed"
proof (cases "originOf g c")
  case None
  then show ?thesis by (simp add: matchesAllowed_def normalizeOrigin_originOf)
next
  case (Some p)
  obtain s h where p: "p = (s, h)" by (cases p)
  define u where "u = s @ ''://'' @ h"
  have c: "normalizeOrigin g c = Some u" by (simp add: normalizeOrigin_originOf Some p u_def)
  have "(case normalizeOrigin g a of None \<Rightarrow> False | Some n \<Rightarrow> u = n) \<longleftrightarrow> originOf g a = Some p" for a
    using originOf_scheme [OF assms, of c s h] originOf_scheme [OF assms, of a] Some p
    by (auto simp: normalizeOrigin_originOf append_sep_eq u_def split: option.split)
  then have "matchesAllowed g c allowed \<longleftrightarrow> (\<exists>a \<in> set allowed. originOf g a = Some p)"
    by (simp add: matchesAllowed_def c list_ex_iff)
  then show ?thesis unfolding Some by (metis image_iff option.distinct(1))
qed

lemma trimSpace_digits:
  assumes "0 \<le> n"
  shows "trimSpace (formatInt n) = formatInt n"
proof (rule trimSpace_graphic)
  have digit: "graphic c" if "c \<in> set (formatInt n)" for c
    using formatInt_chars [OF that] by (auto simp: isDigit_def graphic_def Let_def)
  show ne: "formatInt n \<noteq> []" by (simp add: formatInt_def)
  from ne digit show "graphic (hd (formatInt n))" "graphic (last (formatInt n))" by simp_all
qed

lemma upperByte_digit: "isDigit c \<Longrightarrow> upperByte c = c \<and> ascii c"
  by (simp add: isDigit_def upperByte_def ascii_def Let_def)

lemma hasSuffix_append [simp]: "hasSuffix (a @ s) s"
  by (auto simp: hasSuffix_iff)

lemma hasSuffix_last: "hasSuffix s p \<Longrightarrow> p \<noteq> [] \<Longrightarrow> s \<noteq> [] \<and> last s = last p"
  by (auto simp: hasSuffix_iff)

subsection \<open>Properties\<close>

text \<open>
  C19: The origin check is an allow-list on two headers and fails closed. With allowed origins
  configured, a request passes exactly when its Origin header, or the origin part of its Referer,
  names the same scheme and host (letter case aside) as an entry of the list. One of the two is
  enough: a listed Referer lets a request pass whose Origin is not listed. A request without both
  headers, or whose headers do not parse, is rejected.
\<close>
theorem CheckOrigin_is_allow_list:
  assumes "schemesAscii g" and "allowed \<noteq> []"
  shows "fst (CheckOrigin g orig ref allowed) =
           (if \<exists>p \<in> originOf g ` set allowed. p \<noteq> None \<and>
              (orig \<noteq> [] \<and> originOf g orig = p \<or>
               ref \<noteq> [] \<and> (\<exists>u. urlParse g ref = Some u \<and> url_scheme u \<noteq> [] \<and> url_host u \<noteq> [] \<and>
                              originOf g (url_scheme u @ ''://'' @ url_host u) = p))
            then Pass else HardReject)"
proof -
  have "fst (CheckOrigin g orig ref allowed) = Pass \<longleftrightarrow>
          orig \<noteq> [] \<and> matchesAllowed g orig allowed \<or>
          ref \<noteq> [] \<and> (\<exists>r. originFromReferer g ref = Some r \<and> matchesAllowed g r allowed)"
    using assms(2) by (auto simp: CheckOrigin_def split: option.splits)
  then have "fst (CheckOrigin g orig ref allowed) = Pass \<longleftrightarrow>
           (\<exists>p \<in> originOf g ` set allowed. p \<noteq> None \<and>
              (orig \<noteq> [] \<and> originOf g orig = p \<or>
               ref \<noteq> [] \<and> (\<exists>r. originFromReferer g ref = Some r \<and> originOf g r = p)))"
    unfolding matchesAllowed_iff [OF assms(1)] by metis
  moreover have "originFromReferer g ref = Some r \<longleftrightarrow> (\<exists>u. urlParse g ref = Some u \<and> url_scheme u \<noteq> [] \<and> url_host u \<noteq> [] \<and>
      r = url_scheme u @ ''://'' @ url_host u)" for r
    by (auto simp: originFromReferer_def split: option.splits if_splits)
  moreover have "fst (CheckOrigin g orig ref allowed) = Pass \<or> fst (CheckOrigin g orig ref allowed) = HardReject"
    by (simp add: CheckOrigin_def)
  ultimately show ?thesis by auto
qed

text \<open>The Referer is looked at also when there is an Origin and it is not listed.\<close>

lemma listed_referer_overrides_origin:
  assumes "ref \<noteq> []" and "originFromReferer g ref = Some refOrigin" and "matchesAllowed g refOrigin allowed"
  shows "fst (CheckOrigin g orig ref allowed) = Pass"
  using assms by (simp add: CheckOrigin_def)

lemma sample_schemes: "schemesAscii (sampleStd\<lparr>urlParse := \<lambda>s. Some \<lparr>url_scheme = ''https'', url_host = drop 8 s, url_escPath = [], url_query = []\<rparr>\<rparr>)"
  by (auto simp: schemesAscii_def ascii_def)

lemma lower_sample: "lowerByte CHR ''A'' = CHR ''a''" "lowerByte CHR ''a'' = CHR ''a''" "lowerByte CHR ''b'' = CHR ''b''"
  by code_simp+

theorem CheckOrigin_is_allow_list_witness:
  "let g = sampleStd\<lparr>urlParse := \<lambda>s. Some \<lparr>url_scheme = ''https'', url_host = drop 8 s, url_escPath = [], url_query = []\<rparr>\<rparr> in
   fst (CheckOrigin g ''https://A.example'' [] [''https://a.example'']) = Pass \<and>
   fst (CheckOrigin g ''https://b.example'' [] [''https://a.example'']) = HardReject \<and>
   fst (CheckOrigin g ''https://b.example'' ''https://a.example'' [''https://a.example'']) = Pass"
  unfolding Let_def
  using CheckOrigin_is_allow_list [OF sample_schemes, of "[''https://a.example'']" "''https://A.example''" "[]"]
    CheckOrigin_is_allow_list [OF sample_schemes, of "[''https://a.example'']" "''https://b.example''" "[]"]
    CheckOrigin_is_allow_list [OF sample_schemes, of "[''https://a.example'']" "''https://b.example''" "''https://a.example''"]
  by (simp add: originFromReferer_def originOf_def toLower_def ascii_def lower_sample)

text \<open>
  Sizes. A non-negative number, alone or followed by one of the units B, KB, MB, GB,
  parses to the number of bytes it denotes, as long as that fits 63 bits.
\<close>
lemma ParseSize_value:
  assumes "0 \<le> n" and "(suffix, m) \<in> {('''', 1), (''B'', 1), (''KB'', 2 ^ 10), (''MB'', 2 ^ 20), (''GB'', 2 ^ 30)}"
    and "n * m < 2 ^ 63"
  shows "ParseSize g (formatInt n @ suffix) = Inr (n * m)"
proof -
  have digit: "isDigit c" if "c \<in> set (formatInt n)" for c
    using that assms(1) by (auto simp: formatInt_def dest: showNat_digits)
  have ne: "formatInt n \<noteq> []" by (simp add: formatInt_def)
  then have ends: "isDigit (hd (formatInt n))" "isDigit (last (formatInt n))" by (simp_all add: digit)
  have trim: "trimSpace (formatInt n @ suffix) = formatInt n @ suffix"
    using ends ne assms(2) by (intro trimSpace_graphic) (auto simp: graphic_def isDigit_def Let_def)
  have upper: "ToUpper g (formatInt n @ suffix) = formatInt n @ suffix"
    using digit upperByte_digit assms(2)
    by (auto simp: toUpper_def list_all_iff ascii_def upperByte_def intro!: map_idI)
  obtain xs d where fm: "formatInt n = xs @ [d]" "isDigit d" using ne ends(2) by (metis append_butlast_last_id)
  then have no: "\<not> hasSuffix (formatInt n @ s) u" if "(s, u) \<in>
      {('''', ''B''), (''B'', ''KB''), (''B'', ''MB''), (''B'', ''GB''), ('''', ''KB''), ('''', ''MB''), ('''', ''GB''),
       (''KB'', ''GB''), (''KB'', ''MB''), (''MB'', ''GB'')}" for s u
    using that by (auto simp: hasSuffix_def isDigit_def)
  have n: "parseInt (trimSpace (formatInt n)) = Some n"
    using assms by (auto simp: trimSpace_digits parseInt_formatInt)
  have w: "wrap64 (n * m) = n * m"
    using assms by (intro wrap64_id) (auto intro: order_trans [of _ 0])
  have none: "\<not> hasSuffix (formatInt n) u" if "u \<in> {''B'', ''KB'', ''MB'', ''GB''}" for u
    using no [of "[]" u] that by auto
  note facts = ne trim upper n w assms(1) none [of "''B''"] none [of "''KB''"] none [of "''MB''"]
    none [of "''GB''"] no [of "''B''" "''KB''"] no [of "''B''" "''MB''"] no [of "''B''" "''GB''"]
    no [of "''KB''" "''MB''"] no [of "''KB''" "''GB''"] no [of "''MB''" "''GB''"]
  from assms(2) consider (none) "suffix = []" "m = 1" | (B) "suffix = ''B''" "m = 1"
    | (KB) "suffix = ''KB''" "m = 1024" | (MB) "suffix = ''MB''" "m = 1048576"
    | (GB) "suffix = ''GB''" "m = 1073741824" by auto
  then show ?thesis by cases (use facts in \<open>simp_all add: ParseSize_def Let_def\<close>)
qed

lemma ParseSize_value_witness: "ParseSize sampleStd ''32MB'' = Inr 33554432"
proof -
  have "formatInt 32 = ''32''" by code_simp
  with ParseSize_value [of 32 "''MB''" "2 ^ 20" sampleStd] show ?thesis by simp
qed

text \<open>
  The product of number and unit is an int64 that wraps: a size past the end of the range
  turns into a negative cap, or into 0, which the handler takes for no cap at all.
\<close>

lemma ParseSize_overflow:
  "ParseSize g ''8589934592GB'' = Inr (- (2 ^ 63))"
  "ParseSize g ''17179869184GB'' = Inr 0"
proof -
  have "trimSpace ''8589934592GB'' = ''8589934592GB''" "trimSpace ''17179869184GB'' = ''17179869184GB''"
    "trimSpace ''8589934592'' = ''8589934592''" "trimSpace ''17179869184'' = ''17179869184''"
    by (rule trimSpace_graphic; simp add: graphic_def)+
  then show "ParseSize g ''8589934592GB'' = Inr (- (2 ^ 63))" "ParseSize g ''17179869184GB'' = Inr 0"
    by (simp_all add: ParseSize_def toUpper_def ascii_def upperByte_def hasSuffix_def parseInt_def
        isDigit_def digitVal_def wrap64_def)
qed

end
