(* ===== verification/ProxyIP.thy ===== *)
theory ProxyIP
  imports NetIP Http
begin

text \<open>
  core/ratelimit/ratelimit.go and presets.go: the client address behind trusted proxies, and
  the trusted-proxy presets.
\<close>

subsection \<open>Client address\<close>

definition ipInPrefixes :: "string \<Rightarrow> prefix list \<Rightarrow> bool" where
  "ipInPrefixes ipStr prefixes =
     (case parseAddr ipStr of
        None \<Rightarrow> False
      | Some a \<Rightarrow> list_ex (\<lambda>p. prefixContains p a) prefixes)"

definition remoteIP :: "http_request \<Rightarrow> string" where
  "remoteIP r =
     (case splitHostPort (r_remoteAddr r) of
        None \<Rightarrow> r_remoteAddr r
      | Some (host, port) \<Rightarrow> host)"

text \<open>The walk from right to left: the first non-blank entry outside the trusted ranges.\<close>

fun rightmostUntrusted :: "prefix list \<Rightarrow> string list \<Rightarrow> string option" where
  "rightmostUntrusted trusted [] = None"
| "rightmostUntrusted trusted (part # parts) =
     (let candidate = trimSpace part in
      if candidate = [] then rightmostUntrusted trusted parts
      else if \<not> ipInPrefixes candidate trusted then Some candidate
      else rightmostUntrusted trusted parts)"

definition ClientIP :: "http_request \<Rightarrow> prefix list \<Rightarrow> string" where
  "ClientIP r trustedProxies =
     (let remote = remoteIP r in
      if trustedProxies = [] then remote
      else if \<not> ipInPrefixes remote trustedProxies then remote
      else
        (let xff = headerGet (r_header r) ''X-Forwarded-For'' in
         if xff = [] then remote
         else
           (let parts = splitOn CHR '','' xff in
            case rightmostUntrusted trustedProxies (rev parts) of
              Some candidate \<Rightarrow> candidate
            | None \<Rightarrow> (let first = trimSpace (hd parts) in if first \<noteq> [] then first else remote))))"

subsection \<open>Presets and prefix lists\<close>

definition Presets :: "(string \<times> string list) list" where
  "Presets =
     [(''cloudflare'',
        [''173.245.48.0/20'', ''103.21.244.0/22'', ''103.22.200.0/22'', ''103.31.4.0/22'',
         ''141.101.64.0/18'', ''108.162.192.0/18'', ''190.93.240.0/20'', ''188.114.96.0/20'',
         ''197.234.240.0/22'', ''198.41.128.0/17'', ''162.158.0.0/15'', ''104.16.0.0/13'',
         ''104.24.0.0/14'', ''172.64.0.0/13'', ''131.0.72.0/22'',
         ''2400:cb00::/32'', ''2606:4700::/32'', ''2803:f800::/32'', ''2405:b500::/32'',
         ''2405:8100::/32'', ''2a06:98c0::/29'', ''2c0f:f248::/32'']),
      (''aws-elb'', []), (''gcp-lb'', []), (''azure-front-door'', [])]"

definition IsPreset :: "string \<Rightarrow> bool" where
  "IsPreset name = (map_of Presets name \<noteq> None)"

datatype prefix_error = PresetCIDR string string | BadCIDR string

fun parseAll :: "(string \<Rightarrow> prefix_error) \<Rightarrow> string list \<Rightarrow> prefix_error + prefix list" where
  "parseAll err [] = Inr []"
| "parseAll err (c # cs) =
     (case parsePrefix c of
        None \<Rightarrow> Inl (err c)
      | Some p \<Rightarrow> map_sum id (\<lambda>ps. p # ps) (parseAll err cs))"

fun ParsePrefixes :: "string list \<Rightarrow> prefix_error + prefix list" where
  "ParsePrefixes [] = Inr []"
| "ParsePrefixes (item # items) =
     (case (if IsPreset item
            then parseAll (PresetCIDR item) (the (map_of Presets item))
            else parseAll BadCIDR [item]) of
        Inl e \<Rightarrow> Inl e
      | Inr ps \<Rightarrow> map_sum id (\<lambda>out. ps @ out) (ParsePrefixes items))"


subsection \<open>Lemmas\<close>

lemma rightmostUntrusted_append:
  "rightmostUntrusted trusted (xs @ ys) =
     (case rightmostUntrusted trusted xs of None \<Rightarrow> rightmostUntrusted trusted ys | Some c \<Rightarrow> Some c)"
  by (induction xs) (auto simp: Let_def)

lemma rightmostUntrusted_None:
  "rightmostUntrusted trusted xs = None \<longleftrightarrow>
   (\<forall>x \<in> set xs. trimSpace x = [] \<or> ipInPrefixes (trimSpace x) trusted)"
  by (induction xs) (auto simp: Let_def)

lemma rightmostUntrusted_Some:
  "rightmostUntrusted trusted xs = Some c \<Longrightarrow>
   c \<noteq> [] \<and> \<not> ipInPrefixes c trusted \<and> c \<in> trimSpace ` set xs"
  by (induction xs) (auto simp: Let_def split: if_splits)

lemma parseAll_ok:
  "list_all (\<lambda>c. case parsePrefix c of None \<Rightarrow> False | Some _ \<Rightarrow> True) cs \<Longrightarrow>
   parseAll err cs = Inr (map (the \<circ> parsePrefix) cs)"
  by (induction cs) (auto split: option.splits)

lemma Presets_parse:
  "list_all (\<lambda>(name, cs). list_all (\<lambda>c. case parsePrefix c of None \<Rightarrow> False | Some _ \<Rightarrow> True) cs) Presets"
  by (simp add: Presets_def parse_eval)

lemma parseAll_preset:
  assumes "IsPreset n"
  shows "parseAll (PresetCIDR n) (the (map_of Presets n)) =
         Inr (map (the \<circ> parsePrefix) (the (map_of Presets n)))"
proof -
  from assms obtain cs where cs: "map_of Presets n = Some cs" by (auto simp: IsPreset_def)
  with Presets_parse have "list_all (\<lambda>c. case parsePrefix c of None \<Rightarrow> False | Some _ \<Rightarrow> True) cs"
    by (auto simp: list_all_iff dest!: map_of_SomeD)
  with cs show ?thesis by (simp add: parseAll_ok)
qed

text \<open>What an item of the list stands for.\<close>

definition expandItem :: "string \<Rightarrow> prefix list" where
  "expandItem item =
     map (the \<circ> parsePrefix) (if IsPreset item then the (map_of Presets item) else [item])"

subsection \<open>Properties\<close>

text \<open>
  C16: Forged X-Forwarded-For entries have no effect. When a trusted proxy forwards, the client
  address is the last entry that is not itself a trusted hop, whatever entries a client put
  before it.
\<close>
theorem client_ip_ignores_forged_entries:
  assumes "ipInPrefixes (remoteIP r) ts"
    and "headerGet (r_header r) ''X-Forwarded-For'' = join '','' (forged @ c # hops)"
    and "\<forall>w \<in> set (forged @ c # hops). CHR '','' \<notin> set w"
    and "trimSpace c \<noteq> []" and "\<not> ipInPrefixes (trimSpace c) ts"
    and "\<forall>h \<in> set hops. trimSpace h = [] \<or> ipInPrefixes (trimSpace h) ts"
  shows "ClientIP r ts = trimSpace c"
proof -
  have parts: "splitOn CHR '','' (headerGet (r_header r) ''X-Forwarded-For'') = forged @ c # hops"
    unfolding assms(2) using assms(3) by (intro splitOn_join) simp_all
  moreover have "splitOn CHR '','' [] = [[]]" by simp
  ultimately have "headerGet (r_header r) ''X-Forwarded-For'' \<noteq> []"
    using assms(4) by (auto simp: Cons_eq_append_conv)
  moreover have "rightmostUntrusted ts (rev hops) = None"
    using assms(6) by (simp add: rightmostUntrusted_None)
  moreover have "ts \<noteq> []" using assms(1) by (auto simp: ipInPrefixes_def split: option.splits)
  ultimately show ?thesis
    using assms(1,4,5) parts by (simp add: ClientIP_def rightmostUntrusted_append)
qed

theorem client_ip_ignores_forged_entries_witness:
  "case parsePrefix ''10.0.0.0/8'' of None \<Rightarrow> False | Some p \<Rightarrow>
     ClientIP
       \<lparr>r_method = ''POST'', r_path = ''/f'', r_query = [],
        r_header = [(''X-Forwarded-For'', [''1.1.1.1,203.0.113.9,10.0.0.2''])],
        r_host = ''h'', r_remoteAddr = ''10.0.0.1:4711'', r_body = []\<rparr> [p] = ''203.0.113.9''"
proof -
  let ?p = "\<lparr>pfx_addr = Addr4 167772160, pfx_bits = 8\<rparr>"
  let ?r = "\<lparr>r_method = ''POST'', r_path = ''/f'', r_query = [],
        r_header = [(''X-Forwarded-For'', [''1.1.1.1,203.0.113.9,10.0.0.2''])],
        r_host = ''h'', r_remoteAddr = ''10.0.0.1:4711'', r_body = []\<rparr>"
  have p: "parsePrefix ''10.0.0.0/8'' = Some ?p" by (simp add: parse_eval)
  have trim: "trimSpace ''203.0.113.9'' = ''203.0.113.9''" "trimSpace ''10.0.0.2'' = ''10.0.0.2''"
    by code_simp+
  have "remoteIP ?r = ''10.0.0.1''"
    by (simp add: remoteIP_def splitHostPort_def lastIndexByte_def)
  then have "ipInPrefixes (remoteIP ?r) [?p]"
    by (simp add: ipInPrefixes_def parse_eval prefixContains_def)
  moreover have "headerGet (r_header ?r) ''X-Forwarded-For'' =
      join '','' ([''1.1.1.1''] @ ''203.0.113.9'' # [''10.0.0.2''])" by simp
  moreover have "\<not> ipInPrefixes ''203.0.113.9'' [?p]" "ipInPrefixes ''10.0.0.2'' [?p]"
    by (simp_all add: ipInPrefixes_def parse_eval prefixContains_def)
  ultimately show ?thesis
    using client_ip_ignores_forged_entries [of ?r "[?p]" "[''1.1.1.1'']" "''203.0.113.9''" "[''10.0.0.2'']"]
    by (simp add: p trim)
qed

text \<open>
  A client outside the trusted ranges cannot pass for a trusted hop: when the address
  attributed to a request lies inside the trusted ranges, the peer itself is a trusted proxy
  and so is every non-blank entry of the header.
\<close>
lemma client_ip_trusted_only_if_chain_trusted:
  assumes "ipInPrefixes (ClientIP r ts) ts"
  shows "ipInPrefixes (remoteIP r) ts \<and>
         (\<forall>part \<in> set (splitOn CHR '','' (headerGet (r_header r) ''X-Forwarded-For'')).
            trimSpace part = [] \<or> ipInPrefixes (trimSpace part) ts)"
proof -
  let ?xff = "headerGet (r_header r) ''X-Forwarded-For''"
  have ts: "ts \<noteq> []" using assms by (auto simp: ipInPrefixes_def split: option.splits)
  with assms have remote: "ipInPrefixes (remoteIP r) ts"
    by (auto simp: ClientIP_def Let_def split: if_splits)
  show ?thesis
  proof (cases "?xff = []")
    case True
    with remote show ?thesis by simp
  next
    case False
    have "rightmostUntrusted ts (rev (splitOn CHR '','' ?xff)) = None"
    proof (rule ccontr)
      assume "rightmostUntrusted ts (rev (splitOn CHR '','' ?xff)) \<noteq> None"
      then obtain c where c: "rightmostUntrusted ts (rev (splitOn CHR '','' ?xff)) = Some c" by blast
      with False ts remote have "ClientIP r ts = c" by (simp add: ClientIP_def)
      with rightmostUntrusted_Some [OF c] assms show False by simp
    qed
    with remote show ?thesis by (simp add: rightmostUntrusted_None)
  qed
qed

lemma client_ip_trusted_only_if_chain_trusted_witness:
  "ipInPrefixes ''10.0.0.1'' [\<lparr>pfx_addr = Addr4 167772160, pfx_bits = 8\<rparr>]"
proof -
  let ?ts = "[\<lparr>pfx_addr = Addr4 167772160, pfx_bits = 8\<rparr>]"
  let ?r = "\<lparr>r_method = ''POST'', r_path = ''/f'', r_query = [],
        r_header = [(''X-Forwarded-For'', [''10.0.0.3''])],
        r_host = ''h'', r_remoteAddr = ''10.0.0.1:4711'', r_body = []\<rparr>"
  have remote: "remoteIP ?r = ''10.0.0.1''"
    by (simp add: remoteIP_def splitHostPort_def lastIndexByte_def)
  have trim: "trimSpace ''10.0.0.3'' = ''10.0.0.3''" by code_simp
  have "ClientIP ?r ?ts = ''10.0.0.3''"
    by (simp add: ClientIP_def remote trim ipInPrefixes_def parse_eval prefixContains_def)
  then have "ipInPrefixes (ClientIP ?r ?ts) ?ts"
    by (simp add: ipInPrefixes_def parse_eval prefixContains_def)
  from client_ip_trusted_only_if_chain_trusted [OF this] remote show ?thesis by simp
qed

text \<open>
  ParsePrefixes expands every preset and every literal CIDR in order, and fails exactly on
  the first item that is neither; a preset itself never fails to parse.
\<close>
lemma ParsePrefixes_result:
  "ParsePrefixes items =
     (case find (\<lambda>i. \<not> IsPreset i \<and> parsePrefix i = None) items of
        Some i \<Rightarrow> Inl (BadCIDR i)
      | None \<Rightarrow> Inr (concat (map expandItem items)))"
  by (induction items)
     (auto simp: parseAll_preset expandItem_def split: option.splits)

end
