(* ===== verification/Idempotency.thy ===== *)
theory Idempotency
  imports Lru
begin

text \<open>
  core/idempotency/cache.go: the per-endpoint Idempotency-Key cache. Each operation runs under
  the cache's mutex, so an execution is a sequence of operations; the clock reading of each is
  an argument. The specification reads off the history of operations what a lookup may return.
\<close>

subsection \<open>State\<close>

definition MinKeyLength :: int where "MinKeyLength = 1"
definition MaxKeyLength :: int where "MaxKeyLength = 255"
definition DefaultCapacity :: int where "DefaultCapacity = 10000"
definition DefaultTTL :: duration where "DefaultTTL = 24 * 3600 * second"

record idem_response =
  resp_status :: int
  resp_body :: bytes
  resp_contentType :: string

record idem_entry =
  entry_response :: idem_response
  entry_expires :: time

record 's idem_cache =
  idem_lru :: 's           \<comment> \<open>lru.Cache[string, entry]\<close>
  inflight :: "string set"
  ttl :: duration

datatype idem_new_error = CapacityNotPositive int | TtlNotPositive duration | LruError string

subsection \<open>Operations\<close>

definition idem_New ::
  "('s, string, idem_entry) lru_ops \<Rightarrow> int \<Rightarrow> duration \<Rightarrow> idem_new_error + 's idem_cache" where
  "idem_New ops cap t =
     (if cap \<le> 0 then Inl (CapacityNotPositive cap)
      else if t \<le> 0 then Inl (TtlNotPositive t)
      else (case lru_new ops cap of
              Inl e \<Rightarrow> Inl (LruError e)
            | Inr l \<Rightarrow> Inr \<lparr>idem_lru = l, inflight = {}, ttl = t\<rparr>))"

definition idem_Lookup ::
  "('s, string, idem_entry) lru_ops \<Rightarrow> time \<Rightarrow> string \<Rightarrow> 's idem_cache \<Rightarrow>
   (idem_response option \<times> bool) \<times> 's idem_cache" where
  "idem_Lookup ops now key c =
     (if key \<in> inflight c then ((None, True), c)
      else
        (let (hit, l) = lru_get ops key (idem_lru c) in
         case hit of
           Some e \<Rightarrow>
             if now < entry_expires e then ((Some (entry_response e), False), c\<lparr>idem_lru := l\<rparr>)
             else ((None, False), c\<lparr>idem_lru := lru_remove ops key l\<rparr>)
         | None \<Rightarrow> ((None, False), c\<lparr>idem_lru := l\<rparr>)))"

definition ClaimInFlight ::
  "('s, string, idem_entry) lru_ops \<Rightarrow> time \<Rightarrow> string \<Rightarrow> 's idem_cache \<Rightarrow> bool \<times> 's idem_cache" where
  "ClaimInFlight ops now key c =
     (if key \<in> inflight c then (False, c)
      else
        (let (hit, l) = lru_get ops key (idem_lru c); c1 = c\<lparr>idem_lru := l\<rparr> in
         if (case hit of Some e \<Rightarrow> now < entry_expires e | None \<Rightarrow> False) then (False, c1)
         else (True, c1\<lparr>inflight := insert key (inflight c1)\<rparr>)))"

definition idem_Store ::
  "('s, string, idem_entry) lru_ops \<Rightarrow> time \<Rightarrow> string \<Rightarrow> idem_response \<Rightarrow> 's idem_cache \<Rightarrow> 's idem_cache" where
  "idem_Store ops now key resp c =
     c\<lparr>idem_lru := lru_add ops key \<lparr>entry_response = resp, entry_expires = now + ttl c\<rparr> (idem_lru c),
       inflight := inflight c - {key}\<rparr>"

definition idem_Abandon :: "string \<Rightarrow> 's idem_cache \<Rightarrow> 's idem_cache" where
  "idem_Abandon key c = c\<lparr>inflight := inflight c - {key}\<rparr>"

datatype key_error = KeyEmpty | KeyTooLong nat | KeyBadByte nat nat

definition printable :: "char \<Rightarrow> bool" where
  "printable b = (let n = of_char b :: nat in 32 \<le> n \<and> n \<le> 126)"

fun scanKey :: "nat \<Rightarrow> string \<Rightarrow> key_error option" where
  "scanKey i [] = None"
| "scanKey i (b # bs) = (if printable b then scanKey (Suc i) bs else Some (KeyBadByte (of_char b) i))"

definition ValidateKey :: "string \<Rightarrow> key_error option" where
  "ValidateKey key =
     (if int (length key) < MinKeyLength then Some KeyEmpty
      else if MaxKeyLength < int (length key) then Some (KeyTooLong (length key))
      else scanKey 0 key)"

definition upperHexDigit :: "nat \<Rightarrow> char" where
  "upperHexDigit n = (if n < 10 then char_of (48 + n) else char_of (55 + n))"

fun keyErrorText :: "key_error \<Rightarrow> string" where
  "keyErrorText KeyEmpty = ''Idempotency-Key must not be empty''"
| "keyErrorText (KeyTooLong n) =
     ''Idempotency-Key length '' @ showNat n @ '' exceeds maximum '' @ formatInt MaxKeyLength"
| "keyErrorText (KeyBadByte b i) =
     ''Idempotency-Key contains non-printable byte 0x'' @ [upperHexDigit (b div 16), upperHexDigit (b mod 16)]
     @ '' at position '' @ showNat i"

subsection \<open>Executions and the history they leave\<close>

datatype idem_op = OpLookup string | OpClaim string | OpStore string idem_response | OpAbandon string

fun op_key :: "idem_op \<Rightarrow> string" where
  "op_key (OpLookup k) = k"
| "op_key (OpClaim k) = k"
| "op_key (OpStore k r) = k"
| "op_key (OpAbandon k) = k"

fun idem_apply :: "('s, string, idem_entry) lru_ops \<Rightarrow> time \<Rightarrow> idem_op \<Rightarrow> 's idem_cache \<Rightarrow> 's idem_cache" where
  "idem_apply ops now (OpLookup k) c = snd (idem_Lookup ops now k c)"
| "idem_apply ops now (OpClaim k) c = snd (ClaimInFlight ops now k c)"
| "idem_apply ops now (OpStore k r) c = idem_Store ops now k r c"
| "idem_apply ops now (OpAbandon k) c = idem_Abandon k c"

fun idem_run :: "('s, string, idem_entry) lru_ops \<Rightarrow> (time \<times> idem_op) list \<Rightarrow> 's idem_cache \<Rightarrow> 's idem_cache" where
  "idem_run ops [] c = c"
| "idem_run ops ((now, a) # h) c = idem_run ops h (idem_apply ops now a c)"

text \<open>The last response stored under a key in a history, with the time of that store.\<close>

definition storesOf :: "string \<Rightarrow> (time \<times> idem_op) list \<Rightarrow> (idem_response \<times> time) list" where
  "storesOf k h =
     List.map_filter (\<lambda>(t, a). case a of OpStore k' r \<Rightarrow> if k' = k then Some (r, t) else None | _ \<Rightarrow> None) h"

definition lastStore :: "string \<Rightarrow> (time \<times> idem_op) list \<Rightarrow> (idem_response \<times> time) option" where
  "lastStore k h = (if storesOf k h = [] then None else Some (last (storesOf k h)))"

subsection \<open>The cache keeps the history's promise\<close>

lemma storesOf_simps [simp]:
  "storesOf k [] = []"
  "storesOf k (h @ h') = storesOf k h @ storesOf k h'"
  "storesOf k [(t, OpStore k' r)] = (if k' = k then [(r, t)] else [])"
  "storesOf k [(t, OpLookup k')] = []"
  "storesOf k [(t, OpClaim k')] = []"
  "storesOf k [(t, OpAbandon k')] = []"
  by (simp_all add: storesOf_def List.map_filter_def)

lemma lastStore_simps [simp]:
  "lastStore k [] = None"
  "lastStore k (h @ [(t, OpStore k' r)]) = (if k' = k then Some (r, t) else lastStore k h)"
  "lastStore k (h @ [(t, OpLookup k')]) = lastStore k h"
  "lastStore k (h @ [(t, OpClaim k')]) = lastStore k h"
  "lastStore k (h @ [(t, OpAbandon k')]) = lastStore k h"
  by (simp_all add: lastStore_def)

lemma idem_run_append [simp]: "idem_run ops (h @ h') c = idem_run ops h' (idem_run ops h c)"
  by (induction ops h c rule: idem_run.induct) simp_all

lemma scanKey_None: "scanKey i s = None \<longleftrightarrow> list_all printable s"
  by (induction s arbitrary: i) simp_all

text \<open>What the history says a cache may hold and must hold.\<close>

definition heldBy :: "(time \<times> idem_op) list \<Rightarrow> duration \<Rightarrow> (string \<Rightarrow> idem_entry option) \<Rightarrow> bool" where
  "heldBy h d v \<longleftrightarrow>
     (\<forall>k e. v k = Some e \<longrightarrow>
        (\<exists>t. lastStore k h = Some (entry_response e, t) \<and> entry_expires e = t + d))"

locale idem_lru_cache = lru_cache ops view good size_of
  for ops :: "('s, string, idem_entry) lru_ops"
    and view :: "'s \<Rightarrow> string \<Rightarrow> idem_entry option"
    and good :: "'s \<Rightarrow> bool"
    and size_of :: "'s \<Rightarrow> nat"
begin

text \<open>Each operation, in terms of the map the cache holds.\<close>

lemma Lookup_result:
  assumes "good (idem_lru c)"
  shows "fst (idem_Lookup ops now k c) =
           (if k \<in> inflight c then (None, True)
            else (case view (idem_lru c) k of
                    Some e \<Rightarrow> if now < entry_expires e then (Some (entry_response e), False) else (None, False)
                  | None \<Rightarrow> (None, False)))"
proof -
  obtain s where "lru_get ops k (idem_lru c) = (view (idem_lru c) k, s)"
    using get_result [OF assms] by metis
  then show ?thesis by (auto simp: idem_Lookup_def split: option.splits)
qed

lemma Lookup_state:
  assumes "good (idem_lru c)"
  shows "good (idem_lru (snd (idem_Lookup ops now k c))) \<and>
         size_of (idem_lru (snd (idem_Lookup ops now k c))) = size_of (idem_lru c) \<and>
         inflight (snd (idem_Lookup ops now k c)) = inflight c \<and> ttl (snd (idem_Lookup ops now k c)) = ttl c \<and>
         view (idem_lru (snd (idem_Lookup ops now k c))) =
           (if k \<in> inflight c then view (idem_lru c)
            else (case view (idem_lru c) k of
                    Some e \<Rightarrow> if now < entry_expires e then view (idem_lru c) else (view (idem_lru c))(k := None)
                  | None \<Rightarrow> view (idem_lru c)))"
proof -
  obtain s where "lru_get ops k (idem_lru c) = (view (idem_lru c) k, s)" "view s = view (idem_lru c)"
      "good s" "size_of s = size_of (idem_lru c)"
    using get_result [OF assms] by metis
  with assms show ?thesis by (auto simp: idem_Lookup_def remove_laws split: option.splits)
qed

lemma Claim_result:
  assumes "good (idem_lru c)"
  shows "fst (ClaimInFlight ops now k c) \<longleftrightarrow>
           k \<notin> inflight c \<and> (case view (idem_lru c) k of Some e \<Rightarrow> entry_expires e \<le> now | None \<Rightarrow> True)"
    and "inflight (snd (ClaimInFlight ops now k c)) =
           (if fst (ClaimInFlight ops now k c) then insert k (inflight c) else inflight c)"
    and "good (idem_lru (snd (ClaimInFlight ops now k c))) \<and>
         view (idem_lru (snd (ClaimInFlight ops now k c))) = view (idem_lru c) \<and>
         size_of (idem_lru (snd (ClaimInFlight ops now k c))) = size_of (idem_lru c) \<and>
         ttl (snd (ClaimInFlight ops now k c)) = ttl c"
proof -
  obtain s where "lru_get ops k (idem_lru c) = (view (idem_lru c) k, s)" "view s = view (idem_lru c)"
      "good s" "size_of s = size_of (idem_lru c)"
    using get_result [OF assms] by metis
  with assms show "fst (ClaimInFlight ops now k c) \<longleftrightarrow>
           k \<notin> inflight c \<and> (case view (idem_lru c) k of Some e \<Rightarrow> entry_expires e \<le> now | None \<Rightarrow> True)"
    and "inflight (snd (ClaimInFlight ops now k c)) =
           (if fst (ClaimInFlight ops now k c) then insert k (inflight c) else inflight c)"
    and "good (idem_lru (snd (ClaimInFlight ops now k c))) \<and>
         view (idem_lru (snd (ClaimInFlight ops now k c))) = view (idem_lru c) \<and>
         size_of (idem_lru (snd (ClaimInFlight ops now k c))) = size_of (idem_lru c) \<and>
         ttl (snd (ClaimInFlight ops now k c)) = ttl c"
    by (auto simp: ClaimInFlight_def Let_def split: option.splits)
qed

lemma Store_state:
  assumes "good (idem_lru c)"
  shows "good (idem_lru (idem_Store ops now k r c)) \<and>
         size_of (idem_lru (idem_Store ops now k r c)) = size_of (idem_lru c) \<and>
         inflight (idem_Store ops now k r c) = inflight c - {k} \<and> ttl (idem_Store ops now k r c) = ttl c \<and>
         view (idem_lru (idem_Store ops now k r c)) k = Some \<lparr>entry_response = r, entry_expires = now + ttl c\<rparr>"
  using add_laws [OF assms] by (simp add: idem_Store_def)

lemma apply_good:
  assumes "good (idem_lru c)"
  shows "good (idem_lru (idem_apply ops now a c)) \<and>
         size_of (idem_lru (idem_apply ops now a c)) = size_of (idem_lru c) \<and> ttl (idem_apply ops now a c) = ttl c"
  using assms Lookup_state [OF assms] Claim_result(3) [OF assms] Store_state [OF assms]
  by (cases a) (simp_all add: idem_Abandon_def)

lemma apply_held:
  assumes "good (idem_lru c)" and "heldBy h (ttl c) (view (idem_lru c))"
  shows "heldBy (h @ [(now, a)]) (ttl c) (view (idem_lru (idem_apply ops now a c)))"
proof (cases a)
  case (OpLookup k)
  with assms Lookup_state [OF assms(1), of now k] show ?thesis
    by (auto simp: heldBy_def split: option.splits if_splits)
next
  case (OpClaim k)
  with assms Claim_result(3) [OF assms(1), of now k] show ?thesis by (simp add: heldBy_def)
next
  case (OpStore k r)
  let ?e = "\<lparr>entry_response = r, entry_expires = now + ttl c\<rparr>"
  show ?thesis unfolding heldBy_def
  proof (intro allI impI)
    fix k' e assume "view (idem_lru (idem_apply ops now a c)) k' = Some e"
    then have "view (lru_add ops k ?e (idem_lru c)) k' = Some e"
      by (simp add: OpStore idem_Store_def)
    from add_cases [OF assms(1) this] assms(2)
    show "\<exists>t. lastStore k' (h @ [(now, a)]) = Some (entry_response e, t) \<and> entry_expires e = t + ttl c"
      by (auto simp: OpStore heldBy_def)
  qed
next
  case (OpAbandon k)
  with assms(2) show ?thesis by (simp add: heldBy_def idem_Abandon_def)
qed

lemma run_held:
  assumes "good (idem_lru c)" and "view (idem_lru c) = Map.empty"
  shows "good (idem_lru (idem_run ops h c)) \<and> ttl (idem_run ops h c) = ttl c \<and>
         size_of (idem_lru (idem_run ops h c)) = size_of (idem_lru c) \<and>
         heldBy h (ttl c) (view (idem_lru (idem_run ops h c)))"
proof (induction h rule: rev_induct)
  case Nil
  with assms show ?case by (simp add: heldBy_def)
next
  case (snoc x h)
  obtain now a where x: "x = (now, a)" by (cases x)
  from snoc have good: "good (idem_lru (idem_run ops h c))" by simp
  from apply_good [OF this, of now a] apply_held [OF good, of h now a] snoc x show ?case by simp
qed

lemma New_state:
  assumes "idem_New ops cap d = Inr c"
  shows "good (idem_lru c) \<and> view (idem_lru c) = Map.empty \<and> size_of (idem_lru c) = nat cap \<and>
         inflight c = {} \<and> ttl c = d \<and> 0 < d \<and> 0 < cap"
  using assms new_ok [of cap] by (auto simp: idem_New_def split: if_splits sum.splits)

text \<open>While the keys in play fit, a stored response stays until it expires.\<close>

lemma apply_keeps:
  assumes "good (idem_lru c)" and "view (idem_lru c) k = Some e" and "now < entry_expires e"
    and "insert (op_key a) (dom (view (idem_lru c))) \<subseteq> K" "finite K" "card K \<le> size_of (idem_lru c)"
  shows "view (idem_lru (idem_apply ops now a c)) k =
           (case a of OpStore k' r \<Rightarrow> if k' = k then Some \<lparr>entry_response = r, entry_expires = now + ttl c\<rparr> else Some e
                    | _ \<Rightarrow> Some e)"
proof (cases a)
  case (OpLookup k')
  have "view (idem_lru (snd (idem_Lookup ops now k' c))) k = Some e"
    using assms(2,3) Lookup_state [OF assms(1), of now k'] by (cases "k' = k") (simp_all split: option.split)
  with OpLookup show ?thesis by simp
next
  case (OpClaim k')
  with assms(2) Claim_result(3) [OF assms(1), of now k'] show ?thesis by simp
next
  case (OpStore k' r)
  let ?e = "\<lparr>entry_response = r, entry_expires = now + ttl c\<rparr>"
  have "k' \<in> dom (view (idem_lru c)) \<or> card (dom (view (idem_lru c))) < size_of (idem_lru c)"
  proof (rule disjCI)
    assume "\<not> card (dom (view (idem_lru c))) < size_of (idem_lru c)"
    with assms(6) have "card K \<le> card (dom (view (idem_lru c)))" by simp
    moreover have "dom (view (idem_lru c)) \<subseteq> K" using assms(4) by simp
    ultimately have "dom (view (idem_lru c)) = K" using assms(5) by (metis card_seteq)
    with assms(4) OpStore show "k' \<in> dom (view (idem_lru c))" by simp
  qed
  then have "view (lru_add ops k' ?e (idem_lru c)) = (view (idem_lru c))(k' \<mapsto> ?e)"
    by (rule add_room [OF assms(1)])
  with assms(2) OpStore show ?thesis by (simp add: idem_Store_def)
next
  case (OpAbandon k')
  with assms(2) show ?thesis by (simp add: idem_Abandon_def)
qed

lemma apply_dom:
  assumes "good (idem_lru c)"
  shows "dom (view (idem_lru (idem_apply ops now a c))) \<subseteq> insert (op_key a) (dom (view (idem_lru c)))"
proof (cases a)
  case (OpLookup k)
  with Lookup_state [OF assms, of now k] show ?thesis by (auto split: option.splits if_splits)
next
  case (OpClaim k)
  with Claim_result(3) [OF assms, of now k] show ?thesis by auto
next
  case (OpStore k r)
  with add_sub [OF assms, of k] show ?thesis
    by (force simp: idem_Store_def map_le_def dom_def fun_upd_def)
next
  case (OpAbandon k)
  then show ?thesis by (auto simp: idem_Abandon_def)
qed

lemma run_dom:
  assumes "good (idem_lru c)" and "view (idem_lru c) = Map.empty"
  shows "dom (view (idem_lru (idem_run ops h c))) \<subseteq> op_key ` snd ` set h"
proof (induction h rule: rev_induct)
  case Nil
  with assms show ?case by simp
next
  case (snoc x h)
  obtain now a where x: "x = (now, a)" by (cases x)
  from apply_dom [of "idem_run ops h c" now a] run_held [OF assms, of h] snoc x show ?case by auto
qed

lemma run_keeps:
  assumes "good (idem_lru c)" and "view (idem_lru c) = Map.empty" and "0 < ttl c"
    and "op_key ` snd ` set h \<subseteq> K" "finite K" "card K \<le> size_of (idem_lru c)"
    and "sorted (map fst h)" and "lastStore k h = Some (r, t)" and "\<forall>u \<in> fst ` set h. u < t + ttl c"
  shows "view (idem_lru (idem_run ops h c)) k = Some \<lparr>entry_response = r, entry_expires = t + ttl c\<rparr>"
  using assms(4,7-9)
proof (induction h arbitrary: r t rule: rev_induct)
  case Nil
  then show ?case by simp
next
  case (snoc x h)
  obtain now a where x: "x = (now, a)" by (cases x)
  let ?c = "idem_run ops h c" and ?e = "\<lparr>entry_response = r, entry_expires = t + ttl c\<rparr>"
  note held = run_held [OF assms(1,2), of h]
  show ?case
  proof (cases "\<exists>r'. a = OpStore k r'")
    case True
    with snoc.prems(3) x Store_state [of ?c now k] held show ?thesis by auto
  next
    case False
    with snoc.prems(3) x have last: "lastStore k h = Some (r, t)" by (cases a) auto
    have IH: "view (idem_lru ?c) k = Some ?e"
      using snoc.prems by (intro snoc.IH last) (simp_all add: sorted_append)
    have "insert (op_key a) (dom (view (idem_lru ?c))) \<subseteq> K"
      using run_dom [OF assms(1,2), of h] snoc.prems(1) x by auto
    with apply_keeps [of ?c k ?e now a K] IH held snoc.prems(4) assms(5,6) x False
    show ?thesis by (auto split: idem_op.splits)
  qed
qed

end

interpretation list_idem: idem_lru_cache list_lru use_view use_good fst
  by unfold_locales

subsection \<open>Concurrent callers\<close>

text \<open>
  Callers share one cache. Each looks up, claims a key, and releases its claim by storing or
  abandoning, as the request handler does; their steps interleave freely.
\<close>

record 's idem_sys =
  sys_cache :: "'s idem_cache"
  holders :: "nat \<Rightarrow> string option"   \<comment> \<open>the key each caller has claimed\<close>

inductive idem_step :: "('s, string, idem_entry) lru_ops \<Rightarrow> 's idem_sys \<Rightarrow> 's idem_sys \<Rightarrow> bool"
  for ops where
  look: "idem_step ops s (s\<lparr>sys_cache := snd (idem_Lookup ops now k (sys_cache s))\<rparr>)"
| claim: "holders s a = None \<Longrightarrow> ClaimInFlight ops now k (sys_cache s) = (True, c) \<Longrightarrow>
    idem_step ops s (s\<lparr>sys_cache := c, holders := (holders s)(a \<mapsto> k)\<rparr>)"
| claim_lost: "ClaimInFlight ops now k (sys_cache s) = (False, c) \<Longrightarrow>
    idem_step ops s (s\<lparr>sys_cache := c\<rparr>)"
| store: "holders s a = Some k \<Longrightarrow>
    idem_step ops s (s\<lparr>sys_cache := idem_Store ops now k r (sys_cache s), holders := (holders s)(a := None)\<rparr>)"
| abandon: "holders s a = Some k \<Longrightarrow>
    idem_step ops s (s\<lparr>sys_cache := idem_Abandon k (sys_cache s), holders := (holders s)(a := None)\<rparr>)"

inductive_cases idem_stepE [consumes 1, case_names look claim claim_lost store abandon]: "idem_step ops s s'"

definition exclusive :: "('a \<Rightarrow> 'b option) \<Rightarrow> bool" where
  "exclusive m \<longleftrightarrow> (\<forall>a b k. m a = Some k \<longrightarrow> m b = Some k \<longrightarrow> a = b)"

definition claimsInv :: "'s idem_sys \<Rightarrow> bool" where
  "claimsInv s \<longleftrightarrow> inflight (sys_cache s) = ran (holders s) \<and> exclusive (holders s)"

lemma exclusive_release:
  assumes "exclusive m" and "m a = Some k"
  shows "exclusive (m(a := None))" and "ran (m(a := None)) = ran m - {k}"
proof -
  have only: "b = a" if "m b = Some k" for b using assms that unfolding exclusive_def by blast
  show "exclusive (m(a := None))" using assms(1) unfolding exclusive_def by (metis fun_upd_apply option.distinct(1))
  show "ran (m(a := None)) = ran m - {k}"
  proof (intro subset_antisym subsetI)
    fix x assume "x \<in> ran (m(a := None))"
    then obtain b where "b \<noteq> a" "m b = Some x" by (auto simp: ran_def split: if_splits)
    with only show "x \<in> ran m - {k}" by (auto intro: ranI)
  next
    fix x assume "x \<in> ran m - {k}"
    then obtain b where b: "m b = Some x" "x \<noteq> k" by (auto simp: ran_def)
    with assms(2) have "(m(a := None)) b = Some x" by auto
    then show "x \<in> ran (m(a := None))" by (rule ranI)
  qed
qed

lemma exclusive_claim:
  assumes "exclusive m" and "k \<notin> ran m"
  shows "exclusive (m(a \<mapsto> k))"
  using assms unfolding exclusive_def by (metis fun_upd_apply option.inject ranI)

lemma claimsInv_cache:
  "claimsInv s \<Longrightarrow> inflight c = inflight (sys_cache s) \<Longrightarrow> claimsInv (s\<lparr>sys_cache := c\<rparr>)"
  by (simp add: claimsInv_def)

lemma claimsInv_release:
  assumes "claimsInv s" and "holders s a = Some k" and "inflight c = inflight (sys_cache s) - {k}"
  shows "claimsInv (s\<lparr>sys_cache := c, holders := (holders s)(a := None)\<rparr>)"
  using assms by (simp add: claimsInv_def exclusive_release)

lemma claimsInv_claim:
  assumes "claimsInv s" and "holders s a = None" and "k \<notin> inflight (sys_cache s)"
    and "inflight c = insert k (inflight (sys_cache s))"
  shows "claimsInv (s\<lparr>sys_cache := c, holders := (holders s)(a \<mapsto> k)\<rparr>)"
  using assms by (simp add: claimsInv_def exclusive_claim)

context idem_lru_cache
begin

lemma step_inv:
  assumes "idem_step ops s s'" and "claimsInv s \<and> good (idem_lru (sys_cache s))"
  shows "claimsInv s' \<and> good (idem_lru (sys_cache s'))"
  using assms(1)
proof (cases rule: idem_stepE)
  case (look now k)
  with assms(2) Lookup_state [of "sys_cache s" now k] show ?thesis by (simp add: claimsInv_cache)
next
  case (claim a now k c)
  with assms(2) Claim_result [of "sys_cache s" now k] show ?thesis by (simp add: claimsInv_claim)
next
  case (claim_lost now k c)
  with assms(2) Claim_result [of "sys_cache s" now k] show ?thesis by (simp add: claimsInv_cache)
next
  case (store a k now r)
  with assms(2) Store_state [of "sys_cache s" now k r] show ?thesis by (simp add: claimsInv_release)
next
  case (abandon a k)
  with assms(2) show ?thesis by (simp add: claimsInv_release idem_Abandon_def)
qed

lemma reach_inv:
  assumes "(idem_step ops)\<^sup>*\<^sup>* s s'" and "claimsInv s \<and> good (idem_lru (sys_cache s))"
  shows "claimsInv s' \<and> good (idem_lru (sys_cache s'))"
  using assms by (induction rule: rtranclp_induct) (auto dest: step_inv)

end

subsection \<open>Properties\<close>

text \<open>
  C17: Replay integrity. Whatever sequence of operations a cache built by New has been through,
  a lookup that returns a response returns exactly the response last stored under that key,
  no later than the TTL after that store, and only when the key is not in flight.
\<close>
theorem lookup_replays_last_store:
  assumes "lru_cache ops view good size_of" and "idem_New ops cap d = Inr c"
    and "fst (idem_Lookup ops now k (idem_run ops h c)) = (Some r, busy)"
  shows "\<exists>t. lastStore k h = Some (r, t) \<and> now < t + d \<and> \<not> busy \<and> k \<notin> inflight (idem_run ops h c)"
proof -
  note il = idem_lru_cache.intro [OF assms(1)]
  note new = idem_lru_cache.New_state [OF il assms(2)]
  let ?c = "idem_run ops h c"
  from idem_lru_cache.run_held [OF il, of c h] new
  have held: "good (idem_lru ?c)" "heldBy h d (view (idem_lru ?c))" by auto
  from idem_lru_cache.Lookup_result [OF il held(1), of now k] assms(3)
  obtain e where "k \<notin> inflight ?c" "view (idem_lru ?c) k = Some e" "now < entry_expires e"
      "r = entry_response e" "\<not> busy"
    by (auto split: if_splits option.splits)
  with held(2) show ?thesis by (fastforce simp: heldBy_def)
qed

text \<open>
  Replay completeness. As long as the keys in play fit into the cache, a response stored
  less than the TTL ago is returned by the next lookup of its key that finds it not in flight,
  whatever happened to other keys in between.
\<close>
lemma stored_response_is_replayed:
  assumes "lru_cache ops view good size_of" and "idem_New ops cap d = Inr c"
    and "card (op_key ` snd ` set h) \<le> nat cap" and "sorted (map fst h @ [now])"
    and "lastStore k h = Some (r, t)" and "now < t + d" and "k \<notin> inflight (idem_run ops h c)"
  shows "fst (idem_Lookup ops now k (idem_run ops h c)) = (Some r, False)"
proof -
  note il = idem_lru_cache.intro [OF assms(1)]
  note new = idem_lru_cache.New_state [OF il assms(2)]
  have "view (idem_lru (idem_run ops h c)) k = Some \<lparr>entry_response = r, entry_expires = t + ttl c\<rparr>"
    using new assms(3-6)
    by (intro idem_lru_cache.run_keeps [OF il, of c h "op_key ` snd ` set h"]) (force simp: sorted_append)+
  with idem_lru_cache.run_held [OF il, of c h] idem_lru_cache.Lookup_result [OF il, of "idem_run ops h c" now k]
    new assms(6,7)
  show ?thesis by simp
qed

text \<open>
  C18: Claims are exclusive. Over any interleaving of callers that follow the protocol, the keys
  in flight are exactly the keys callers hold, and no two callers hold the same key: a key in
  flight is processed by one request, and a key nobody holds is never stuck in flight.
\<close>
theorem claims_are_exclusive:
  assumes "lru_cache ops view good size_of" and "idem_New ops cap d = Inr c"
    and "(idem_step ops)\<^sup>*\<^sup>* \<lparr>sys_cache = c, holders = Map.empty\<rparr> s"
  shows "inflight (sys_cache s) = ran (holders s) \<and>
         (holders s a = Some k \<longrightarrow> holders s b = Some k \<longrightarrow> a = b)"
proof -
  note il = idem_lru_cache.intro [OF assms(1)]
  have "claimsInv s"
    using idem_lru_cache.reach_inv [OF il assms(3)] idem_lru_cache.New_state [OF il assms(2)]
    by (simp add: claimsInv_def exclusive_def)
  then show ?thesis unfolding claimsInv_def exclusive_def by blast
qed

text \<open>
  ValidateKey accepts exactly the keys of 1 to 255 printable ASCII bytes; so an accepted
  key has no CR, LF or NUL that could corrupt a header or a log line.
\<close>
lemma ValidateKey_accepts:
  "ValidateKey key = None \<longleftrightarrow>
     key \<noteq> [] \<and> length key \<le> 255 \<and>
     list_all (\<lambda>b. 32 \<le> (of_char b :: nat) \<and> of_char b \<le> (126::nat)) key"
  by (cases key) (auto simp: ValidateKey_def MinKeyLength_def MaxKeyLength_def scanKey_None printable_def Let_def list_all_iff)

subsection \<open>Witnesses\<close>

definition sampleHistory :: "(time \<times> idem_op) list" where
  "sampleHistory =
     [(1, OpLookup ''k''), (2, OpClaim ''k''),
      (3, OpStore ''k'' \<lparr>resp_status = 200, resp_body = ''{}'', resp_contentType = ''application/json''\<rparr>),
      (4, OpClaim ''j''), (5, OpAbandon ''j'')]"

definition sampleCache :: "(string, idem_entry) use_list idem_cache" where
  "sampleCache = \<lparr>idem_lru = (4, []), inflight = {}, ttl = 10\<rparr>"

lemma sample_new: "idem_New list_lru 4 10 = Inr sampleCache"
  by (simp add: idem_New_def list_lru_def sampleCache_def)

lemma stored_response_is_replayed_witness:
  "fst (idem_Lookup list_lru 9 ''k'' (idem_run list_lru sampleHistory sampleCache)) =
     (Some \<lparr>resp_status = 200, resp_body = ''{}'', resp_contentType = ''application/json''\<rparr>, False)"
proof (rule stored_response_is_replayed [OF list_lru.lru_cache_axioms sample_new])
  show "''k'' \<notin> inflight (idem_run list_lru sampleHistory sampleCache)"
    by (simp add: sampleHistory_def idem_Lookup_def ClaimInFlight_def idem_Store_def idem_Abandon_def
        list_lru_def list_get_def others_def sampleCache_def)
  show "lastStore ''k'' sampleHistory =
      Some (\<lparr>resp_status = 200, resp_body = ''{}'', resp_contentType = ''application/json''\<rparr>, 3)"
    by (simp add: lastStore_def storesOf_def sampleHistory_def List.map_filter_def)
qed (simp_all add: sampleHistory_def card_insert_if)

theorem lookup_replays_last_store_witness:
  "\<exists>t. lastStore ''k'' sampleHistory =
        Some (\<lparr>resp_status = 200, resp_body = ''{}'', resp_contentType = ''application/json''\<rparr>, t) \<and> 9 < t + 10"
  using lookup_replays_last_store [OF list_lru.lru_cache_axioms sample_new,
      of 9 "''k''" sampleHistory "\<lparr>resp_status = 200, resp_body = ''{}'', resp_contentType = ''application/json''\<rparr>" False]
  by (simp add: sampleHistory_def idem_Lookup_def ClaimInFlight_def idem_Store_def idem_Abandon_def
      list_lru_def list_get_def others_def sampleCache_def)

lemma sample_claim: "ClaimInFlight list_lru 0 ''k'' sampleCache = (True, sampleCache\<lparr>inflight := {''k''}\<rparr>)"
  by (simp add: ClaimInFlight_def sampleCache_def list_lru_def list_get_def Let_def)

theorem claims_are_exclusive_witness:
  "\<exists>s. (idem_step list_lru)\<^sup>*\<^sup>* \<lparr>sys_cache = sampleCache, holders = Map.empty\<rparr> s \<and>
       holders s 1 = Some ''k'' \<and> inflight (sys_cache s) = ran (holders s)"
proof -
  let ?init = "\<lparr>sys_cache = sampleCache, holders = Map.empty\<rparr>"
  let ?s = "\<lparr>sys_cache = sampleCache\<lparr>inflight := {''k''}\<rparr>, holders = [1 \<mapsto> ''k'']\<rparr>"
  have "idem_step list_lru ?init ?s"
    using idem_step.claim [of ?init 1 list_lru 0 "''k''"] sample_claim by simp
  then have "(idem_step list_lru)\<^sup>*\<^sup>* ?init ?s" by (rule r_into_rtranclp)
  with claims_are_exclusive [OF list_lru.lru_cache_axioms sample_new this] show ?thesis
    by (intro exI [of _ ?s]) simp
qed

end
