(* ===== verification/Response.thy ===== *)
theory Response
  imports Std Http Json
begin

text \<open>
  core/response/response.go: the JSON envelopes, content negotiation, and the writing of a
  JSON body as operations on a response writer.
\<close>

definition mimeJSON :: string where
  "mimeJSON = ''application/json; charset=utf-8''"

record error_body =
  err_error :: string
  err_code :: string
  err_fields :: "(string \<times> string) list"

record success_body =
  suc_status :: string
  suc_submissionID :: string

record prepared_message =
  pm_from :: string
  pm_to :: "string list"
  pm_replyTo :: string
  pm_subject :: string
  pm_bodyText :: string

record dryrun_body =
  dr_status :: string
  dr_submissionID :: string
  dr_message :: prepared_message

text \<open>The marshalled form of each, with the field names and omitempty of the struct tags.\<close>

definition errorJSON :: "error_body \<Rightarrow> json" where
  "errorJSON e =
     JObject ([(''error'', JString (err_error e)), (''code'', JString (err_code e))]
              @ (if err_fields e = [] then [] else [(''fields'', jsonMap (err_fields e))]))"

definition successJSON :: "success_body \<Rightarrow> json" where
  "successJSON b =
     JObject [(''status'', JString (suc_status b)), (''submission_id'', JString (suc_submissionID b))]"

definition preparedJSON :: "prepared_message \<Rightarrow> json" where
  "preparedJSON m =
     JObject ([(''from'', JString (pm_from m)), (''to'', JArray (map JString (pm_to m)))]
              @ (if pm_replyTo m = [] then [] else [(''reply_to'', JString (pm_replyTo m))])
              @ [(''subject'', JString (pm_subject m)), (''body_text'', JString (pm_bodyText m))])"

definition dryRunJSON :: "dryrun_body \<Rightarrow> json" where
  "dryRunJSON b =
     JObject [(''status'', JString (dr_status b)), (''submission_id'', JString (dr_submissionID b)),
              (''prepared_message'', preparedJSON (dr_message b))]"

definition WriteJSON :: "int \<Rightarrow> json \<Rightarrow> wop list" where
  "WriteJSON status body =
     [SetHeader ''Content-Type'' mimeJSON, WriteHeader status, Write (jsonEncode body @ [CHR 0x0A])]"

fun addFieldError :: "string \<times> string \<Rightarrow> (string \<times> string) list \<Rightarrow> (string \<times> string) list" where
  "addFieldError (name, msg) flds = (if map_of flds name = None then mapSet name msg flds else flds)"

definition Validation :: "string list \<Rightarrow> (string \<times> string) list \<Rightarrow> error_body" where
  "Validation missingRequired fieldErrors =
     (let required = fold (\<lambda>name flds. mapSet name ''required'' flds) missingRequired [];
          flds = fold addFieldError fieldErrors required
      in \<lparr>err_error = ''validation failed'', err_code = ''validation_failed'', err_fields = flds\<rparr>)"

datatype mode = ModeJSON | ModeRedirect

definition Negotiate :: "gostd \<Rightarrow> string \<Rightarrow> bool \<Rightarrow> mode" where
  "Negotiate g acceptHeader hasRedirects =
     (if \<not> hasRedirects then ModeJSON
      else
        (let accept = ToLower g acceptHeader in
         if accept = [] then ModeRedirect
         else
           (let wantsJSON = contains accept ''application/json'';
                wantsHTML = contains accept ''text/html''
            in if wantsJSON \<and> \<not> wantsHTML then ModeJSON else ModeRedirect)))"

subsection \<open>Lemmas\<close>

lemma fold_required:
  "map_of (fold (\<lambda>name flds. mapSet name v flds) names m) n = (if n \<in> set names then Some v else map_of m n)"
  by (induction names arbitrary: m) auto

lemma fold_required_distinct:
  "distinct (map fst m) \<Longrightarrow> distinct (map fst (fold (\<lambda>name flds. mapSet name v flds) names m))"
  by (induction names arbitrary: m) auto

lemma addFieldError_lookup:
  "map_of (addFieldError e m) n = (case map_of m n of Some v \<Rightarrow> Some v | None \<Rightarrow> map_of [e] n)"
  by (cases e) (auto split: option.split)

lemma fold_messages:
  "map_of (fold addFieldError es m) n = (case map_of m n of Some v \<Rightarrow> Some v | None \<Rightarrow> map_of es n)"
proof (induction es arbitrary: m)
  case (Cons e es)
  then show ?case by (cases e) (auto simp: addFieldError_lookup simp del: addFieldError.simps split: option.split)
qed (simp split: option.split)

lemma fold_messages_distinct:
  "distinct (map fst m) \<Longrightarrow> distinct (map fst (fold addFieldError es m))"
proof (induction es arbitrary: m)
  case (Cons e es)
  then show ?case by (cases e) simp
qed simp

lemma Validation_fields:
  "map_of (err_fields (Validation missing es)) n =
     (if n \<in> set missing then Some ''required'' else map_of es n)"
  by (simp add: Validation_def Let_def fold_messages fold_required)

lemma Validation_distinct: "distinct (map fst (err_fields (Validation missing es)))"
  by (simp add: Validation_def Let_def fold_messages_distinct fold_required_distinct)

subsection \<open>Properties\<close>

text \<open>
  The body of a 422 depends on the missing fields and the field errors as sets only: not
  on the order in which the fields are checked or a Go map is visited; a field that is missing
  is reported as required even when it also has a format error.
\<close>
lemma Validation_body_deterministic:
  assumes "set missing = set missing'" and "sameMap es es'"
  shows "jsonEncode (errorJSON (Validation missing es)) = jsonEncode (errorJSON (Validation missing' es')) \<and>
         map_of (err_fields (Validation missing es)) n =
           (if n \<in> set missing then Some ''required'' else map_of es n)"
proof (intro conjI)
  have "map_of (err_fields (Validation missing es)) = map_of (err_fields (Validation missing' es'))"
    using assms by (auto simp: fun_eq_iff Validation_fields sameMap_def)
  then have same: "sameMap (err_fields (Validation missing es)) (err_fields (Validation missing' es'))"
    by (simp add: sameMap_def Validation_distinct)
  from sameMap_set [OF this]
  have "err_fields (Validation missing es) = [] \<longleftrightarrow> err_fields (Validation missing' es') = []"
    by (metis set_empty)
  then show "jsonEncode (errorJSON (Validation missing es)) = jsonEncode (errorJSON (Validation missing' es'))"
    using sameMap_sort [OF same] by (simp add: errorJSON_def jsonMap_def Validation_def Let_def)
  show "map_of (err_fields (Validation missing es)) n =
           (if n \<in> set missing then Some ''required'' else map_of es n)"
    by (rule Validation_fields)
qed

lemma Validation_body_deterministic_witness:
  "jsonEncode (errorJSON (Validation [''b'', ''a''] [(''a'', ''x''), (''c'', ''y'')])) =
   jsonEncode (errorJSON (Validation [''a'', ''b''] [(''c'', ''y''), (''a'', ''x'')])) \<and>
   map_of (err_fields (Validation [''b'', ''a''] [(''a'', ''x''), (''c'', ''y'')])) ''a'' = Some ''required''"
proof -
  have "sameMap [(''a'', ''x''), (''c'', ''y'')] [(''c'', ''y''), (''a'', ''x'')]"
    by (auto simp: sameMap_def)
  moreover have "set [''b'', ''a''] = set [''a'', ''b'']" by auto
  ultimately show ?thesis
    using Validation_body_deterministic [of "[''b'', ''a'']" "[''a'', ''b'']"] by simp
qed

end
