(* ===== verification/Validate.thy ===== *)
theory Validate
  imports Std
begin

text \<open>core/validate/validate.go: required fields and the syntax of e-mail addresses.\<close>

definition anyNonEmpty :: "string list \<Rightarrow> bool" where
  "anyNonEmpty vs = list_ex (\<lambda>v. trimSpace v \<noteq> []) vs"

fun RequiredFields :: "values_map \<Rightarrow> string list \<Rightarrow> string list" where
  "RequiredFields form [] = []"
| "RequiredFields form (name # required) =
     (case map_of form name of
        None \<Rightarrow> name # RequiredFields form required
      | Some vs \<Rightarrow>
          if \<not> anyNonEmpty vs then name # RequiredFields form required
          else RequiredFields form required)"

definition Email :: "gostd \<Rightarrow> string \<Rightarrow> bool" where
  "Email g s = (if s = [] then False else (case mailParse g s of None \<Rightarrow> False | Some _ \<Rightarrow> True))"

definition BareEmail :: "gostd \<Rightarrow> string \<Rightarrow> bool" where
  "BareEmail g s =
     (if s = [] then False
      else (case mailParse g s of None \<Rightarrow> False | Some (name, addr) \<Rightarrow> name = [] \<and> addr = s))"

text \<open>A field is filled when one of its values is not blank.\<close>

definition filled :: "values_map \<Rightarrow> string \<Rightarrow> bool" where
  "filled form name = (case map_of form name of None \<Rightarrow> False | Some vs \<Rightarrow> anyNonEmpty vs)"

lemma RequiredFields_filter: "RequiredFields form required = filter (\<lambda>n. \<not> filled form n) required"
  by (induction required) (auto simp: filled_def split: option.splits)

lemma RequiredFields_Nil: "RequiredFields form required = [] \<longleftrightarrow> (\<forall>n \<in> set required. filled form n)"
  by (auto simp: RequiredFields_filter filter_empty_conv)

lemma BareEmail_Email: "BareEmail g s \<Longrightarrow> Email g s"
  by (auto simp: BareEmail_def Email_def split: option.splits if_splits)

end
