(* ===== verification/Logging.thy ===== *)
theory Logging
  imports Prelude
begin

text \<open>
  core/log/log.go: loggers, their levels and the submission id. The JSON encoding of a record and
  the UUID source are library code; a record of a logger is an event of the component that logs it.
\<close>

datatype level = LevelDebug | LevelInfo | LevelWarn | LevelError

definition parseLevel :: "string \<Rightarrow> level" where
  "parseLevel s =
     (if s = ''debug'' then LevelDebug
      else if s = ''warn'' then LevelWarn
      else if s = ''error'' then LevelError
      else LevelInfo)"

text \<open>slog's levels are ordered by their numbers; a handler writes records of its level and above.\<close>

fun levelNumber :: "level \<Rightarrow> int" where
  "levelNumber LevelDebug = -4"
| "levelNumber LevelInfo = 0"
| "levelNumber LevelWarn = 4"
| "levelNumber LevelError = 8"

lemma levelNumber_inj: "levelNumber a = levelNumber b \<longleftrightarrow> a = b"
  by (cases a; cases b) simp_all

instantiation level :: linorder
begin

definition less_eq_level :: "level \<Rightarrow> level \<Rightarrow> bool" where
  "less_eq_level a b \<longleftrightarrow> levelNumber a \<le> levelNumber b"

definition less_level :: "level \<Rightarrow> level \<Rightarrow> bool" where
  "less_level a b \<longleftrightarrow> levelNumber a < levelNumber b"

instance
  by standard (auto simp: less_eq_level_def less_level_def levelNumber_inj)

end

text \<open>Errors are written at every configured level, and what a higher level writes a lower one does.\<close>

lemma errors_written: "parseLevel s \<le> LevelError"
  by (simp add: parseLevel_def less_eq_level_def)

lemma parseLevel_default: "s \<notin> {''debug'', ''warn'', ''error''} \<Longrightarrow> parseLevel s = LevelInfo"
  by (simp add: parseLevel_def)

subsection \<open>Loggers\<close>

text \<open>Where a JSON handler writes: standard output, a given writer, or io.Discard.\<close>

datatype sink = Stdout | WriterSink nat | DiscardSink

record logger =
  log_sink :: sink
  log_level :: level

definition NewWithWriter :: "sink \<Rightarrow> string \<Rightarrow> logger" where
  "NewWithWriter w lvl = \<lparr>log_sink = w, log_level = parseLevel lvl\<rparr>"

definition log_New :: "string \<Rightarrow> logger" where
  "log_New lvl = NewWithWriter Stdout lvl"

text \<open>Without a level in its options a handler takes LevelInfo.\<close>

definition Discard :: logger where
  "Discard = \<lparr>log_sink = DiscardSink, log_level = LevelInfo\<rparr>"

text \<open>The sinks that a record of a level reaches.\<close>

definition reaches :: "logger \<Rightarrow> level \<Rightarrow> sink set" where
  "reaches l r = (if log_level l \<le> r \<and> log_sink l \<noteq> DiscardSink then {log_sink l} else {})"

text \<open>\<open>random\<close> is what uuid.NewRandom returns; Inl is a panic with its text.\<close>

definition SubmissionID :: "string + string \<Rightarrow> string + string" where
  "SubmissionID random = map_sum (\<lambda>err. ''log: uuid.NewRandom failed: '' @ err) id random"

lemma configured_logger_keeps_errors: "reaches (log_New lvl) LevelError = {Stdout}"
  using errors_written [of lvl] by (simp add: reaches_def log_New_def NewWithWriter_def)

lemma discard_reaches_nothing: "reaches Discard r = {}"
  by (simp add: reaches_def Discard_def)

lemma debug_only_when_asked: "reaches (log_New lvl) LevelDebug \<noteq> {} \<longleftrightarrow> lvl = ''debug''"
  by (simp add: reaches_def log_New_def NewWithWriter_def parseLevel_def less_eq_level_def)

end
