(* ===== verification/Gateway.thy ===== *)
theory Gateway
  imports GatewayForm Config Template Spam ProxyIP Idempotency Response Validate Logging
begin

text \<open>
  core/gateway/handler.go: the HTTP handler of one endpoint. \<open>gateway_New\<close> builds it from the
  endpoint's configuration; \<open>ServeHTTP\<close> is the whole request pipeline, from the method check to
  the response, with the rate limiter and the idempotency cache as the state that one request
  leaves to the next. Deferred calls run at the end of the function that defers them.
\<close>

subsection \<open>The handler\<close>

definition defaultEmailField :: string where "defaultEmailField = ''email''"
definition toOverrideField :: string where "toOverrideField = ''to_override''"
definition defaultCSRFTokenTTL :: duration where "defaultCSRFTokenTTL = 3600 * second"

record 'tp handler =
  h_cfg :: endpoint_config
  h_transport :: 'tp
  h_renderer :: renderer
  h_trustedProxies :: "prefix list"
  h_emailField :: string
  h_maxBodySize :: int
  h_logFailedSubmissions :: bool
  h_csrfTokenTTL :: duration
  h_recorder :: bool               \<comment> \<open>a Recorder was passed\<close>

record ('l, 'c) handler_state =
  hs_limiter :: "'l limiter option"
  hs_idem :: "'c idem_cache option"

datatype new_error =
    NilTransport
  | TemplateError tpl_error
  | MaxBodySizeError size_error
  | TrustedProxiesError prefix_error
  | RateLimitError limiter_error
  | IdempotencyError idem_new_error

definition reservedNames :: "endpoint_config \<Rightarrow> string list" where
  "reservedNames cfg =
     ep_Required cfg @ [if ep_EmailField cfg = [] then defaultEmailField else ep_EmailField cfg]
     @ (if ep_Honeypot cfg \<noteq> [] then [ep_Honeypot cfg] else [])
     @ (if ep_Auth cfg = AuthAPIKey then [toOverrideField] else [])
     @ (if ep_CSRFSecret cfg \<noteq> [] then [TokenField] else [])"

definition newLimiter ::
  "('l, string, nat) lru_ops \<Rightarrow> endpoint_config \<Rightarrow> limiter_error + 'l limiter option" where
  "newLimiter lops cfg =
     (case ep_RateLimit cfg of
        None \<Rightarrow> Inr None
      | Some rl \<Rightarrow> map_sum id Some (ratelimit_New lops (rl_Count rl) (rl_Interval rl) 0))"

definition newIdemCache ::
  "('c, string, idem_entry) lru_ops \<Rightarrow> endpoint_config \<Rightarrow> idem_new_error + 'c idem_cache option" where
  "newIdemCache cops cfg =
     (if ep_Auth cfg = AuthAPIKey then
        (let cap = (if ep_IdempotencyCacheSize cfg \<le> 0 then DefaultCapacity else ep_IdempotencyCacheSize cfg)
         in map_sum id Some (idem_New cops cap DefaultTTL))
      else Inr None)"

definition gateway_New ::
  "engine \<Rightarrow> gostd \<Rightarrow> ('l, string, nat) lru_ops \<Rightarrow> ('c, string, idem_entry) lru_ops \<Rightarrow>
   endpoint_config \<Rightarrow> 'tp option \<Rightarrow> bool \<Rightarrow> new_error + 'tp handler \<times> ('l, 'c) handler_state" where
  "gateway_New e g lops cops cfg t withRecorder =
     (case t of
        None \<Rightarrow> Inl NilTransport
      | Some tp \<Rightarrow>
     (case NewRenderer e (ep_Subject cfg) (ep_Body cfg) (reservedNames cfg) of
        Inl err \<Rightarrow> Inl (TemplateError err)
      | Inr renderer \<Rightarrow>
     (case ParseSize g (ep_MaxBodySize cfg) of
        Inl err \<Rightarrow> Inl (MaxBodySizeError err)
      | Inr maxBody \<Rightarrow>
     (case ParsePrefixes (ep_TrustedProxies cfg) of
        Inl err \<Rightarrow> Inl (TrustedProxiesError err)
      | Inr prefixes \<Rightarrow>
     (case newLimiter lops cfg of
        Inl err \<Rightarrow> Inl (RateLimitError err)
      | Inr limiter \<Rightarrow>
     (case newIdemCache cops cfg of
        Inl err \<Rightarrow> Inl (IdempotencyError err)
      | Inr idemCache \<Rightarrow>
          Inr (\<lparr>h_cfg = cfg, h_transport = tp, h_renderer = renderer, h_trustedProxies = prefixes,
                h_emailField = (if ep_EmailField cfg = [] then defaultEmailField else ep_EmailField cfg),
                h_maxBodySize = maxBody,
                h_logFailedSubmissions = (case ep_LogFailedSubmissions cfg of None \<Rightarrow> True | Some b \<Rightarrow> b),
                h_csrfTokenTTL = (if ep_CSRFTokenTTL cfg = 0 then defaultCSRFTokenTTL else ep_CSRFTokenTTL cfg),
                h_recorder = withRecorder\<rparr>,
               \<lparr>hs_limiter = limiter, hs_idem = idemCache\<rparr>)))))))"

text \<open>
  The options of New, applied in order to the defaults (a logger that drops everything and no
  recorder); WithLogger keeps the logger where it is given a nil one.
\<close>

datatype gw_option = WithLogger "logger option" | WithRecorder bool

fun applyOption :: "gw_option \<Rightarrow> logger \<times> bool \<Rightarrow> logger \<times> bool" where
  "applyOption (WithLogger l) (lg, rc) = ((case l of None \<Rightarrow> lg | Some l' \<Rightarrow> l'), rc)"
| "applyOption (WithRecorder r) (lg, rc) = (lg, r)"

definition applyOptions :: "gw_option list \<Rightarrow> logger \<times> bool" where
  "applyOptions opts = fold applyOption opts (Discard, False)"

lemma applyOptions_logger:
  "fst (applyOptions opts) = Discard \<or> WithLogger (Some (fst (applyOptions opts))) \<in> set opts"
proof -
  have "fst (fold applyOption opts (lg, rc)) = lg \<or> WithLogger (Some (fst (fold applyOption opts (lg, rc)))) \<in> set opts" for lg rc
  proof (induction opts arbitrary: lg rc)
    case (Cons opt opts)
    show ?case
    proof (cases opt)
      case (WithLogger l)
      then show ?thesis using Cons [of "case l of None \<Rightarrow> lg | Some l' \<Rightarrow> l'" rc] by (cases l) auto
    next
      case (WithRecorder r)
      then show ?thesis using Cons [of lg r] by auto
    qed
  qed simp
  then show ?thesis by (simp add: applyOptions_def)
qed

subsection \<open>The environment of a request\<close>

text \<open>The points at which the pipeline reads the clock (other than for latencies in the logs).\<close>

datatype clock_point = AtLookup | AtClaim | AtAllow | AtCSRF | AtStore

text \<open>
  \<open>ge_parseForm\<close> is r.ParseForm under the given body cap (0: none), \<open>ge_decodeJSON\<close> the JSON
  decoder; \<open>ge_location\<close> the Location header http.Redirect makes of a URL for this request.
\<close>

record 'tp gw_env =
  ge_std :: gostd
  ge_engine :: engine
  ge_print :: go_print
  ge_now :: "clock_point \<Rightarrow> time"
  ge_submissionID :: string
  ge_latency :: duration
  ge_parseForm :: "http_request \<Rightarrow> int \<Rightarrow> body_error + values_map"
  ge_decodeJSON :: "http_request \<Rightarrow> int \<Rightarrow> body_error + (string \<times> jsonval) list \<times> bool"
  ge_location :: "http_request \<Rightarrow> string \<Rightarrow> string"
  ge_send :: "'tp \<Rightarrow> nat \<Rightarrow> message \<Rightarrow> send_outcome"
  ge_ctxDone :: "duration \<Rightarrow> bool"

type_synonym served = "wop list \<times> gw_event list"

text \<open>A method call on a nil Recorder does nothing.\<close>

definition metric :: "'tp handler \<Rightarrow> recorder_call \<Rightarrow> gw_event list" where
  "metric h c = (if h_recorder h then [Metric c] else [])"

subsection \<open>Responses\<close>

definition wantsRedirect :: "'tp gw_env \<Rightarrow> http_request \<Rightarrow> string \<Rightarrow> bool" where
  "wantsRedirect v r url = (url \<noteq> [] \<and> Negotiate (ge_std v) (headerGet (r_header r) ''Accept'') True = ModeRedirect)"

definition writeSuccessResponse :: "'tp gw_env \<Rightarrow> 'tp handler \<Rightarrow> http_request \<Rightarrow> success_body \<Rightarrow> wop list" where
  "writeSuccessResponse v h r body =
     (if wantsRedirect v r (ep_RedirectSuccess (h_cfg h))
      then httpRedirect (ge_location v r (ep_RedirectSuccess (h_cfg h))) 303
      else WriteJSON 200 (successJSON body))"

definition writeErrorResponse :: "'tp gw_env \<Rightarrow> 'tp handler \<Rightarrow> http_request \<Rightarrow> int \<Rightarrow> string \<Rightarrow> wop list" where
  "writeErrorResponse v h r status msg =
     (if wantsRedirect v r (ep_RedirectError (h_cfg h))
      then httpRedirect (ge_location v r (ep_RedirectError (h_cfg h))) 303
      else httpError msg status)"

definition writeValidationErrorResponse :: "'tp gw_env \<Rightarrow> 'tp handler \<Rightarrow> http_request \<Rightarrow> error_body \<Rightarrow> wop list" where
  "writeValidationErrorResponse v h r body =
     (if wantsRedirect v r (ep_RedirectError (h_cfg h))
      then httpRedirect (ge_location v r (ep_RedirectError (h_cfg h))) 303
      else WriteJSON 422 (errorJSON body))"

definition replayCachedResponse :: "idem_response \<Rightarrow> wop list" where
  "replayCachedResponse c =
     (if resp_contentType c \<noteq> [] then [SetHeader ''Content-Type'' (resp_contentType c)] else [])
     @ [WriteHeader (resp_status c), Write (resp_body c)]"

subsection \<open>Delivery\<close>

definition apiMode :: "'tp handler \<Rightarrow> bool" where
  "apiMode h = (ep_Auth (h_cfg h) = AuthAPIKey)"

text \<open>The recipients: None with the response body of a rejected override.\<close>

definition invalidAddresses :: "gostd \<Rightarrow> string list \<Rightarrow> string list" where
  "invalidAddresses g override = filter (\<lambda>a. \<not> Email g (trimSpace a)) override"

definition recipients :: "gostd \<Rightarrow> 'tp handler \<Rightarrow> values_map \<Rightarrow> error_body + string list" where
  "recipients g h form =
     (if \<not> apiMode h then Inr (ep_To (h_cfg h))
      else
        (case map_of form toOverrideField of
           None \<Rightarrow> Inr (ep_To (h_cfg h))
         | Some override \<Rightarrow>
             if override = []
             then Inl (Validation [] [(toOverrideField, ''must contain at least one address'')])
             else if invalidAddresses g override \<noteq> []
             then Inl (Validation [] [(toOverrideField,
                    ''invalid email address(es): ['' @ join '' '' (invalidAddresses g override) @ '']'')])
             else Inr (map trimSpace override)))"

definition replyTo :: "gostd \<Rightarrow> 'tp handler \<Rightarrow> values_map \<Rightarrow> string" where
  "replyTo g h form =
     (let field = (if ep_ReplyToEmailField (h_cfg h) = [] then h_emailField h else ep_ReplyToEmailField (h_cfg h));
          v = trimSpace (headerGet form field)
      in if v \<noteq> [] \<and> Email g v then v else [])"

definition failureLog :: "'tp handler \<Rightarrow> values_map \<Rightarrow> goerror \<Rightarrow> gw_event" where
  "failureLog h form err =
     (if h_logFailedSubmissions h
      then LogFailedForm (errorText err)
             (case redactedForm form (ep_Honeypot (h_cfg h)) of None \<Rightarrow> [] | Some f \<Rightarrow> f)
      else LogFailedNames (errorText err) (case formFieldNames form of None \<Rightarrow> [] | Some ns \<Rightarrow> ns))"

definition success :: "'tp gw_env \<Rightarrow> success_body" where
  "success v = \<lparr>suc_status = ''ok'', suc_submissionID = ge_submissionID v\<rparr>"

definition dispatch :: "'tp gw_env \<Rightarrow> 'tp handler \<Rightarrow> http_request \<Rightarrow> values_map \<Rightarrow> message \<Rightarrow> served" where
  "dispatch v h r form msg =
     (if ep_DryRun (h_cfg h) then
        (WriteJSON 200 (dryRunJSON
           \<lparr>dr_status = ''dry_run'', dr_submissionID = ge_submissionID v,
            dr_message = \<lparr>pm_from = m_from msg, pm_to = m_to msg, pm_replyTo = m_replyTo msg,
                          pm_subject = m_subject msg, pm_bodyText = m_bodyText msg\<rparr>\<rparr>),
         [LogDryRun])
      else
        (case sendWithRetry (ge_send v (h_transport h)) (ge_ctxDone v) msg of
           (Inl err, evs) \<Rightarrow>
             (httpError ''submission could not be delivered'' 502,
              evs @ [failureLog h form err]
              @ metric h (Failed (ep_Path (h_cfg h)) (tc_Type (ep_Transport (h_cfg h))) (errorClassName err)))
         | (Inr result, evs) \<Rightarrow>
             (writeSuccessResponse v h r (success v),
              evs @ [LogSent (messageID result)]
              @ metric h (Sent (ep_Path (h_cfg h)) (tc_Type (ep_Transport (h_cfg h))) (ge_latency v)))))"

definition deliver :: "'tp gw_env \<Rightarrow> 'tp handler \<Rightarrow> http_request \<Rightarrow> values_map \<Rightarrow> served" where
  "deliver v h r form =
     (let received = LogReceived # metric h (Submitted (ep_Path (h_cfg h)));
          failed = (httpError ''submission could not be processed'' 500, received @ [LogRenderFailed]) in
      case RenderSubject (ge_engine v) (h_renderer h) form of
        None \<Rightarrow> failed
      | Some subject \<Rightarrow>
          (case RenderBody (ge_engine v) (h_renderer h) form of
             None \<Rightarrow> failed
           | Some body \<Rightarrow>
               (case recipients (ge_std v) h form of
                  Inl err \<Rightarrow> (WriteJSON 422 (errorJSON err), received)
                | Inr toAddresses \<Rightarrow>
                    (let msg = \<lparr>m_from = ep_From (h_cfg h), m_to = toAddresses, m_replyTo = replyTo (ge_std v) h form,
                                m_subject = subject, m_bodyText = body\<rparr>;
                         (ops, evs) = dispatch v h r form msg
                     in (ops, received @ evs)))))"

subsection \<open>Checks on the form\<close>

definition fieldErrors :: "gostd \<Rightarrow> 'tp handler \<Rightarrow> values_map \<Rightarrow> (string \<times> string) list" where
  "fieldErrors g h form =
     (let v = trimSpace (headerGet form (h_emailField h)) in
      if v \<noteq> [] \<and> \<not> Email g v then [(h_emailField h, ''invalid email format'')] else [])"

definition validated :: "'tp gw_env \<Rightarrow> 'tp handler \<Rightarrow> http_request \<Rightarrow> values_map \<Rightarrow> served" where
  "validated v h r form =
     (let missing = RequiredFields form (ep_Required (h_cfg h)); errs = fieldErrors (ge_std v) h form in
      if missing \<noteq> [] \<or> errs \<noteq> [] then
        (writeValidationErrorResponse v h r (Validation missing errs),
         LogValidation (missing @ map fst errs) # metric h (ValidationFailed (ep_Path (h_cfg h))))
      else deliver v h r form)"

definition csrfChecked :: "'tp gw_env \<Rightarrow> 'tp handler \<Rightarrow> http_request \<Rightarrow> values_map \<Rightarrow> served" where
  "csrfChecked v h r form =
     (case (if \<not> apiMode h \<and> ep_CSRFSecret (h_cfg h) \<noteq> []
            then Verify (ge_std v) (headerGet form TokenField) (ep_CSRFSecret (h_cfg h)) (h_csrfTokenTTL h) (ge_now v AtCSRF)
            else None) of
        Some err \<Rightarrow> (writeErrorResponse v h r 403 ''forbidden'', [LogCSRF (csrfErrorText err)])
      | None \<Rightarrow> validated v h r form)"

definition formChecked :: "'tp gw_env \<Rightarrow> 'tp handler \<Rightarrow> http_request \<Rightarrow> values_map \<Rightarrow> served" where
  "formChecked v h r form =
     (if \<not> apiMode h \<and> CheckHoneypot form (ep_Honeypot (h_cfg h)) = SilentReject then
        (writeSuccessResponse v h r (success v),
         LogHoneypot # metric h (SpamBlocked (ep_Path (h_cfg h)) ''honeypot''))
      else csrfChecked v h r form)"

subsection \<open>The body\<close>

definition bodyRead :: "'tp gw_env \<Rightarrow> 'tp handler \<Rightarrow> http_request \<Rightarrow> served" where
  "bodyRead v h r =
     (if apiMode h \<and> \<not> isJSONContentType (ge_std v) (headerGet (r_header r) ''Content-Type'')
      then (httpError ''JSON body required (application/json)'' 415, [])
      else
        (case (if apiMode h then parseJSONBody (ge_print v) (ge_decodeJSON v r (h_maxBodySize h))
               else ge_parseForm v r (h_maxBodySize h)) of
           Inl TooLarge \<Rightarrow>
             (writeErrorResponse v h r 413 ''request body too large'', [LogBodyTooLarge (h_maxBodySize h)])
         | Inl (BadBody err) \<Rightarrow>
             (httpError ((if apiMode h then ''parse JSON: '' else ''parse form: '') @ err) 400, [])
         | Inr form \<Rightarrow> formChecked v h r form))"

subsection \<open>The rate limit\<close>

definition rateLimited ::
  "('l, string, nat) lru_ops \<Rightarrow> 'tp gw_env \<Rightarrow> 'tp handler \<Rightarrow> http_request \<Rightarrow> string \<Rightarrow> 'l limiter option
     \<Rightarrow> served \<times> 'l limiter option" where
  "rateLimited lops v h r key lmt =
     (case lmt of
        None \<Rightarrow> (bodyRead v h r, None)
      | Some l \<Rightarrow>
          (let (allowed, l1) = allowAt lops key (ge_now v AtAllow) l in
           if \<not> allowed then
             ((writeErrorResponse v h r 429 ''rate limit exceeded'',
               LogRateLimited (if \<not> apiMode h \<and> \<not> ep_StripClientIP (h_cfg h) then Some key else None)
               # metric h (RateLimited (ep_Path (h_cfg h)))),
              Some l1)
           else (bodyRead v h r, Some l1)))"

subsection \<open>Idempotency\<close>

definition finalizeIdempotent ::
  "('c, string, idem_entry) lru_ops \<Rightarrow> time \<Rightarrow> string \<Rightarrow> recording \<Rightarrow> 'c idem_cache \<Rightarrow> 'c idem_cache" where
  "finalizeIdempotent cops now idemKey rw c =
     (let cacheable = (rw_status rw = 200 \<or> rw_status rw = 422) in
      if \<not> cacheable then idem_Abandon idemKey c
      else idem_Store cops now idemKey
             \<lparr>resp_status = rw_status rw, resp_body = rw_body rw, resp_contentType = rw_contentType rw\<rparr> c)"

definition conflict :: "string \<Rightarrow> served" where
  "conflict idemKey = (httpError ''duplicate request in flight for this Idempotency-Key'' 409, [LogConflict idemKey])"

text \<open>An API request with a key, after authentication.\<close>

definition idempotent ::
  "('l, string, nat) lru_ops \<Rightarrow> ('c, string, idem_entry) lru_ops \<Rightarrow> 'tp gw_env \<Rightarrow> 'tp handler \<Rightarrow> http_request
     \<Rightarrow> string \<Rightarrow> string \<Rightarrow> 'l limiter option \<Rightarrow> 'c idem_cache \<Rightarrow> served \<times> 'l limiter option \<times> 'c idem_cache" where
  "idempotent lops cops v h r apiKey idemKey lmt c =
     (case ValidateKey idemKey of
        Some err \<Rightarrow> ((httpError (keyErrorText err) 400, []), lmt, c)
      | None \<Rightarrow>
          (case idem_Lookup cops (ge_now v AtLookup) idemKey c of
             ((Some cached, _), c1) \<Rightarrow>
               ((replayCachedResponse cached,
                 LogReplay idemKey (resp_status cached) # metric h (IdempotentReplay (ep_Path (h_cfg h)))), lmt, c1)
           | ((None, inFlight), c1) \<Rightarrow>
               if inFlight then (conflict idemKey, lmt, c1)
               else
                 (case ClaimInFlight cops (ge_now v AtClaim) idemKey c1 of
                    (claimed, c2) \<Rightarrow>
                      if \<not> claimed then (conflict idemKey, lmt, c2)
                      else
                        (case rateLimited lops v h r apiKey lmt of
                           ((ops, evs), lmt1) \<Rightarrow>
                             ((ops, evs), lmt1,
                              finalizeIdempotent cops (ge_now v AtStore) idemKey
                                (rw_run ops (newRecording newWriter)) c2)))))"

subsection \<open>The request\<close>

definition originChecked :: "'tp gw_env \<Rightarrow> 'tp handler \<Rightarrow> http_request \<Rightarrow> served option" where
  "originChecked v h r =
     (let allowed = (case ep_AllowedOrigins (h_cfg h) of None \<Rightarrow> [] | Some os \<Rightarrow> os);
          (origin, referer) = ExtractOriginAndReferer r in
      if allowed = [] then None
      else
        (let (result, reason) = CheckOrigin (ge_std v) origin referer allowed in
         if result = HardReject
         then Some (writeErrorResponse v h r 403 ''forbidden'',
                    LogOrigin (reasonText (quote (ge_print v)) reason) # metric h (SpamBlocked (ep_Path (h_cfg h)) ''origin''))
         else None))"

text \<open>New gives every handler in API mode its cache, so the cache is there when a key is.\<close>

definition serveAPI ::
  "('l, string, nat) lru_ops \<Rightarrow> ('c, string, idem_entry) lru_ops \<Rightarrow> 'tp gw_env \<Rightarrow> 'tp handler \<Rightarrow> http_request
     \<Rightarrow> ('l, 'c) handler_state \<Rightarrow> served \<times> ('l, 'c) handler_state" where
  "serveAPI lops cops v h r s =
     (case authenticateAPIRequest (ep_APIKeys (h_cfg h)) r of
        None \<Rightarrow> ((httpError ''unauthorized'' 401, LogAuthFailed # metric h (AuthFailed (ep_Path (h_cfg h)))), s)
      | Some apiKey \<Rightarrow>
          (let idemKey = headerGet (r_header r) ''Idempotency-Key'' in
           case (if idemKey = [] then None else hs_idem s) of
             Some c \<Rightarrow>
               (case idempotent lops cops v h r apiKey idemKey (hs_limiter s) c of
                  (out, lmt1, c1) \<Rightarrow> (out, s\<lparr>hs_limiter := lmt1, hs_idem := Some c1\<rparr>))
           | None \<Rightarrow>
               (case rateLimited lops v h r apiKey (hs_limiter s) of
                  (out, lmt1) \<Rightarrow> (out, s\<lparr>hs_limiter := lmt1\<rparr>))))"

definition serveForm ::
  "('l, string, nat) lru_ops \<Rightarrow> 'tp gw_env \<Rightarrow> 'tp handler \<Rightarrow> http_request
     \<Rightarrow> ('l, 'c) handler_state \<Rightarrow> served \<times> ('l, 'c) handler_state" where
  "serveForm lops v h r s =
     (if \<not> isFormContentType (ge_std v) (headerGet (r_header r) ''Content-Type'')
      then ((httpError ''form-encoded body required (application/x-www-form-urlencoded or multipart/form-data)'' 400, []), s)
      else
        (case originChecked v h r of
           Some out \<Rightarrow> (out, s)
         | None \<Rightarrow>
             (case rateLimited lops v h r (ClientIP r (h_trustedProxies h)) (hs_limiter s) of
                (out, lmt1) \<Rightarrow> (out, s\<lparr>hs_limiter := lmt1\<rparr>))))"

definition ServeHTTP ::
  "('l, string, nat) lru_ops \<Rightarrow> ('c, string, idem_entry) lru_ops \<Rightarrow> 'tp gw_env \<Rightarrow> 'tp handler \<Rightarrow> http_request
     \<Rightarrow> ('l, 'c) handler_state \<Rightarrow> served \<times> ('l, 'c) handler_state" where
  "ServeHTTP lops cops v h r s =
     (if r_method r \<noteq> ''POST'' then ((httpError ''method not allowed'' 405, []), s)
      else if apiMode h then serveAPI lops cops v h r s
      else serveForm lops v h r s)"

end
