(* ===== verification/GatewayProps.thy ===== *)
theory GatewayProps
  imports Gateway
begin

text \<open>
  What the request pipeline of core/gateway/handler.go guarantees: which checks a request has
  passed when mail is sent, what that mail is, the retry policy, the shape of every response, and
  the replay of responses under an idempotency key.
\<close>

subsection \<open>Where mail is sent\<close>

definition sendings :: "gw_event list \<Rightarrow> message list" where
  "sendings evs = List.map_filter (\<lambda>e. case e of Sending m \<Rightarrow> Some m | _ \<Rightarrow> None) evs"

lemma sendings_simps [simp]:
  "sendings [] = []"
  "sendings (Sending m # evs) = m # sendings evs"
  "sendings (evs @ evs') = sendings evs @ sendings evs'"
  "sendings (LogReceived # evs) = sendings evs"
  "sendings (LogHoneypot # evs) = sendings evs"
  "sendings (LogOrigin reason # evs) = sendings evs"
  "sendings (LogValidation fs # evs) = sendings evs"
  "sendings (LogRateLimited ip # evs) = sendings evs"
  "sendings (LogAuthFailed # evs) = sendings evs"
  "sendings (LogReplay key code # evs) = sendings evs"
  "sendings (LogRetryScheduled a st d # evs) = sendings evs"
  "sendings [LogRenderFailed] = []"
  "sendings [LogDryRun] = []"
  "sendings [LogCSRF a] = []"
  "sendings [LogConflict a] = []"
  "sendings [LogBodyTooLarge n] = []"
  "sendings [LogRetryFailed a] = []"
  "sendings [LogRetrySucceeded] = []"
  "sendings (LogSent a # evs) = sendings evs"
  "sendings (metric h c) = []"
  by (simp_all add: sendings_def List.map_filter_def metric_def)

lemma sendings_failureLog [simp]: "sendings (failureLog h form err # evs) = sendings evs"
  by (simp add: failureLog_def sendings_def List.map_filter_def)

text \<open>A field has a value with something other than blanks; an address the parser of net/mail accepts.\<close>

definition nonBlank :: "values_map \<Rightarrow> string \<Rightarrow> bool" where
  "nonBlank form name \<longleftrightarrow> (\<exists>vs. map_of form name = Some vs \<and> (\<exists>x \<in> set vs. trimSpace x \<noteq> []))"

definition validAddress :: "gostd \<Rightarrow> string \<Rightarrow> bool" where
  "validAddress g a \<longleftrightarrow> a \<noteq> [] \<and> mailParse g a \<noteq> None"

lemma filled_iff: "filled form name \<longleftrightarrow> nonBlank form name"
  by (simp add: filled_def nonBlank_def anyNonEmpty_def list_ex_iff split: option.split)

lemma Email_iff: "Email g a \<longleftrightarrow> validAddress g a"
  by (simp add: Email_def validAddress_def split: option.split)

text \<open>The honeypot is filled.\<close>

definition trapped :: "'tp handler \<Rightarrow> values_map \<Rightarrow> bool" where
  "trapped h form \<longleftrightarrow> ep_Honeypot (h_cfg h) \<noteq> [] \<and> nonBlank form (ep_Honeypot (h_cfg h))"

lemma CheckHoneypot_trapped: "CheckHoneypot form (ep_Honeypot (h_cfg h)) = (if trapped h form then SilentReject else Pass)"
  by (auto simp: CheckHoneypot_def trapped_def nonBlank_def list_ex_iff split: option.splits)

text \<open>The form-level checks, in the order-free form.\<close>

definition formAccepted :: "'tp gw_env \<Rightarrow> 'tp handler \<Rightarrow> values_map \<Rightarrow> bool" where
  "formAccepted v h form \<longleftrightarrow>
     list_all (nonBlank form) (ep_Required (h_cfg h)) \<and>
     (let e = trimSpace (headerGet form (h_emailField h)) in e = [] \<or> validAddress (ge_std v) e) \<and>
     (apiMode h \<or>
      \<not> trapped h form \<and>
      (ep_CSRFSecret (h_cfg h) = [] \<or>
       Verify (ge_std v) (headerGet form ''_csrf_token'') (ep_CSRFSecret (h_cfg h)) (h_csrfTokenTTL h) (ge_now v AtCSRF) = None))"

lemma formAccepted_iff:
  "formAccepted v h form \<longleftrightarrow>
     list_all (filled form) (ep_Required (h_cfg h)) \<and>
     (let e = trimSpace (headerGet form (h_emailField h)) in e = [] \<or> Email (ge_std v) e) \<and>
     (apiMode h \<or>
      \<not> trapped h form \<and>
      (ep_CSRFSecret (h_cfg h) = [] \<or>
       Verify (ge_std v) (headerGet form TokenField) (ep_CSRFSecret (h_cfg h)) (h_csrfTokenTTL h) (ge_now v AtCSRF) = None))"
  by (simp add: formAccepted_def filled_iff [abs_def] Email_iff TokenField_def)

text \<open>
  The recipients: those of the endpoint, in form mode always; in API mode the addresses of the
  override field where the request has one, all of them valid and at least one.
\<close>

definition addressees :: "gostd \<Rightarrow> 'tp handler \<Rightarrow> values_map \<Rightarrow> string list \<Rightarrow> bool" where
  "addressees g h form to \<longleftrightarrow>
     (if apiMode h \<and> map_of form ''to_override'' \<noteq> None
      then \<exists>as. map_of form ''to_override'' = Some as \<and> as \<noteq> [] \<and> (\<forall>a \<in> set as. validAddress g (trimSpace a)) \<and>
             to = map trimSpace as
      else to = ep_To (h_cfg h))"

lemma recipients_iff: "recipients g h form = Inr to \<longleftrightarrow> addressees g h form to"
  by (auto simp: recipients_def addressees_def Email_iff toOverrideField_def invalidAddresses_def filter_empty_conv split: option.split)

text \<open>The field that Reply-To is taken from, and its use only where it holds a valid address.\<close>

definition repliesTo :: "gostd \<Rightarrow> 'tp handler \<Rightarrow> values_map \<Rightarrow> string \<Rightarrow> bool" where
  "repliesTo g h form to \<longleftrightarrow>
     (\<exists>field. (ep_ReplyToEmailField (h_cfg h) = [] \<longrightarrow> field = h_emailField h) \<and>
        (ep_ReplyToEmailField (h_cfg h) \<noteq> [] \<longrightarrow> field = ep_ReplyToEmailField (h_cfg h)) \<and>
        (if validAddress g (trimSpace (headerGet form field)) then to = trimSpace (headerGet form field) else to = []))"

lemma repliesTo_iff: "repliesTo g h form to \<longleftrightarrow> to = replyTo g h form"
  by (auto simp: repliesTo_def replyTo_def Email_iff validAddress_def Let_def)

text \<open>The message a form makes.\<close>

definition messageOf :: "'tp gw_env \<Rightarrow> 'tp handler \<Rightarrow> values_map \<Rightarrow> message \<Rightarrow> bool" where
  "messageOf v h form m \<longleftrightarrow>
     addressees (ge_std v) h form (m_to m) \<and>
     RenderSubject (ge_engine v) (h_renderer h) form = Some (m_subject m) \<and>
     RenderBody (ge_engine v) (h_renderer h) form = Some (m_bodyText m) \<and>
     m_from m = ep_From (h_cfg h) \<and> repliesTo (ge_std v) h form (m_replyTo m)"

lemma sendWithRetry_sendings: "set (sendings (snd (sendWithRetry send d msg))) = {msg}"
  by (auto simp: sendWithRetry_def Let_def split: sum.splits option.splits)

lemma dispatch_sendings:
  "m \<in> set (sendings (snd (dispatch v h r form msg))) \<longleftrightarrow> m = msg \<and> \<not> ep_DryRun (h_cfg h)"
proof -
  obtain out evs where o: "sendWithRetry (ge_send v (h_transport h)) (ge_ctxDone v) msg = (out, evs)"
    by fastforce
  moreover have "set (sendings evs) = {msg}"
    using sendWithRetry_sendings [of "ge_send v (h_transport h)" "ge_ctxDone v" msg] o by simp
  ultimately show ?thesis by (cases out) (simp_all add: dispatch_def)
qed

lemma deliver_sendings:
  "m \<in> set (sendings (snd (deliver v h r form))) \<longleftrightarrow> messageOf v h form m \<and> \<not> ep_DryRun (h_cfg h)"
  by (cases m) (auto simp: deliver_def messageOf_def Let_def case_prod_unfold dispatch_sendings repliesTo_iff
      simp flip: recipients_iff split: option.splits sum.splits)

lemma validated_sendings:
  "m \<in> set (sendings (snd (validated v h r form))) \<longleftrightarrow>
     list_all (filled form) (ep_Required (h_cfg h)) \<and>
     (let e = trimSpace (headerGet form (h_emailField h)) in e = [] \<or> Email (ge_std v) e) \<and>
     messageOf v h form m \<and> \<not> ep_DryRun (h_cfg h)"
  by (auto simp: validated_def Let_def fieldErrors_def RequiredFields_Nil list_all_iff deliver_sendings)

lemma formChecked_sendings:
  "m \<in> set (sendings (snd (formChecked v h r form))) \<longleftrightarrow>
     formAccepted v h form \<and> messageOf v h form m \<and> \<not> ep_DryRun (h_cfg h)"
  by (auto simp: formChecked_def csrfChecked_def formAccepted_iff validated_sendings CheckHoneypot_trapped split: option.splits)

text \<open>The media type of a Content-Type header: what stands before a semicolon, in lower case.\<close>

definition mediaType :: "gostd \<Rightarrow> string \<Rightarrow> string" where
  "mediaType g ct = trimSpace (ToLower g (takeWhile (\<lambda>c. c \<noteq> CHR '';'') ct))"

lemma before_byte: "(case indexByte s b of None \<Rightarrow> s | Some i \<Rightarrow> take i s) = takeWhile (\<lambda>c. c \<noteq> b) s"
proof (induction s)
  case (Cons c s)
  then show ?case by (cases "indexByte s b") auto
qed simp

lemma mediaOf_iff: "mediaOf g ct = mediaType g ct"
  by (simp add: mediaOf_def mediaType_def before_byte)

text \<open>
  A JSON object as a form: null members are left out, the others are scalars or arrays of scalars,
  each scalar as text.
\<close>

fun scalarText :: "go_print \<Rightarrow> jsonval \<Rightarrow> string option" where
  "scalarText p JNull = Some []"
| "scalarText p (JStr s) = Some s"
| "scalarText p (JBool b) = Some (if b then ''true'' else ''false'')"
| "scalarText p (JNum n) = Some (formatFloat p n)"
| "scalarText p _ = None"

definition memberTexts :: "go_print \<Rightarrow> jsonval \<Rightarrow> string list option" where
  "memberTexts p v =
     (case v of
        JArr vs \<Rightarrow> if \<forall>w \<in> set vs. scalarText p w \<noteq> None then Some (map (\<lambda>w. the (scalarText p w)) vs) else None
      | _ \<Rightarrow> map_option (\<lambda>s. [s]) (scalarText p v))"

definition jsonForm :: "go_print \<Rightarrow> (string \<times> jsonval) list \<Rightarrow> values_map \<Rightarrow> bool" where
  "jsonForm p raw form \<longleftrightarrow>
     (\<forall>(k, v) \<in> set raw. memberTexts p v \<noteq> None) \<and>
     form = map (\<lambda>(k, v). (k, the (memberTexts p v))) (filter (\<lambda>(k, v). v \<noteq> JNull) raw)"

lemma coerceJSONArray_iff:
  "coerceJSONArray p field i vs = Inr strs \<longleftrightarrow>
     (\<forall>w \<in> set vs. scalarText p w \<noteq> None) \<and> strs = map (\<lambda>w. the (scalarText p w)) vs"
proof (induction vs arbitrary: i strs)
  case (Cons v vs)
  have "scalarText p v =
      (case v of JNull \<Rightarrow> Some [] | JStr s \<Rightarrow> Some s | JBool b \<Rightarrow> Some (formatBool b) | JNum n \<Rightarrow> Some (formatJSONNumber p n) | _ \<Rightarrow> None)"
    by (cases v) (simp_all add: formatBool_def formatJSONNumber_def)
  then show ?case
    using Cons [of "Suc i"] by (cases "coerceJSONArray p field (Suc i) vs") (auto split: option.split)
qed auto

lemma memberTexts_array: "memberTexts p (JArr vs) = Some strs \<longleftrightarrow> coerceJSONArray p field i vs = Inr strs"
  by (auto simp: memberTexts_def coerceJSONArray_iff)

lemma memberTexts_scalar:
  "memberTexts p JNull = Some [[]]" "memberTexts p (JStr s) = Some [s]" "memberTexts p (JBool b) = Some [formatBool b]"
  "memberTexts p (JNum n) = Some [formatJSONNumber p n]" "memberTexts p JObj = None"
  by (simp_all add: memberTexts_def formatBool_def formatJSONNumber_def)

lemma jsonForm_Cons:
  "jsonForm p ((k, v) # raw) form \<longleftrightarrow>
     (if v = JNull then jsonForm p raw form
      else \<exists>strs rest. memberTexts p v = Some strs \<and> jsonForm p raw rest \<and> form = (k, strs) # rest)"
  by (auto simp: jsonForm_def memberTexts_scalar)

lemma coerceJSONObject_iff: "coerceJSONObject p raw = Inr form \<longleftrightarrow> jsonForm p raw form"
proof (induction raw arbitrary: form)
  case (Cons m raw)
  obtain k v where m: "m = (k, v)" by (cases m)
  have IH: "map_sum id (Cons c) (coerceJSONObject p raw) = Inr form \<longleftrightarrow> (\<exists>rest. jsonForm p raw rest \<and> form = c # rest)" for c
    using Cons by (cases "coerceJSONObject p raw") auto
  show ?case
  proof (cases v)
    case (JArr vs)
    show ?thesis
      using IH memberTexts_array [of p vs _ k 0]
      by (cases "coerceJSONArray p k 0 vs") (auto simp: m JArr jsonForm_Cons)
  qed (use IH Cons in \<open>simp_all add: m jsonForm_Cons memberTexts_scalar\<close>)
qed (auto simp: jsonForm_def)

text \<open>The form a request carries in the mode of its endpoint.\<close>

definition formOf :: "'tp gw_env \<Rightarrow> 'tp handler \<Rightarrow> http_request \<Rightarrow> values_map \<Rightarrow> bool" where
  "formOf v h r form \<longleftrightarrow>
     (if apiMode h
      then mediaType (ge_std v) (headerGet (r_header r) ''Content-Type'') = ''application/json'' \<and>
        (\<exists>raw. ge_decodeJSON v r (h_maxBodySize h) = Inr (raw, False) \<and> jsonForm (ge_print v) raw form)
      else ge_parseForm v r (h_maxBodySize h) = Inr form)"

lemma formOf_iff:
  "formOf v h r form \<longleftrightarrow>
     (if apiMode h
      then isJSONContentType (ge_std v) (headerGet (r_header r) ''Content-Type'') \<and>
        parseJSONBody (ge_print v) (ge_decodeJSON v r (h_maxBodySize h)) = Inr form
      else ge_parseForm v r (h_maxBodySize h) = Inr form)"
proof -
  have "map_sum BadBody id x = Inr form \<longleftrightarrow> x = Inr form" for x :: "string + values_map" by (cases x) auto
  then have "parseJSONBody (ge_print v) decoded = Inr form \<longleftrightarrow>
      (\<exists>raw. decoded = Inr (raw, False) \<and> jsonForm (ge_print v) raw form)" for decoded
    by (auto simp: parseJSONBody_def coerceJSONObject_iff split: sum.splits if_splits)
  then show ?thesis by (simp add: formOf_def isJSONContentType_def mediaOf_iff)
qed

lemma bodyRead_sendings:
  "m \<in> set (sendings (snd (bodyRead v h r))) \<longleftrightarrow>
     (\<exists>form. formOf v h r form \<and> formAccepted v h form \<and> messageOf v h form m \<and> \<not> ep_DryRun (h_cfg h))"
  by (auto simp: bodyRead_def formOf_iff formChecked_sendings split: sum.splits body_error.splits)

text \<open>The limiter lets the key through.\<close>

definition limiterAllows :: "('l, string, nat) lru_ops \<Rightarrow> 'l limiter option \<Rightarrow> string \<Rightarrow> time \<Rightarrow> bool" where
  "limiterAllows lops lmt key now =
     (case lmt of None \<Rightarrow> True | Some l \<Rightarrow> fst (allowAt lops key now l))"

lemma rateLimited_sendings:
  "m \<in> set (sendings (snd (fst (rateLimited lops v h r key lmt)))) \<longleftrightarrow>
     limiterAllows lops lmt key (ge_now v AtAllow) \<and> m \<in> set (sendings (snd (bodyRead v h r)))"
  by (auto simp: rateLimited_def limiterAllows_def Let_def split: option.splits prod.splits)

text \<open>The cache holds neither a response nor a request in flight under the key, and the claim succeeds.\<close>

definition keyFree ::
  "('c, string, idem_entry) lru_ops \<Rightarrow> time \<Rightarrow> time \<Rightarrow> string \<Rightarrow> 'c idem_cache \<Rightarrow> bool" where
  "keyFree cops now now' idemKey c \<longleftrightarrow>
     ValidateKey idemKey = None \<and>
     (case idem_Lookup cops now idemKey c of
        (found, c1) \<Rightarrow> found = (None, False) \<and> fst (ClaimInFlight cops now' idemKey c1))"

lemma idempotent_sendings:
  "m \<in> set (sendings (snd (fst (idempotent lops cops v h r apiKey idemKey lmt c)))) \<longleftrightarrow>
     keyFree cops (ge_now v AtLookup) (ge_now v AtClaim) idemKey c \<and>
     m \<in> set (sendings (snd (fst (rateLimited lops v h r apiKey lmt))))"
  by (auto simp: idempotent_def conflict_def keyFree_def split: option.splits prod.splits)

subsection \<open>Keys\<close>

lemma matchKeys_result: "matchKeys token ks m = k \<Longrightarrow> k = m \<or> k = token \<and> token \<in> set ks"
  by (induction token ks m rule: matchKeys.induct) (auto split: if_splits)

lemma matchKeys_hit: "token \<in> set ks \<or> m = token \<Longrightarrow> matchKeys token ks m = token"
  by (induction token ks m rule: matchKeys.induct) auto

lemma matchKeys_miss: "token \<notin> set ks \<Longrightarrow> matchKeys token ks m = m"
  by (induction token ks m rule: matchKeys.induct) auto

text \<open>Authentication: the header is the scheme in any letter case, one space, and a configured key.\<close>

definition bearsKey :: "string list \<Rightarrow> http_request \<Rightarrow> string \<Rightarrow> bool" where
  "bearsKey keys r k \<longleftrightarrow>
     k \<in> set keys \<and> k \<noteq> [] \<and>
     (\<exists>scheme. headerGet (r_header r) ''Authorization'' = scheme @ k \<and> length scheme = 7 \<and> equalFold scheme ''Bearer '')"

lemma authenticate_unfold:
  "authenticateAPIRequest keys r =
     (let a = headerGet (r_header r) ''Authorization''; k = matchKeys (drop 7 a) keys [] in
      if 7 < length a \<and> equalFold (take 7 a) ''Bearer '' \<and> k \<noteq> [] then Some k else None)"
proof -
  have n: "length ''Bearer '' = 7" by simp
  show ?thesis unfolding authenticateAPIRequest_def Let_def n by (simp add: not_le)
qed

lemma authenticate_iff: "authenticateAPIRequest keys r = Some k \<longleftrightarrow> bearsKey keys r k"
proof -
  let ?a = "headerGet (r_header r) ''Authorization''"
  have "authenticateAPIRequest keys r = Some k \<longleftrightarrow>
      7 < length ?a \<and> equalFold (take 7 ?a) ''Bearer '' \<and> matchKeys (drop 7 ?a) keys [] = k \<and> k \<noteq> []"
    by (auto simp: authenticate_unfold Let_def)
  also have "\<dots> \<longleftrightarrow> bearsKey keys r k"
  proof
    assume *: "7 < length ?a \<and> equalFold (take 7 ?a) ''Bearer '' \<and> matchKeys (drop 7 ?a) keys [] = k \<and> k \<noteq> []"
    then have "k = drop 7 ?a \<and> drop 7 ?a \<in> set keys" using matchKeys_result by fastforce
    with * have "k \<in> set keys" "k \<noteq> []" "?a = take 7 ?a @ k" "length (take 7 ?a) = 7"
      "equalFold (take 7 ?a) ''Bearer ''" by simp_all
    then show "bearsKey keys r k" unfolding bearsKey_def by blast
  next
    assume "bearsKey keys r k"
    then obtain scheme where "k \<in> set keys" "k \<noteq> []" "?a = scheme @ k" "length scheme = 7" "equalFold scheme ''Bearer ''"
      unfolding bearsKey_def by blast
    then show "7 < length ?a \<and> equalFold (take 7 ?a) ''Bearer '' \<and> matchKeys (drop 7 ?a) keys [] = k \<and> k \<noteq> []"
      using matchKeys_hit [of k keys "[]"] by simp
  qed
  finally show ?thesis .
qed

text \<open>The origin allow-list of an endpoint lets the request through.\<close>

definition originAllowed :: "'tp gw_env \<Rightarrow> 'tp handler \<Rightarrow> http_request \<Rightarrow> bool" where
  "originAllowed v h r \<longleftrightarrow>
     (case ep_AllowedOrigins (h_cfg h) of
        None \<Rightarrow> True
      | Some os \<Rightarrow> fst (CheckOrigin (ge_std v) (headerGet (r_header r) ''Origin'') (headerGet (r_header r) ''Referer'') os)
                    \<noteq> HardReject)"

lemma originChecked_None: "originChecked v h r = None \<longleftrightarrow> originAllowed v h r"
  by (auto simp: originChecked_def originAllowed_def ExtractOriginAndReferer_def CheckOrigin_def Let_def split: option.splits)

text \<open>The key of the rate limiter for an admitted request.\<close>

definition admitted :: "'tp gw_env \<Rightarrow> 'tp handler \<Rightarrow> http_request \<Rightarrow> string \<Rightarrow> bool" where
  "admitted v h r key \<longleftrightarrow>
     (if apiMode h then bearsKey (ep_APIKeys (h_cfg h)) r key
      else mediaType (ge_std v) (headerGet (r_header r) ''Content-Type'')
             \<in> {''application/x-www-form-urlencoded'', ''multipart/form-data''} \<and>
        originAllowed v h r \<and> key = ClientIP r (h_trustedProxies h))"

lemma admitted_iff:
  "admitted v h r key \<longleftrightarrow>
     (if apiMode h then bearsKey (ep_APIKeys (h_cfg h)) r key
      else isFormContentType (ge_std v) (headerGet (r_header r) ''Content-Type'') \<and> originAllowed v h r \<and>
        key = ClientIP r (h_trustedProxies h))"
  by (simp add: admitted_def isFormContentType_def mediaOf_iff Let_def)

text \<open>A request with an idempotency key finds the key free.\<close>

definition idemOpen ::
  "('c, string, idem_entry) lru_ops \<Rightarrow> 'tp gw_env \<Rightarrow> 'tp handler \<Rightarrow> http_request \<Rightarrow> ('l, 'c) handler_state \<Rightarrow> bool" where
  "idemOpen cops v h r s =
     (let idemKey = headerGet (r_header r) ''Idempotency-Key'' in
      if \<not> apiMode h \<or> idemKey = [] then True
      else
        (case hs_idem s of
           None \<Rightarrow> True
         | Some c \<Rightarrow> keyFree cops (ge_now v AtLookup) (ge_now v AtClaim) idemKey c))"

lemma serveAPI_sendings:
  "m \<in> set (sendings (snd (fst (serveAPI lops cops v h r s)))) \<and> apiMode h \<longleftrightarrow>
     apiMode h \<and> idemOpen cops v h r s \<and>
     (\<exists>key. admitted v h r key \<and> m \<in> set (sendings (snd (fst (rateLimited lops v h r key (hs_limiter s))))))"
proof (cases "authenticateAPIRequest (ep_APIKeys (h_cfg h)) r")
  case None
  then show ?thesis by (auto simp: serveAPI_def admitted_iff simp flip: authenticate_iff)
next
  case (Some apiKey)
  note sendings = idempotent_sendings [of m lops cops v h r apiKey]
  from Some show ?thesis
    by (auto simp: serveAPI_def admitted_iff idemOpen_def Let_def
        simp flip: authenticate_iff split: option.splits prod.splits)
      (use sendings in \<open>metis fst_conv snd_conv\<close>)+
qed

lemma originChecked_silent: "originChecked v h r = Some out \<Longrightarrow> sendings (snd out) = []"
  by (auto simp: originChecked_def Let_def split: prod.splits if_splits)

lemma serveForm_sendings:
  "m \<in> set (sendings (snd (fst (serveForm lops v h r s)))) \<and> \<not> apiMode h \<longleftrightarrow>
     \<not> apiMode h \<and>
     (\<exists>key. admitted v h r key \<and> m \<in> set (sendings (snd (fst (rateLimited lops v h r key (hs_limiter s))))))"
  by (auto simp: serveForm_def admitted_iff simp flip: originChecked_None
      dest: originChecked_silent split: option.splits prod.splits)

lemma ServeHTTP_sendings:
  "m \<in> set (sendings (snd (fst (ServeHTTP lops cops v h r s)))) \<longleftrightarrow>
     r_method r = ''POST'' \<and> idemOpen cops v h r s \<and>
     (\<exists>key. admitted v h r key \<and> m \<in> set (sendings (snd (fst (rateLimited lops v h r key (hs_limiter s))))))"
proof (cases "apiMode h")
  case True
  then show ?thesis using serveAPI_sendings [of m lops cops v h r s] by (simp add: ServeHTTP_def)
next
  case False
  then show ?thesis using serveForm_sendings [of m lops v h r s] by (simp add: ServeHTTP_def idemOpen_def)
qed

text \<open>
  C1: the mail an endpoint sends. A request has a mail sent exactly if it is a POST; it is
  admitted (a configured API key behind the scheme Bearer, or a form content type from an allowed
  origin); its idempotency key, if it has one, is valid, unused and not in flight; the rate
  limiter allows it under its API key or client address; its body is a form within the size cap;
  the form passes the honeypot and CSRF checks (form mode), has every required field filled and a
  valid address in the email field if any; the endpoint is not in dry-run mode; and the templates
  render. The mail then has the configured sender, the configured recipients (or, in API mode,
  the valid addresses of the override), the rendered subject and body, and the submitter's
  address as Reply-To only where it is valid.
\<close>

theorem mail_iff_every_check:
  "m \<in> set (sendings (snd (fst (ServeHTTP lops cops v h r s)))) \<longleftrightarrow>
     r_method r = ''POST'' \<and> \<not> ep_DryRun (h_cfg h) \<and> idemOpen cops v h r s \<and>
     (\<exists>key. admitted v h r key \<and> limiterAllows lops (hs_limiter s) key (ge_now v AtAllow)) \<and>
     (\<exists>form. formOf v h r form \<and> formAccepted v h form \<and> messageOf v h form m)"
  by (auto simp: ServeHTTP_sendings rateLimited_sendings bodyRead_sendings)

subsection \<open>Which requests are received\<close>

text \<open>A request that passes every check; the handler then logs it as received and works on its mail.\<close>

definition accepted_request ::
  "('l, string, nat) lru_ops \<Rightarrow> ('c, string, idem_entry) lru_ops \<Rightarrow> 'tp gw_env \<Rightarrow> 'tp handler \<Rightarrow> http_request \<Rightarrow>
   ('l, 'c) handler_state \<Rightarrow> bool" where
  "accepted_request lops cops v h r s \<longleftrightarrow>
     r_method r = ''POST'' \<and> idemOpen cops v h r s \<and>
     (\<exists>key. admitted v h r key \<and> limiterAllows lops (hs_limiter s) key (ge_now v AtAllow)) \<and>
     (\<exists>form. formOf v h r form \<and> formAccepted v h form)"

lemma metric_not_received [simp]: "LogReceived \<notin> set (metric h c)"
  by (simp add: metric_def)

lemma deliver_received: "LogReceived \<in> set (snd (deliver v h r form))"
  by (simp add: deliver_def Let_def case_prod_unfold split: option.split sum.split)

lemma bodyRead_received:
  "LogReceived \<in> set (snd (bodyRead v h r)) \<longleftrightarrow> (\<exists>form. formOf v h r form \<and> formAccepted v h form)"
proof -
  have "LogReceived \<in> set (snd (validated v h r form)) \<longleftrightarrow>
      list_all (filled form) (ep_Required (h_cfg h)) \<and>
      (let e = trimSpace (headerGet form (h_emailField h)) in e = [] \<or> Email (ge_std v) e)" for form
    using deliver_received [of v h r form]
    by (auto simp: validated_def Let_def fieldErrors_def RequiredFields_Nil list_all_iff)
  then have "LogReceived \<in> set (snd (formChecked v h r form)) \<longleftrightarrow> formAccepted v h form" for form
    by (auto simp: formChecked_def csrfChecked_def formAccepted_iff CheckHoneypot_trapped split: option.splits)
  then show ?thesis by (auto simp: bodyRead_def formOf_iff split: sum.splits body_error.splits)
qed

lemma rateLimited_received:
  "LogReceived \<in> set (snd (fst (rateLimited lops v h r key lmt))) \<longleftrightarrow>
     limiterAllows lops lmt key (ge_now v AtAllow) \<and> LogReceived \<in> set (snd (bodyRead v h r))"
  by (auto simp: rateLimited_def limiterAllows_def Let_def split: option.splits prod.splits)

lemma idempotent_received:
  "LogReceived \<in> set (snd (fst (idempotent lops cops v h r apiKey idemKey lmt c))) \<longleftrightarrow>
     keyFree cops (ge_now v AtLookup) (ge_now v AtClaim) idemKey c \<and>
     LogReceived \<in> set (snd (fst (rateLimited lops v h r apiKey lmt)))"
  by (auto simp: idempotent_def conflict_def keyFree_def split: option.splits prod.splits)

lemma ServeHTTP_received:
  "LogReceived \<in> set (snd (fst (ServeHTTP lops cops v h r s))) \<longleftrightarrow> accepted_request lops cops v h r s"
proof (cases "apiMode h")
  case True
  have "LogReceived \<in> set (snd (fst (serveAPI lops cops v h r s))) \<longleftrightarrow> idemOpen cops v h r s \<and>
      (\<exists>key. admitted v h r key \<and> LogReceived \<in> set (snd (fst (rateLimited lops v h r key (hs_limiter s)))))"
  proof (cases "authenticateAPIRequest (ep_APIKeys (h_cfg h)) r")
    case None
    with True show ?thesis by (auto simp: serveAPI_def admitted_iff simp flip: authenticate_iff)
  next
    case (Some apiKey)
    note received = idempotent_received [of lops cops v h r apiKey]
    from Some True show ?thesis
      by (auto simp: serveAPI_def admitted_iff idemOpen_def Let_def
          simp flip: authenticate_iff split: option.splits prod.splits)
        (use received in \<open>metis fst_conv snd_conv\<close>)+
  qed
  with True show ?thesis by (auto simp: ServeHTTP_def accepted_request_def rateLimited_received bodyRead_received)
next
  case False
  have "LogReceived \<notin> set (snd out)" if "originChecked v h r = Some out" for out
    using that by (auto simp: originChecked_def Let_def split: prod.splits if_splits)
  with False show ?thesis
    by (auto simp: ServeHTTP_def serveForm_def admitted_iff idemOpen_def accepted_request_def rateLimited_received
        bodyRead_received case_prod_unfold simp flip: originChecked_None split: option.splits)
qed

subsection \<open>Retries and outcomes\<close>

text \<open>The wait before a retry: a second after a transient failure, five after a rate limit, else none.\<close>

definition retryAfter :: "send_outcome \<Rightarrow> duration option" where
  "retryAfter out =
     (case out of
        Inr _ \<Rightarrow> None
      | Inl e \<Rightarrow> Option.bind (asTransportError e) (\<lambda>te.
          if te_class te = ErrTransient then Some (1 * second)
          else if te_class te = ErrRateLimited then Some (5 * second) else None))"

lemma retryDelay_if:
  "retryDelay c = (if c = ErrTransient then Some (1 * second) else if c = ErrRateLimited then Some (5 * second) else None)"
  by (cases c) (simp_all add: transientRetryDelay_def rateLimitedRetryDelay_def)

lemma sendWithRetry_eq:
  "fst (sendWithRetry send d msg) =
     (case retryAfter (send 0 msg) of None \<Rightarrow> send 0 msg | Some w \<Rightarrow> if d w then send 0 msg else send 1 msg) \<and>
   sendings (snd (sendWithRetry send d msg)) =
     (case retryAfter (send 0 msg) of None \<Rightarrow> [msg] | Some w \<Rightarrow> if d w then [msg] else [msg, msg])"
  by (auto simp: sendWithRetry_def retryAfter_def retryDelay_if Let_def split: sum.splits option.splits)

context transport_contract
begin

text \<open>A failure that is final after the retry policy always has one of the three classes.\<close>

lemma retry_failure_class:
  assumes "fst (sendWithRetry (\<lambda>n. send) d msg) = Inl err"
  shows "errorClassName err \<in> {''transient'', ''rate_limited'', ''terminal''}"
proof -
  from assms have "send msg = Inl err"
    by (simp add: sendWithRetry_eq split: option.splits if_splits)
  from class_found [OF this] obtain t where "asTransportError err = Some t" "te_class t \<noteq> ErrUnknown" by blast
  then show ?thesis by (cases "te_class t") (simp_all add: errorClassName_def)
qed

end

text \<open>The status of a response.\<close>

abbreviation statusOf :: "wop list \<Rightarrow> int option" where
  "statusOf ops \<equiv> w_status (w_run ops newWriter)"

lemma status_simps [simp]:
  "statusOf (httpError msg code) = Some code"
  "statusOf (httpRedirect loc code) = Some code"
  "statusOf (WriteJSON code body) = Some code"
  "statusOf (replayCachedResponse c) = Some (resp_status c)"
  by (simp_all add: httpError_def httpRedirect_def WriteJSON_def replayCachedResponse_def newWriter_def w_writeHeader_def Let_def)

lemma status_responses [simp]:
  "statusOf (writeSuccessResponse v h r b) = Some (if wantsRedirect v r (ep_RedirectSuccess (h_cfg h)) then 303 else 200)"
  "statusOf (writeErrorResponse v h r code msg) = Some (if wantsRedirect v r (ep_RedirectError (h_cfg h)) then 303 else code)"
  "statusOf (writeValidationErrorResponse v h r e) = Some (if wantsRedirect v r (ep_RedirectError (h_cfg h)) then 303 else 422)"
  by (simp_all add: writeSuccessResponse_def writeErrorResponse_def writeValidationErrorResponse_def)

lemma dispatch_out:
  assumes "\<not> ep_DryRun (h_cfg h)"
  shows "fst (dispatch v h r form msg) =
      (case fst (sendWithRetry (ge_send v (h_transport h)) (ge_ctxDone v) msg) of
         Inl err \<Rightarrow> httpError ''submission could not be delivered'' 502
       | Inr result \<Rightarrow> writeSuccessResponse v h r (success v))"
    and "sendings (snd (dispatch v h r form msg)) = sendings (snd (sendWithRetry (ge_send v (h_transport h)) (ge_ctxDone v) msg))"
proof -
  obtain out evs where "sendWithRetry (ge_send v (h_transport h)) (ge_ctxDone v) msg = (out, evs)" by fastforce
  with assms show "fst (dispatch v h r form msg) =
      (case fst (sendWithRetry (ge_send v (h_transport h)) (ge_ctxDone v) msg) of
         Inl err \<Rightarrow> httpError ''submission could not be delivered'' 502
       | Inr result \<Rightarrow> writeSuccessResponse v h r (success v))"
    and "sendings (snd (dispatch v h r form msg)) = sendings (snd (sendWithRetry (ge_send v (h_transport h)) (ge_ctxDone v) msg))"
    by (cases out; simp add: dispatch_def)+
qed

text \<open>
  C5: the retry policy of one message. A message is handed to the transport once, and a second
  time only when the first call failed transiently or on a rate limit and the request did not
  end during the wait of one or five seconds; never a third time. What the last call returned
  decides the response: the success response if it delivered, a 502 if not.
\<close>

theorem dispatch_retries_once:
  "(let first = ge_send v (h_transport h) 0 msg;
        again = (case retryAfter first of None \<Rightarrow> False | Some w \<Rightarrow> \<not> ge_ctxDone v w);
        out = (if again then ge_send v (h_transport h) 1 msg else first) in
    if ep_DryRun (h_cfg h) then sendings (snd (dispatch v h r form msg)) = []
    else sendings (snd (dispatch v h r form msg)) = (if again then [msg, msg] else [msg]) \<and>
      fst (dispatch v h r form msg) =
        (case out of
           Inl err \<Rightarrow> httpError ''submission could not be delivered'' 502
         | Inr result \<Rightarrow> writeSuccessResponse v h r (success v)))"
proof (cases "ep_DryRun (h_cfg h)")
  case True
  then show ?thesis by (simp add: dispatch_def Let_def)
next
  case False
  show ?thesis
    using sendWithRetry_eq [of "ge_send v (h_transport h)" "ge_ctxDone v" msg]
    by (simp add: dispatch_out [OF False] False Let_def split: option.splits)
qed

text \<open>What the transport answered to the last call of a request.\<close>

definition answer :: "'tp gw_env \<Rightarrow> 'tp handler \<Rightarrow> gw_event list \<Rightarrow> send_outcome option" where
  "answer v h evs =
     (if sendings evs = [] then None
      else Some (ge_send v (h_transport h) (length (sendings evs) - 1) (last (sendings evs))))"

lemma answer_cong: "sendings evs = sendings evs' \<Longrightarrow> answer v h evs = answer v h evs'"
  by (simp add: answer_def)

lemma dispatch_answer:
  "answer v h (snd (dispatch v h r form msg)) =
     (if ep_DryRun (h_cfg h) then None else Some (fst (sendWithRetry (ge_send v (h_transport h)) (ge_ctxDone v) msg)))"
proof (cases "ep_DryRun (h_cfg h)")
  case True
  then show ?thesis by (simp add: dispatch_def answer_def)
next
  case False
  show ?thesis
    using sendWithRetry_eq [of "ge_send v (h_transport h)" "ge_ctxDone v" msg]
    by (auto simp: answer_def dispatch_out [OF False] False split: option.splits)
qed

text \<open>The answer of a dry run: the message that would have been sent.\<close>

definition preview :: "'tp gw_env \<Rightarrow> message \<Rightarrow> wop list" where
  "preview v m =
     WriteJSON 200 (dryRunJSON
       \<lparr>dr_status = ''dry_run'', dr_submissionID = ge_submissionID v,
        dr_message = \<lparr>pm_from = m_from m, pm_to = m_to m, pm_replyTo = m_replyTo m,
                      pm_subject = m_subject m, pm_bodyText = m_bodyText m\<rparr>\<rparr>)"

text \<open>What may stand behind a success: a delivery, a dry run, or a filled honeypot.\<close>

definition deliveredAs :: "'tp gw_env \<Rightarrow> 'tp handler \<Rightarrow> gw_event list \<Rightarrow> bool" where
  "deliveredAs v h evs \<longleftrightarrow> (\<exists>res. answer v h evs = Some (Inr res) \<and> LogSent (messageID res) \<in> set evs)"

definition dryRun :: "'tp gw_env \<Rightarrow> 'tp handler \<Rightarrow> http_request \<Rightarrow> served \<Rightarrow> bool" where
  "dryRun v h r out \<longleftrightarrow> ep_DryRun (h_cfg h) \<and> sendings (snd out) = [] \<and>
     (\<exists>form m. formOf v h r form \<and> formAccepted v h form \<and> messageOf v h form m \<and> fst out = preview v m)"

definition trappedRequest :: "'tp gw_env \<Rightarrow> 'tp handler \<Rightarrow> http_request \<Rightarrow> served \<Rightarrow> bool" where
  "trappedRequest v h r out \<longleftrightarrow> \<not> apiMode h \<and> sendings (snd out) = [] \<and> (\<exists>form. formOf v h r form \<and> trapped h form)"

definition backed :: "'tp gw_env \<Rightarrow> 'tp handler \<Rightarrow> http_request \<Rightarrow> served \<Rightarrow> bool" where
  "backed v h r out \<longleftrightarrow> deliveredAs v h (snd out) \<or> dryRun v h r out \<or> trappedRequest v h r out"

lemma dispatch_200:
  assumes "statusOf (fst (dispatch v h r form msg)) = Some 200"
  shows "deliveredAs v h (snd (dispatch v h r form msg)) \<or>
    ep_DryRun (h_cfg h) \<and> sendings (snd (dispatch v h r form msg)) = [] \<and> fst (dispatch v h r form msg) = preview v msg"
proof (cases "ep_DryRun (h_cfg h)")
  case True
  then show ?thesis by (simp add: dispatch_def preview_def)
next
  case False
  obtain out evs where o: "sendWithRetry (ge_send v (h_transport h)) (ge_ctxDone v) msg = (out, evs)" by fastforce
  with assms False obtain res where "out = Inr res" by (auto simp: dispatch_def split: sum.splits)
  with False o dispatch_answer [of v h r form msg] show ?thesis
    by (auto simp: deliveredAs_def dispatch_def)
qed

lemma deliver_200:
  assumes "statusOf (fst (deliver v h r form)) = Some 200" and "formOf v h r form" and "formAccepted v h form"
  shows "backed v h r (deliver v h r form)"
proof -
  obtain subject body to where parts: "RenderSubject (ge_engine v) (h_renderer h) form = Some subject"
      "RenderBody (ge_engine v) (h_renderer h) form = Some body" "recipients (ge_std v) h form = Inr to"
    using assms(1) by (auto simp: deliver_def Let_def split: option.splits sum.splits)
  define m where "m = \<lparr>m_from = ep_From (h_cfg h), m_to = to, m_replyTo = replyTo (ge_std v) h form,
      m_subject = subject, m_bodyText = body\<rparr>"
  with parts have m: "messageOf v h form m"
      "deliver v h r form = (fst (dispatch v h r form m), (LogReceived # metric h (Submitted (ep_Path (h_cfg h)))) @ snd (dispatch v h r form m))"
    by (simp_all add: deliver_def Let_def case_prod_unfold messageOf_def repliesTo_iff flip: recipients_iff)
  with assms(1) have "statusOf (fst (dispatch v h r form m)) = Some 200" by simp
  from dispatch_200 [OF this] show ?thesis
  proof
    assume "deliveredAs v h (snd (dispatch v h r form m))"
    then have "deliveredAs v h (snd (deliver v h r form))"
      unfolding m(2) deliveredAs_def by (auto cong: answer_cong simp: answer_def)
    then show ?thesis by (simp add: backed_def)
  next
    assume "ep_DryRun (h_cfg h) \<and> sendings (snd (dispatch v h r form m)) = [] \<and> fst (dispatch v h r form m) = preview v m"
    with m assms(2,3) have "dryRun v h r (deliver v h r form)" unfolding dryRun_def by auto
    then show ?thesis by (simp add: backed_def)
  qed
qed

lemma bodyRead_200:
  assumes "statusOf (fst (bodyRead v h r)) = Some 200"
  shows "backed v h r (bodyRead v h r)"
proof -
  obtain form where form: "formOf v h r form" "bodyRead v h r = formChecked v h r form"
    using assms by (auto simp: bodyRead_def formOf_iff split: if_splits sum.splits body_error.splits)
  show ?thesis
  proof (cases "\<not> apiMode h \<and> trapped h form")
    case True
    with form have "trappedRequest v h r (bodyRead v h r)"
      by (auto simp: trappedRequest_def formChecked_def CheckHoneypot_trapped)
    then show ?thesis by (simp add: backed_def)
  next
    case False
    with assms form have d: "formAccepted v h form" "bodyRead v h r = deliver v h r form"
      by (auto simp: formChecked_def csrfChecked_def validated_def formAccepted_iff CheckHoneypot_trapped Let_def
          fieldErrors_def RequiredFields_Nil list_all_iff split: if_splits option.splits)
    from deliver_200 [of v h r form] assms form d show ?thesis by simp
  qed
qed

lemma rateLimited_200:
  "statusOf (fst (fst (rateLimited lops v h r key lmt))) = Some 200 \<Longrightarrow> backed v h r (fst (rateLimited lops v h r key lmt))"
  using bodyRead_200 [of v h r]
  by (auto simp: rateLimited_def Let_def split: option.splits if_splits prod.splits)

text \<open>The replay of the response that the cache holds under the request's key.\<close>

definition replayed ::
  "('c, string, idem_entry) lru_ops \<Rightarrow> 'tp gw_env \<Rightarrow> http_request \<Rightarrow> 'c idem_cache option \<Rightarrow> served \<Rightarrow> bool" where
  "replayed cops v r cache out \<longleftrightarrow>
     (\<exists>c cached. cache = Some c \<and> resp_status cached = 200 \<and> sendings (snd out) = [] \<and>
        fst (fst (idem_Lookup cops (ge_now v AtLookup) (headerGet (r_header r) ''Idempotency-Key'') c)) = Some cached \<and>
        fst out = replayCachedResponse cached)"

lemma idempotent_200:
  assumes "statusOf (fst (fst (idempotent lops cops v h r apiKey (headerGet (r_header r) ''Idempotency-Key'') lmt c))) = Some 200"
  shows "backed v h r (fst (idempotent lops cops v h r apiKey (headerGet (r_header r) ''Idempotency-Key'') lmt c)) \<or>
     replayed cops v r (Some c) (fst (idempotent lops cops v h r apiKey (headerGet (r_header r) ''Idempotency-Key'') lmt c))"
  using assms rateLimited_200 [of lops v h r apiKey lmt]
  by (auto simp: idempotent_def conflict_def replayed_def split: option.splits prod.splits if_splits)

text \<open>
  C4: a response with status 200 is backed by what it claims. The transport answered the last
  call of that request with a delivery, whose id is logged; or the endpoint is in dry-run mode, the
  request passed every check, and the response is the message it would have sent; or an
  authenticated request got the response with status 200 that the cache holds under its
  idempotency key; or the honeypot of the form was filled (the one deliberate false success). In
  the last three nothing was handed to the transport.
\<close>

theorem success_is_backed:
  assumes "ServeHTTP lops cops v h r s = ((ops, evs), s')" and "statusOf ops = Some 200"
  shows "(\<exists>res. answer v h evs = Some (Inr res) \<and> LogSent (messageID res) \<in> set evs) \<or>
    sendings evs = [] \<and>
    (ep_DryRun (h_cfg h) \<and>
       (\<exists>form m. formOf v h r form \<and> formAccepted v h form \<and> messageOf v h form m \<and> ops = preview v m) \<or>
     (\<exists>key. bearsKey (ep_APIKeys (h_cfg h)) r key) \<and> replayed cops v r (hs_idem s) (ops, evs) \<or>
     \<not> apiMode h \<and> (\<exists>form. formOf v h r form \<and> trapped h form))"
proof -
  note stages = rateLimited_200 [of lops v h r _ "hs_limiter s"] idempotent_200 [of lops cops v h r _ "hs_limiter s"]
  have "backed v h r (ops, evs) \<or> (\<exists>key. bearsKey (ep_APIKeys (h_cfg h)) r key) \<and> replayed cops v r (hs_idem s) (ops, evs)"
  proof (cases "apiMode h")
    case True
    with assms show ?thesis
      by (auto simp: ServeHTTP_def serveAPI_def Let_def simp flip: authenticate_iff split: if_splits option.splits prod.splits)
        (use stages in \<open>metis fst_conv snd_conv\<close>)+
  next
    case False
    with assms show ?thesis
      by (auto simp: ServeHTTP_def serveForm_def originChecked_def Let_def split: if_splits option.splits prod.splits)
        (use stages in \<open>metis fst_conv snd_conv\<close>)+
  qed
  then show ?thesis unfolding backed_def deliveredAs_def dryRun_def trappedRequest_def replayed_def by auto
qed

subsection \<open>A sample endpoint\<close>

definition samplePrint :: go_print where
  "samplePrint = \<lparr>formatFloat = (\<lambda>q. formatInt \<lfloor>q\<rfloor>), quote = (\<lambda>s. s)\<rparr>"

definition sampleEnv :: "time \<Rightarrow> unit gw_env" where
  "sampleEnv now =
     \<lparr>ge_std = sampleStd, ge_engine = sampleEngine, ge_print = samplePrint, ge_now = (\<lambda>_. now),
      ge_submissionID = ''id'', ge_latency = 1,
      ge_parseForm = (\<lambda>r cap. Inr [(''msg'', [r_body r])]),
      ge_decodeJSON = (\<lambda>r cap. Inr ([(''msg'', JStr (r_body r))], False)),
      ge_location = (\<lambda>r u. u),
      ge_send = (\<lambda>t n m. Inr \<lparr>messageID = ''m1''\<rparr>),
      ge_ctxDone = (\<lambda>d. False)\<rparr>"

definition sampleEndpoint :: endpoint_config where
  "sampleEndpoint =
     \<lparr>ep_Path = ''/api'', ep_To = [''b@y.org''], ep_From = ''a@x.org'',
      ep_Transport = \<lparr>tc_Type = ''postmark'', tc_Settings = [(''api_key'', TString ''k'')]\<rparr>,
      ep_RateLimit = None, ep_TrustedProxies = [], ep_Honeypot = [], ep_AllowedOrigins = None, ep_MaxBodySize = [],
      ep_Required = [], ep_EmailField = ''email'', ep_ReplyToEmailField = [], ep_Subject = ''hi'', ep_Body = ''{{.msg}}'',
      ep_LogFailedSubmissions = None, ep_RedirectSuccess = [], ep_RedirectError = [], ep_Auth = AuthAPIKey,
      ep_APIKeys = [''s3cret''], ep_IdempotencyCacheSize = 2, ep_DryRun = False, ep_StripClientIP = False,
      ep_CSRFSecret = [], ep_CSRFTokenTTL = 0\<rparr>"

definition sampleHandler :: "unit handler" where
  "sampleHandler =
     \<lparr>h_cfg = sampleEndpoint, h_transport = (),
      h_renderer = \<lparr>rd_subject = OtherNode ''hi'', rd_body = FieldNode [''msg''],
                    namedFields = {''email'', ''to_override'', ''msg''}\<rparr>,
      h_trustedProxies = [], h_emailField = ''email'', h_maxBodySize = 0, h_logFailedSubmissions = True,
      h_csrfTokenTTL = defaultCSRFTokenTTL, h_recorder = True\<rparr>"

definition sampleState :: "('l, (string, idem_entry) use_list) handler_state" where
  "sampleState = \<lparr>hs_limiter = None, hs_idem = Some \<lparr>idem_lru = (2, []), inflight = {}, ttl = DefaultTTL\<rparr>\<rparr>"

definition sampleRequest :: "string \<Rightarrow> string \<Rightarrow> http_request" where
  "sampleRequest key body =
     \<lparr>r_method = ''POST'', r_path = ''/api'', r_query = [],
      r_header = [(''Authorization'', [''Bearer s3cret'']), (''Content-Type'', [''application/json'']),
                  (''Idempotency-Key'', [key])],
      r_host = ''h'', r_remoteAddr = ''192.0.2.1:1'', r_body = body\<rparr>"

lemma sample_New:
  "gateway_New sampleEngine sampleStd lops list_lru sampleEndpoint (Some t) rc =
     Inr (\<lparr>h_cfg = sampleEndpoint, h_transport = t,
      h_renderer = \<lparr>rd_subject = OtherNode ''hi'', rd_body = FieldNode [''msg''],
                    namedFields = {''email'', ''to_override'', ''msg''}\<rparr>,
      h_trustedProxies = [], h_emailField = ''email'', h_maxBodySize = 0, h_logFailedSubmissions = True,
      h_csrfTokenTTL = defaultCSRFTokenTTL, h_recorder = rc\<rparr>, sampleState)"
  by (auto simp: gateway_New_def NewRenderer_def loadBodyTemplate_def sampleEngine_def reservedNames_def
      sampleEndpoint_def sampleState_def ParseSize_def newLimiter_def newIdemCache_def idem_New_def
      list_lru_def AuthAPIKey_def toOverrideField_def DefaultTTL_def Let_def)

lemma sampleHandler_new:
  "gateway_New sampleEngine sampleStd lops list_lru sampleEndpoint (Some ()) True = Inr (sampleHandler, sampleState)"
  by (simp add: sample_New sampleHandler_def)

lemma sample_select [simp]:
  "apiMode sampleHandler" "h_cfg sampleHandler = sampleEndpoint" "h_renderer sampleHandler =
     \<lparr>rd_subject = OtherNode ''hi'', rd_body = FieldNode [''msg''], namedFields = {''email'', ''to_override'', ''msg''}\<rparr>"
  "h_emailField sampleHandler = ''email''" "h_recorder sampleHandler" "h_maxBodySize sampleHandler = 0"
  "ep_To sampleEndpoint = [''b@y.org'']" "ep_From sampleEndpoint = ''a@x.org''" "ep_Required sampleEndpoint = []"
  "ep_ReplyToEmailField sampleEndpoint = []" "\<not> ep_DryRun sampleEndpoint" "ep_RedirectSuccess sampleEndpoint = []"
  "ep_Path sampleEndpoint = ''/api''" "tc_Type (ep_Transport sampleEndpoint) = ''postmark''"
  "ep_APIKeys sampleEndpoint = [''s3cret'']"
  by (simp_all add: sampleHandler_def sampleEndpoint_def apiMode_def)

lemma sampleEnv_select [simp]:
  "ge_std (sampleEnv now) = sampleStd" "ge_engine (sampleEnv now) = sampleEngine" "ge_now (sampleEnv now) p = now"
  "ge_submissionID (sampleEnv now) = ''id''" "ge_latency (sampleEnv now) = 1"
  "ge_decodeJSON (sampleEnv now) r cap = Inr ([(''msg'', JStr (r_body r))], False)"
  "ge_send (sampleEnv now) t n m = Inr \<lparr>messageID = ''m1''\<rparr>"
  by (simp_all add: sampleEnv_def)

lemma sample_render:
  "RenderSubject sampleEngine (h_renderer sampleHandler) [(''msg'', [body])] = Some ''hi''"
  "RenderBody sampleEngine (h_renderer sampleHandler) [(''msg'', [body])] = Some body"
  by (simp_all add: RenderSubject_def RenderBody_def flattenForm_def extraFields_def map_filter_simps sampleEngine_def)

lemma sample_deliver:
  "deliver (sampleEnv now) sampleHandler r [(''msg'', [body])] =
     (WriteJSON 200 (successJSON \<lparr>suc_status = ''ok'', suc_submissionID = ''id''\<rparr>),
      [LogReceived, Metric (Submitted ''/api''),
       Sending \<lparr>m_from = ''a@x.org'', m_to = [''b@y.org''], m_replyTo = [], m_subject = ''hi'', m_bodyText = body\<rparr>,
       LogSent ''m1'', Metric (Sent ''/api'' ''postmark'' 1)])"
  using sample_render [of body]
  by (simp add: deliver_def dispatch_def sendWithRetry_def recipients_def replyTo_def headerGet_def metric_def
      writeSuccessResponse_def wantsRedirect_def success_def toOverrideField_def Let_def)

lemma sample_content_type: "isJSONContentType sampleStd ''application/json''"
proof -
  have "trimSpace ''application/json'' = ''application/json''"
    by (rule trimSpace_graphic; simp add: graphic_def)
  then show ?thesis by (simp add: isJSONContentType_def mediaOf_def sampleStd_def toLower_def lowerByte_def)
qed

lemma sampleRequest_select [simp]:
  "r_method (sampleRequest key body) = ''POST''" "r_body (sampleRequest key body) = body"
  "headerGet (r_header (sampleRequest key body)) ''Content-Type'' = ''application/json''"
  "headerGet (r_header (sampleRequest key body)) ''Idempotency-Key'' = key"
  "headerGet (r_header (sampleRequest key body)) ''Authorization'' = ''Bearer s3cret''"
  by (simp_all add: sampleRequest_def headerGet_def)

lemma sample_body:
  "bodyRead (sampleEnv now) sampleHandler (sampleRequest key body) =
     deliver (sampleEnv now) sampleHandler (sampleRequest key body) [(''msg'', [body])]"
  by (simp add: bodyRead_def parseJSONBody_def formChecked_def csrfChecked_def validated_def fieldErrors_def
      headerGet_def [of "[(''msg'', [body])]"] sample_content_type)

lemma sample_key: "authenticateAPIRequest [''s3cret''] (sampleRequest key body) = Some ''s3cret''"
  by (simp add: authenticate_unfold equalFold_def)

theorem success_is_backed_witness:
  "(\<exists>res. answer (sampleEnv 0) sampleHandler
     (snd (fst (ServeHTTP list_lru list_lru (sampleEnv 0) sampleHandler (sampleRequest [] ''text'') sampleState))) = Some (Inr res) \<and>
   LogSent (messageID res) \<in>
     set (snd (fst (ServeHTTP list_lru list_lru (sampleEnv 0) sampleHandler (sampleRequest [] ''text'') sampleState))))"
proof -
  obtain ops evs s' where run: "ServeHTTP list_lru list_lru (sampleEnv 0) sampleHandler (sampleRequest [] ''text'') sampleState = ((ops, evs), s')"
    by (metis prod.collapse)
  from run have o: "statusOf ops = Some 200" and e: "evs = [LogReceived, Metric (Submitted ''/api''),
       Sending \<lparr>m_from = ''a@x.org'', m_to = [''b@y.org''], m_replyTo = [], m_subject = ''hi'', m_bodyText = ''text''\<rparr>,
       LogSent ''m1'', Metric (Sent ''/api'' ''postmark'' 1)]"
    by (auto simp: ServeHTTP_def serveAPI_def sample_key sample_body sample_deliver rateLimited_def sampleState_def)
  from e have "sendings evs \<noteq> []" by (simp add: sendings_def List.map_filter_def)
  with success_is_backed [OF run o] show ?thesis unfolding run by simp
qed

end
