(* ===== verification/GatewayReplay.thy ===== *)
theory GatewayReplay
  imports GatewayProps
begin

text \<open>
  The Idempotency-Key protocol of core/gateway/handler.go, end to end: the recording writer is
  transparent, a handler built by \<open>gateway_New\<close> keeps its cache well-formed under any sequence of
  requests, and a processed request is replayed to every later one with its key.
\<close>

subsection \<open>The recording writer\<close>

text \<open>A recording agrees with the writer under it: it holds the status, body and content type sent.\<close>

definition agrees :: "recording \<Rightarrow> bool" where
  "agrees rw \<longleftrightarrow>
     (case w_status (rw_under rw) of
        None \<Rightarrow> \<not> rw_written rw \<and> rw_status rw = 0 \<and> rw_contentType rw = []
      | Some code \<Rightarrow> rw_written rw \<and> rw_status rw = code \<and>
          rw_contentType rw = headerOr ''Content-Type'' (w_sent (rw_under rw))) \<and>
     rw_body rw = w_body (rw_under rw)"

lemma w_step_header: "w_step (WriteHeader code) w = w_writeHeader code w" by simp

lemma rw_step_agrees: "agrees rw \<Longrightarrow> agrees (rw_step op rw) \<and> rw_under (rw_step op rw) = w_step op (rw_under rw)"
  by (cases op) (auto simp: agrees_def rw_WriteHeader_def rw_Write_def w_writeHeader_def Let_def split: option.splits)

lemma rw_run_agrees:
  "agrees rw \<Longrightarrow> agrees (rw_run ops rw) \<and> rw_under (rw_run ops rw) = w_run ops (rw_under rw)"
proof (induction ops arbitrary: rw)
  case (Cons op ops)
  from rw_step_agrees [OF Cons.prems, of op] Cons.IH [of "rw_step op rw"] show ?case by (simp add: rw_run_def)
qed (simp add: rw_run_def)

lemma recorded:
  assumes "statusOf ops = Some code"
  shows "rw_status (rw_run ops (newRecording newWriter)) = code \<and>
    rw_body (rw_run ops (newRecording newWriter)) = w_body (w_run ops newWriter) \<and>
    rw_contentType (rw_run ops (newRecording newWriter)) = headerOr ''Content-Type'' (w_sent (w_run ops newWriter))"
proof -
  let ?rw = "rw_run ops (newRecording newWriter)"
  have "agrees (newRecording newWriter)" by (simp add: agrees_def newRecording_def newWriter_def)
  from rw_run_agrees [OF this, of ops] have "agrees ?rw" and under: "rw_under ?rw = w_run ops newWriter"
    by (simp_all add: newRecording_def)
  then show ?thesis using assms unfolding agrees_def under by simp
qed

text \<open>What a client sees of a response.\<close>

definition seen :: "wop list \<Rightarrow> int option \<times> bytes \<times> string" where
  "seen ops = (let w = w_run ops newWriter in (w_status w, w_body w, headerOr ''Content-Type'' (w_sent w)))"

lemma seen_replay: "seen (replayCachedResponse resp) = (Some (resp_status resp), resp_body resp, resp_contentType resp)"
  by (simp add: seen_def replayCachedResponse_def newWriter_def w_writeHeader_def headerOr_def Let_def)

subsection \<open>A request with a key\<close>

definition idleCache ::
  "('c \<Rightarrow> string \<Rightarrow> idem_entry option) \<Rightarrow> ('c \<Rightarrow> bool) \<Rightarrow> ('c \<Rightarrow> nat) \<Rightarrow> nat \<Rightarrow> string set \<Rightarrow> 'c idem_cache \<Rightarrow> bool" where
  "idleCache view good size_of n K c \<longleftrightarrow>
     good (idem_lru c) \<and> size_of (idem_lru c) = n \<and> inflight c = {} \<and> ttl c = DefaultTTL \<and>
     dom (view (idem_lru c)) \<subseteq> K"

text \<open>The response held under a key at a time.\<close>

definition liveAt :: "(string \<Rightarrow> idem_entry option) \<Rightarrow> time \<Rightarrow> string \<Rightarrow> idem_response option" where
  "liveAt m now k =
     Option.bind (m k) (\<lambda>e. if now < entry_expires e then Some (entry_response e) else None)"

context idem_lru_cache
begin

lemma Lookup_live:
  assumes "good (idem_lru c)" and "inflight c = {}"
  shows "fst (idem_Lookup ops now k c) = (liveAt (view (idem_lru c)) now k, False)"
  using Lookup_result [OF assms(1), of now k] assms(2) by (simp add: liveAt_def split: option.split)

lemma idempotent_replays:
  assumes "good (idem_lru c)" and "inflight c = {}" and "ValidateKey k = None"
    and "liveAt (view (idem_lru c)) (ge_now v AtLookup) k = Some resp"
  shows "idempotent lops ops v h r apiKey k lmt c =
    ((replayCachedResponse resp, LogReplay k (resp_status resp) # metric h (IdempotentReplay (ep_Path (h_cfg h)))),
     lmt, snd (idem_Lookup ops (ge_now v AtLookup) k c))"
proof -
  obtain found c1 where l: "idem_Lookup ops (ge_now v AtLookup) k c = (found, c1)" by fastforce
  with Lookup_live [OF assms(1,2), of "ge_now v AtLookup" k] assms(4) have "found = (Some resp, False)" by simp
  with l assms(3) show ?thesis by (simp add: idempotent_def)
qed

lemma idempotent_processes:
  assumes "good (idem_lru c)" and "inflight c = {}" and "ValidateKey k = None"
    and "liveAt (view (idem_lru c)) (ge_now v AtLookup) k = None"
  obtains c2 where "good (idem_lru c2)" "size_of (idem_lru c2) = size_of (idem_lru c)" "ttl c2 = ttl c"
    "inflight c2 = {k}" "view (idem_lru c2) = (view (idem_lru c))(k := None)"
    "idempotent lops ops v h r apiKey k lmt c =
       (case rateLimited lops v h r apiKey lmt of
          (out, lmt1) \<Rightarrow> (out, lmt1, finalizeIdempotent ops (ge_now v AtStore) k (rw_run (fst out) (newRecording newWriter)) c2))"
proof -
  let ?now = "ge_now v AtLookup"
  obtain found c1 where l: "idem_Lookup ops ?now k c = (found, c1)" by fastforce
  with Lookup_live [OF assms(1,2), of ?now k] assms(4) have found: "found = (None, False)" by simp
  have view1: "view (idem_lru c1) = (view (idem_lru c))(k := None)"
    using Lookup_state [OF assms(1), of ?now k] l assms(2,4)
    by (auto simp: liveAt_def fun_eq_iff split: option.splits if_splits)
  have c1: "good (idem_lru c1)" "size_of (idem_lru c1) = size_of (idem_lru c)" "inflight c1 = {}" "ttl c1 = ttl c"
    using Lookup_state [OF assms(1), of ?now k] l assms(2) by simp_all
  obtain claimed c2 where cl: "ClaimInFlight ops (ge_now v AtClaim) k c1 = (claimed, c2)" by fastforce
  have claimed
    using Claim_result(1) [OF c1(1), of "ge_now v AtClaim" k] cl c1(3) view1 by simp
  with Claim_result(2,3) [OF c1(1), of "ge_now v AtClaim" k] cl c1 view1
  have c2: "good (idem_lru c2)" "size_of (idem_lru c2) = size_of (idem_lru c)" "ttl c2 = ttl c" "inflight c2 = {k}"
    "view (idem_lru c2) = (view (idem_lru c))(k := None)" by simp_all
  have "idempotent lops ops v h r apiKey k lmt c =
       (case rateLimited lops v h r apiKey lmt of
          (out, lmt1) \<Rightarrow> (out, lmt1, finalizeIdempotent ops (ge_now v AtStore) k (rw_run (fst out) (newRecording newWriter)) c2))"
    using l found cl \<open>claimed\<close> assms(3) by (simp add: idempotent_def split: prod.split)
  with c2 that show thesis by blast
qed

lemma finalize_idle:
  assumes "good (idem_lru c)" and "inflight c = {k}"
  shows "good (idem_lru (finalizeIdempotent ops now k rw c)) \<and>
    size_of (idem_lru (finalizeIdempotent ops now k rw c)) = size_of (idem_lru c) \<and>
    inflight (finalizeIdempotent ops now k rw c) = {} \<and> ttl (finalizeIdempotent ops now k rw c) = ttl c \<and>
    dom (view (idem_lru (finalizeIdempotent ops now k rw c))) \<subseteq> insert k (dom (view (idem_lru c)))"
  using assms Store_state [OF assms(1)] apply_dom [OF assms(1), of now "OpStore k _"]
  by (simp add: finalizeIdempotent_def idem_Abandon_def Let_def subset_insertI)

lemma idempotent_idle:
  assumes "idleCache view good size_of n K c" and "k \<in> K"
  shows "idleCache view good size_of n K (snd (snd (idempotent lops ops v h r apiKey k lmt c)))"
proof -
  from assms(1) have c: "good (idem_lru c)" "inflight c = {}" by (simp_all add: idleCache_def)
  show ?thesis
  proof (cases "ValidateKey k")
    case (Some err)
    with assms(1) show ?thesis by (simp add: idempotent_def)
  next
    case None
    show ?thesis
    proof (cases "liveAt (view (idem_lru c)) (ge_now v AtLookup) k")
      case (Some resp)
      have "dom (view (idem_lru (snd (idem_Lookup ops (ge_now v AtLookup) k c)))) \<subseteq> K"
        using apply_dom [OF c(1), of "ge_now v AtLookup" "OpLookup k"] assms by (auto simp: idleCache_def)
      with Lookup_state [OF c(1), of "ge_now v AtLookup" k] assms(1) show ?thesis
        by (simp add: idempotent_replays [OF c None Some] idleCache_def)
    next
      case none: None
      obtain c2 where c2: "good (idem_lru c2)" "size_of (idem_lru c2) = size_of (idem_lru c)" "ttl c2 = ttl c"
        "inflight c2 = {k}" "view (idem_lru c2) = (view (idem_lru c))(k := None)"
        and eq: "idempotent lops ops v h r apiKey k lmt c =
       (case rateLimited lops v h r apiKey lmt of
          (out, lmt1) \<Rightarrow> (out, lmt1, finalizeIdempotent ops (ge_now v AtStore) k (rw_run (fst out) (newRecording newWriter)) c2))"
        by (rule idempotent_processes [OF c None none])
      have "dom (view (idem_lru (finalizeIdempotent ops (ge_now v AtStore) k rw c2))) \<subseteq> K" for rw
      proof -
        have "dom (view (idem_lru c2)) \<subseteq> K" using c2(5) assms(1) by (auto simp: idleCache_def)
        with finalize_idle [OF c2(1,4), of "ge_now v AtStore" rw] assms(2) show ?thesis by blast
      qed
      with finalize_idle [OF c2(1,4), of "ge_now v AtStore"] c2 assms show ?thesis
        by (simp add: eq idleCache_def split: prod.split)
    qed
  qed
qed

text \<open>
  A response that is live keeps its entry through a request with any key, as long as the keys in
  play fit into the cache.
\<close>

lemma idempotent_keeps:
  assumes "idleCache view good size_of n K c" and "k \<in> K" and "finite K" "card K \<le> n"
    and "view (idem_lru c) k' = Some e" and "\<And>p. ge_now v p < entry_expires e"
  shows "view (idem_lru (snd (snd (idempotent lops ops v h r apiKey k lmt c)))) k' = Some e"
proof -
  from assms(1) have c: "good (idem_lru c)" "inflight c = {}" and size: "size_of (idem_lru c) = n"
    and dom: "dom (view (idem_lru c)) \<subseteq> K" by (simp_all add: idleCache_def)
  show ?thesis
  proof (cases "ValidateKey k")
    case (Some err)
    with assms(5) show ?thesis by (simp add: idempotent_def)
  next
    case None
    show ?thesis
    proof (cases "liveAt (view (idem_lru c)) (ge_now v AtLookup) k")
      case (Some resp)
      have "view (idem_lru (idem_apply ops (ge_now v AtLookup) (OpLookup k) c)) k' = Some e"
        using apply_keeps [OF c(1) assms(5,6), of "OpLookup k" K] assms(2-4) dom size by simp
      then show ?thesis by (simp add: idempotent_replays [OF c None Some])
    next
      case none: None
      with assms(5,6) have other: "k' \<noteq> k" by (auto simp: liveAt_def)
      obtain c2 where c2: "good (idem_lru c2)" "size_of (idem_lru c2) = size_of (idem_lru c)" "ttl c2 = ttl c"
        "inflight c2 = {k}" "view (idem_lru c2) = (view (idem_lru c))(k := None)"
        and eq: "idempotent lops ops v h r apiKey k lmt c =
       (case rateLimited lops v h r apiKey lmt of
          (out, lmt1) \<Rightarrow> (out, lmt1, finalizeIdempotent ops (ge_now v AtStore) k (rw_run (fst out) (newRecording newWriter)) c2))"
        by (rule idempotent_processes [OF c None none])
      have "view (idem_lru (idem_Store ops (ge_now v AtStore) k resp c2)) k' = Some e" for resp
      proof -
        have held: "view (idem_lru c2) k' = Some e" using c2(5) other assms(5) by simp
        have "insert k (dom (view (idem_lru c2))) \<subseteq> K" using c2(5) dom assms(2) by auto
        with apply_keeps [OF c2(1) held assms(6), of "OpStore k resp" K] other c2(2) assms(3,4) size
        show ?thesis by simp
      qed
      moreover have "view (idem_lru c2) k' = Some e" using c2(5) other assms(5) by simp
      ultimately show ?thesis
        by (simp add: eq finalizeIdempotent_def idem_Abandon_def Let_def split: prod.split)
    qed
  qed
qed

text \<open>A processed request with status 200 or 422 leaves its response under its key.\<close>

lemma idempotent_stores:
  assumes "idleCache view good size_of n K c" and "ValidateKey k = None"
    and "liveAt (view (idem_lru c)) (ge_now v AtLookup) k = None"
    and "idempotent lops ops v h r apiKey k lmt c = ((wops, evs), lmt1, c1)"
    and "statusOf wops = Some code" "code = 200 \<or> code = 422"
  shows "\<exists>e. view (idem_lru c1) k = Some e \<and> entry_expires e = ge_now v AtStore + DefaultTTL \<and>
    seen (replayCachedResponse (entry_response e)) = seen wops"
proof -
  from assms(1) have c: "good (idem_lru c)" "inflight c = {}" by (simp_all add: idleCache_def)
  obtain c2 where c2: "good (idem_lru c2)" "ttl c2 = ttl c"
        and eq: "idempotent lops ops v h r apiKey k lmt c =
       (case rateLimited lops v h r apiKey lmt of
          (out, lmt1) \<Rightarrow> (out, lmt1, finalizeIdempotent ops (ge_now v AtStore) k (rw_run (fst out) (newRecording newWriter)) c2))"
    by (rule idempotent_processes [OF c assms(2,3)])
  let ?rw = "rw_run wops (newRecording newWriter)"
  from eq assms(4) have "c1 = finalizeIdempotent ops (ge_now v AtStore) k ?rw c2"
    by (auto split: prod.splits)
  moreover note recorded [OF assms(5)]
  ultimately have "c1 = idem_Store ops (ge_now v AtStore) k
      \<lparr>resp_status = code, resp_body = w_body (w_run wops newWriter),
       resp_contentType = headerOr ''Content-Type'' (w_sent (w_run wops newWriter))\<rparr> c2"
    using assms(6) by (auto simp: finalizeIdempotent_def Let_def)
  with Store_state [OF c2(1), of "ge_now v AtStore" k] c2(2) assms(1,5) show ?thesis
    by (simp add: seen_replay idleCache_def) (simp add: seen_def Let_def)
qed

end

subsection \<open>Sequences of requests\<close>

abbreviation idemKeyOf :: "http_request \<Rightarrow> string" where
  "idemKeyOf r \<equiv> headerGet (r_header r) ''Idempotency-Key''"

fun serveAll ::
  "('l, string, nat) lru_ops \<Rightarrow> ('c, string, idem_entry) lru_ops \<Rightarrow> 'tp handler \<Rightarrow> ('tp gw_env \<times> http_request) list
     \<Rightarrow> ('l, 'c) handler_state \<Rightarrow> ('l, 'c) handler_state" where
  "serveAll lops cops h [] s = s"
| "serveAll lops cops h ((v, r) # reqs) s = serveAll lops cops h reqs (snd (ServeHTTP lops cops v h r s))"

text \<open>The idempotency keys requests carry.\<close>

definition keysOf :: "('tp gw_env \<times> http_request) list \<Rightarrow> string set" where
  "keysOf reqs = set (filter (\<lambda>k. k \<noteq> []) (map (\<lambda>(v, r). idemKeyOf r) reqs))"

lemma keysOf_simps [simp]:
  "keysOf [] = {}"
  "keysOf ((v, r) # reqs) = (if idemKeyOf r = [] then keysOf reqs else insert (idemKeyOf r) (keysOf reqs))"
  "keysOf (reqs @ reqs') = keysOf reqs \<union> keysOf reqs'"
  "finite (keysOf reqs)"
  by (auto simp: keysOf_def)

lemma ServeHTTP_cache:
  assumes "hs_idem s = Some c"
  obtains "hs_idem (snd (ServeHTTP lops cops v h r s)) = Some c"
  | apiKey where "idemKeyOf r \<noteq> []"
      "hs_idem (snd (ServeHTTP lops cops v h r s)) =
         Some (snd (snd (idempotent lops cops v h r apiKey (idemKeyOf r) (hs_limiter s) c)))"
proof (cases "r_method r = ''POST'' \<and> apiMode h \<and> idemKeyOf r \<noteq> []")
  case True
  show ?thesis
  proof (cases "authenticateAPIRequest (ep_APIKeys (h_cfg h)) r")
    case None
    with True assms that(1) show ?thesis by (simp add: ServeHTTP_def serveAPI_def)
  next
    case (Some apiKey)
    with True assms that(2) [of apiKey] show ?thesis
      by (simp add: ServeHTTP_def serveAPI_def Let_def split: prod.splits)
  qed
next
  case False
  with assms that(1) show ?thesis
    by (simp add: ServeHTTP_def serveAPI_def serveForm_def Let_def split: option.splits prod.splits if_splits)
qed

context idem_lru_cache
begin

lemma serve_idle:
  assumes "hs_idem s = Some c" and "idleCache view good size_of n K c"
    and "idemKeyOf r \<noteq> [] \<longrightarrow> idemKeyOf r \<in> K"
  shows "\<exists>c'. hs_idem (snd (ServeHTTP lops ops v h r s)) = Some c' \<and> idleCache view good size_of n K c'"
  using assms(1)
  by (rule ServeHTTP_cache [of s c lops ops v h r]) (use assms idempotent_idle in fastforce)+

lemma serve_keeps:
  assumes "hs_idem s = Some c" and "idleCache view good size_of n K c"
    and "idemKeyOf r \<noteq> [] \<longrightarrow> idemKeyOf r \<in> K" and "finite K" "card K \<le> n"
    and "view (idem_lru c) k = Some e" and "\<And>p. ge_now v p < entry_expires e"
    and "hs_idem (snd (ServeHTTP lops ops v h r s)) = Some c'"
  shows "view (idem_lru c') k = Some e"
  using assms(1)
proof (rule ServeHTTP_cache [of s c lops ops v h r])
  assume "hs_idem (snd (ServeHTTP lops ops v h r s)) = Some c"
  with assms(6,8) show ?thesis by simp
next
  fix apiKey
  assume "idemKeyOf r \<noteq> []" and "hs_idem (snd (ServeHTTP lops ops v h r s)) =
         Some (snd (snd (idempotent lops ops v h r apiKey (idemKeyOf r) (hs_limiter s) c)))"
  then have "c' = snd (snd (idempotent lops ops v h r apiKey (idemKeyOf r) (hs_limiter s) c))" "idemKeyOf r \<in> K"
    using assms(3,8) by simp_all
  with idempotent_keeps [OF assms(2) _ assms(4,5,6,7)] show ?thesis by simp
qed

lemma serveAll_idle:
  assumes "hs_idem s = Some c" and "idleCache view good size_of n K c" and "keysOf reqs \<subseteq> K"
  shows "\<exists>c'. hs_idem (serveAll lops ops h reqs s) = Some c' \<and> idleCache view good size_of n K c'"
  using assms
proof (induction reqs arbitrary: s c)
  case (Cons x reqs)
  obtain v r where x: "x = (v, r)" by (cases x)
  have key: "idemKeyOf r \<noteq> [] \<longrightarrow> idemKeyOf r \<in> K" using Cons.prems(3) x by (auto split: if_splits)
  from serve_idle [OF Cons.prems(1,2) key, of lops v h] obtain c1
    where c1: "hs_idem (snd (ServeHTTP lops ops v h r s)) = Some c1" "idleCache view good size_of n K c1" by blast
  have "keysOf reqs \<subseteq> K" using Cons.prems(3) x by (auto split: if_splits)
  with Cons.IH [OF c1] x show ?case by simp
qed auto

lemma serveAll_keeps:
  assumes "hs_idem s = Some c" and "idleCache view good size_of n K c" and "keysOf reqs \<subseteq> K"
    and "finite K" "card K \<le> n"
    and "view (idem_lru c) k = Some e" and "\<forall>(v, r) \<in> set reqs. \<forall>p. ge_now v p < entry_expires e"
  shows "\<exists>c'. hs_idem (serveAll lops ops h reqs s) = Some c' \<and> idleCache view good size_of n K c' \<and>
    view (idem_lru c') k = Some e"
  using assms
proof (induction reqs arbitrary: s c)
  case (Cons x reqs)
  obtain v r where x: "x = (v, r)" by (cases x)
  have key: "idemKeyOf r \<noteq> [] \<longrightarrow> idemKeyOf r \<in> K" using Cons.prems(3) x by (auto split: if_splits)
  from serve_idle [OF Cons.prems(1,2) key, of lops v h] obtain c1
    where c1: "hs_idem (snd (ServeHTTP lops ops v h r s)) = Some c1" "idleCache view good size_of n K c1" by blast
  have "view (idem_lru c1) k = Some e"
    using Cons.prems(7) x by (intro serve_keeps [OF Cons.prems(1,2) key Cons.prems(4,5,6) _ c1(1)]) auto
  moreover have "keysOf reqs \<subseteq> K" using Cons.prems(3) x by (auto split: if_splits)
  ultimately show ?case
    using Cons.IH [OF c1 _ Cons.prems(4,5)] Cons.prems(7) x by simp
qed auto

end


text \<open>A POST with a configured API key and a valid idempotency key.\<close>

definition keyed :: "'tp handler \<Rightarrow> http_request \<Rightarrow> string \<Rightarrow> bool" where
  "keyed h r k \<longleftrightarrow>
     r_method r = ''POST'' \<and> (\<exists>a. bearsKey (ep_APIKeys (h_cfg h)) r a) \<and> idemKeyOf r = k \<and> ValidateKey k = None"

text \<open>The number of responses the cache of an endpoint has room for.\<close>

definition cacheSize :: "endpoint_config \<Rightarrow> nat" where
  "cacheSize cfg = (if ep_IdempotencyCacheSize cfg \<le> 0 then 10000 else nat (ep_IdempotencyCacheSize cfg))"

lemma gateway_New_cache:
  assumes "gateway_New e g lops cops cfg t rc = Inr (h, s)" and "ep_Auth cfg = AuthAPIKey"
  obtains c where "h_cfg h = cfg" "hs_idem s = Some c"
    "idem_New cops (if ep_IdempotencyCacheSize cfg \<le> 0 then DefaultCapacity else ep_IdempotencyCacheSize cfg) DefaultTTL = Inr c"
  using assms by (auto simp: gateway_New_def newIdemCache_def Let_def map_sum_def split: option.splits sum.splits)

lemma keyed_serve:
  assumes "keyed h r k" and "apiMode h" and "hs_idem s = Some c"
  obtains apiKey where
    "ServeHTTP lops cops v h r s =
       (case idempotent lops cops v h r apiKey k (hs_limiter s) c of
          (out, lmt1, c1) \<Rightarrow> (out, s\<lparr>hs_limiter := lmt1, hs_idem := Some c1\<rparr>))"
proof -
  from assms(1) obtain apiKey where "authenticateAPIRequest (ep_APIKeys (h_cfg h)) r = Some apiKey"
    by (auto simp: keyed_def authenticate_iff)
  moreover have "k \<noteq> []" using assms(1) by (auto simp: keyed_def ValidateKey_def MinKeyLength_def)
  ultimately show thesis using assms that [of apiKey] by (simp add: ServeHTTP_def serveAPI_def keyed_def)
qed

context idem_lru_cache
begin

lemma serve_stores:
  assumes "hs_idem s = Some c" and "idleCache view good size_of n K c" and "k \<in> K"
    and "keyed h r k" and "apiMode h" and "idemOpen ops v h r s"
    and "ServeHTTP lops ops v h r s = ((wops, evs), s1)"
    and "statusOf wops = Some code" "code = 200 \<or> code = 422"
  shows "\<exists>c1 e. hs_idem s1 = Some c1 \<and> idleCache view good size_of n K c1 \<and> view (idem_lru c1) k = Some e \<and>
    entry_expires e = ge_now v AtStore + DefaultTTL \<and> seen (replayCachedResponse (entry_response e)) = seen wops"
proof -
  have valid: "ValidateKey k = None" "idemKeyOf r = k" "k \<noteq> []"
    using assms(4) by (auto simp: keyed_def ValidateKey_def MinKeyLength_def)
  obtain apiKey where "ServeHTTP lops ops v h r s =
       (case idempotent lops ops v h r apiKey k (hs_limiter s) c of
          (out, lmt1, c1) \<Rightarrow> (out, s\<lparr>hs_limiter := lmt1, hs_idem := Some c1\<rparr>))"
    by (rule keyed_serve [OF assms(4,5,1)])
  with assms(7) obtain lmt1 c1
    where run: "idempotent lops ops v h r apiKey k (hs_limiter s) c = ((wops, evs), lmt1, c1)"
      and s1: "hs_idem s1 = Some c1" by (auto split: prod.splits)
  have "liveAt (view (idem_lru c)) (ge_now v AtLookup) k = None"
    using Lookup_live [of c "ge_now v AtLookup" k] assms(1,2,5,6) valid
    by (auto simp: idemOpen_def keyFree_def idleCache_def split: prod.splits)
  from idempotent_stores [OF assms(2) valid(1) this run assms(8,9)]
    idempotent_idle [OF assms(2,3), of lops v h r apiKey "hs_limiter s"] s1 run
  show ?thesis by auto
qed

lemma serve_replays:
  assumes "hs_idem s = Some c" and "idleCache view good size_of n K c"
    and "keyed h r k" and "apiMode h" and "view (idem_lru c) k = Some e" "ge_now v AtLookup < entry_expires e"
    and "ServeHTTP lops ops v h r s = ((wops, evs), s1)"
  shows "wops = replayCachedResponse (entry_response e) \<and>
    evs = LogReplay k (resp_status (entry_response e)) # metric h (IdempotentReplay (ep_Path (h_cfg h)))"
proof -
  have valid: "ValidateKey k = None" using assms(3) by (simp add: keyed_def)
  obtain apiKey where "ServeHTTP lops ops v h r s =
       (case idempotent lops ops v h r apiKey k (hs_limiter s) c of
          (out, lmt1, c1) \<Rightarrow> (out, s\<lparr>hs_limiter := lmt1, hs_idem := Some c1\<rparr>))"
    by (rule keyed_serve [OF assms(3,4,1)])
  moreover have "liveAt (view (idem_lru c)) (ge_now v AtLookup) k = Some (entry_response e)"
    using assms(5,6) by (simp add: liveAt_def)
  note idempotent_replays [OF _ _ valid this, of lops h r apiKey "hs_limiter s"]
  ultimately show ?thesis using assms(2,7) by (simp add: idleCache_def)
qed

end

text \<open>
  C2: an API client that repeats a request under the same idempotency key gets the same answer
  and causes no second mail. On a handler built by New, let a keyed request be processed, after
  any requests before it, and be answered with status 200 or 422. Then, for 24 hours and as long
  as the keys used fit into the cache, and whatever other requests come in between, a request
  with that key gets a response with the same status, body and content type, is not sent to the
  transport, and is logged as a replay.
\<close>

theorem keyed_request_is_replayed:
  assumes "lru_cache cops view good size_of"
    and "gateway_New e g lops cops cfg (Some tp) rc = Inr (h, s0)" and "ep_Auth cfg = AuthAPIKey"
    and "keyed h r k" and "keyed h r' k"
    and "idemOpen cops v h r (serveAll lops cops h before s0)"
    and "ServeHTTP lops cops v h r (serveAll lops cops h before s0) = ((ops, evs), s1)"
    and "statusOf ops = Some code" "code = 200 \<or> code = 422"
    and "\<forall>(w, _) \<in> set after. \<forall>p. ge_now w p < ge_now v AtStore + DefaultTTL"
    and "ge_now v' AtLookup < ge_now v AtStore + DefaultTTL"
    and "card (insert k (keysOf before \<union> keysOf after)) \<le> cacheSize cfg"
    and "ServeHTTP lops cops v' h r' (serveAll lops cops h after s1) = ((ops', evs'), s2)"
  shows "seen ops' = seen ops \<and> sendings evs' = [] \<and> (\<exists>status. LogReplay k status \<in> set evs')"
proof -
  note il = idem_lru_cache.intro [OF assms(1)]
  let ?K = "insert k (keysOf before \<union> keysOf after)" and ?s = "serveAll lops cops h before s0"
  obtain c0 where h: "h_cfg h = cfg" and c0: "hs_idem s0 = Some c0"
      "idem_New cops (if ep_IdempotencyCacheSize cfg \<le> 0 then DefaultCapacity else ep_IdempotencyCacheSize cfg) DefaultTTL = Inr c0"
    by (rule gateway_New_cache [OF assms(2,3)])
  have api: "apiMode h" using h assms(3) by (simp add: apiMode_def)
  have "idleCache view good size_of (cacheSize cfg) ?K c0"
    using idem_lru_cache.New_state [OF il c0(2)] by (auto simp: idleCache_def cacheSize_def DefaultCapacity_def)
  from idem_lru_cache.serveAll_idle [OF il c0(1) this] obtain c
    where c: "hs_idem ?s = Some c" "idleCache view good size_of (cacheSize cfg) ?K c" by blast
  from idem_lru_cache.serve_stores [OF il c _ assms(4) api assms(6-9)] obtain c1 e
    where c1: "hs_idem s1 = Some c1" "idleCache view good size_of (cacheSize cfg) ?K c1" "view (idem_lru c1) k = Some e"
      and e: "entry_expires e = ge_now v AtStore + DefaultTTL" "seen (replayCachedResponse (entry_response e)) = seen ops"
    by blast
  have "keysOf after \<subseteq> ?K" "finite ?K" "\<forall>(w, _) \<in> set after. \<forall>p. ge_now w p < entry_expires e"
    using assms(10) e(1) by auto
  from idem_lru_cache.serveAll_keeps [OF il c1(1,2) this(1,2) assms(12) c1(3) this(3), of lops h] obtain c2
    where c2: "hs_idem (serveAll lops cops h after s1) = Some c2" "idleCache view good size_of (cacheSize cfg) ?K c2"
      "view (idem_lru c2) k = Some e" by blast
  have "ge_now v' AtLookup < entry_expires e" using assms(11) e(1) by simp
  from idem_lru_cache.serve_replays [OF il c2(1,2) assms(5) api c2(3) this assms(13)] e(2) show ?thesis by auto
qed


subsection \<open>Witness\<close>

lemma sample_keyed: "ValidateKey k = None \<Longrightarrow> keyed sampleHandler (sampleRequest k body) k"
  using sample_key [of k body] by (auto simp: keyed_def authenticate_iff)

lemma sample_ValidateKey: "ValidateKey ''k1'' = None"
  by (simp add: ValidateKey_def MinKeyLength_def MaxKeyLength_def printable_def Let_def)

definition sampleServe :: "time \<Rightarrow> string \<Rightarrow> string \<Rightarrow> ((string, nat) use_list, (string, idem_entry) use_list) handler_state
    \<Rightarrow> served \<times> ((string, nat) use_list, (string, idem_entry) use_list) handler_state" where
  "sampleServe now key body = ServeHTTP list_lru list_lru (sampleEnv now) sampleHandler (sampleRequest key body)"

lemma sample_open: "idemOpen list_lru (sampleEnv now) sampleHandler (sampleRequest ''k1'' body) sampleState"
  by (simp add: idemOpen_def keyFree_def sampleState_def sample_ValidateKey idem_Lookup_def ClaimInFlight_def
      list_lru_def list_get_def Let_def)

lemma sample_first: "statusOf (fst (fst (sampleServe 0 ''k1'' ''text'' sampleState))) = Some 200"
  by (simp add: sampleServe_def ServeHTTP_def serveAPI_def sample_key idempotent_def sample_ValidateKey
      sampleState_def idem_Lookup_def ClaimInFlight_def list_lru_def list_get_def rateLimited_def sample_body sample_deliver Let_def)

theorem keyed_request_is_replayed_witness:
  "let (out, s1) = sampleServe 0 ''k1'' ''text'' sampleState;
       s2 = snd (sampleServe 1 ''k2'' ''more'' s1);
       out' = fst (sampleServe 2 ''k1'' ''changed'' s2)
   in seen (fst out') = seen (fst out) \<and> sendings (snd out') = []"
proof -
  obtain ops evs s1 where 1: "sampleServe 0 ''k1'' ''text'' sampleState = ((ops, evs), s1)" by (metis prod.collapse)
  let ?after = "[(sampleEnv 1, sampleRequest ''k2'' ''more'')]"
  obtain ops' evs' s2 where 2: "sampleServe 2 ''k1'' ''changed'' (serveAll list_lru list_lru sampleHandler ?after s1) = ((ops', evs'), s2)"
    by (metis prod.collapse)
  have "seen ops' = seen ops \<and> sendings evs' = [] \<and> (\<exists>status. LogReplay ''k1'' status \<in> set evs')"
  proof (rule keyed_request_is_replayed [OF list_lru.lru_cache_axioms sampleHandler_new _ sample_keyed sample_keyed, where before = "[]" and after = ?after
        and v = "sampleEnv 0" and v' = "sampleEnv 2"])
    show "statusOf ops = Some 200" using sample_first 1 by simp
  qed (use 1 2 in \<open>simp_all add: sample_ValidateKey sample_open sampleServe_def sampleEndpoint_def DefaultTTL_def cacheSize_def\<close>)
  with 1 2 show ?thesis by (simp add: sampleServe_def)
qed

end
