(* ===== verification/GatewayConcurrent.thy ===== *)
theory GatewayConcurrent
  imports GatewayReplay
begin

text \<open>
  Requests with idempotency keys that run at the same time on one handler. net/http serves each
  in its own goroutine; they meet in the cache and in the limiter, whose operations each run
  under a mutex. A request is cut into the steps between those operations, and the steps of all
  requests interleave freely on a clock that does not run backwards.
\<close>

subsection \<open>The steps\<close>

text \<open>An authenticated request with a valid key: what \<open>idempotent\<close> gets.\<close>

record 'tp keyed_call =
  k_env :: "'tp gw_env"
  k_req :: http_request
  k_apiKey :: string
  k_key :: string

text \<open>
  Where a request stands: before Lookup; after a Lookup that found nothing; with the key claimed;
  processed, before the deferred call; and answered.
\<close>

datatype phase = Arrived | Missed | Holding | Processed served | Answered served

record ('l, 'c) conc_state =
  cn_cache :: "'c idem_cache"
  cn_limiter :: "'l limiter option"
  cn_phase :: "nat \<Rightarrow> phase"
  cn_now :: time

datatype moment = Tick | Look nat | Claim nat time | LoseClaim nat | Process nat served | Finish nat time

text \<open>What the handler does with the result of Lookup.\<close>

fun afterLookup :: "'tp handler \<Rightarrow> string \<Rightarrow> idem_response option \<times> bool \<Rightarrow> phase" where
  "afterLookup h k (Some cached, _) =
     Answered (replayCachedResponse cached,
       LogReplay k (resp_status cached) # metric h (IdempotentReplay (ep_Path (h_cfg h))))"
| "afterLookup h k (None, True) = Answered (conflict k)"
| "afterLookup h k (None, False) = Missed"

inductive conc_step ::
  "('l, string, nat) lru_ops \<Rightarrow> ('c, string, idem_entry) lru_ops \<Rightarrow> 'tp handler \<Rightarrow> (nat \<Rightarrow> 'tp keyed_call) \<Rightarrow>
   ('l, 'c) conc_state \<Rightarrow> moment \<Rightarrow> ('l, 'c) conc_state \<Rightarrow> bool"
  for lops cops h calls where
  tick: "cn_now s \<le> now \<Longrightarrow> conc_step lops cops h calls s Tick (s\<lparr>cn_now := now\<rparr>)"
| look: "cn_phase s i = Arrived \<Longrightarrow>
    idem_Lookup cops (cn_now s) (k_key (calls i)) (cn_cache s) = (found, c) \<Longrightarrow>
    conc_step lops cops h calls s (Look i)
      (s\<lparr>cn_cache := c, cn_phase := (cn_phase s)(i := afterLookup h (k_key (calls i)) found)\<rparr>)"
| claim: "cn_phase s i = Missed \<Longrightarrow>
    ClaimInFlight cops (cn_now s) (k_key (calls i)) (cn_cache s) = (True, c) \<Longrightarrow>
    conc_step lops cops h calls s (Claim i (cn_now s))
      (s\<lparr>cn_cache := c, cn_phase := (cn_phase s)(i := Holding)\<rparr>)"
| lose: "cn_phase s i = Missed \<Longrightarrow>
    ClaimInFlight cops (cn_now s) (k_key (calls i)) (cn_cache s) = (False, c) \<Longrightarrow>
    conc_step lops cops h calls s (LoseClaim i)
      (s\<lparr>cn_cache := c, cn_phase := (cn_phase s)(i := Answered (conflict (k_key (calls i))))\<rparr>)"
| process: "cn_phase s i = Holding \<Longrightarrow>
    rateLimited lops (k_env (calls i)) h (k_req (calls i)) (k_apiKey (calls i)) (cn_limiter s) = (out, lmt) \<Longrightarrow>
    conc_step lops cops h calls s (Process i out)
      (s\<lparr>cn_limiter := lmt, cn_phase := (cn_phase s)(i := Processed out)\<rparr>)"
| finish: "cn_phase s i = Processed out \<Longrightarrow>
    conc_step lops cops h calls s (Finish i (cn_now s))
      (s\<lparr>cn_cache := finalizeIdempotent cops (cn_now s) (k_key (calls i))
                        (rw_run (fst out) (newRecording newWriter)) (cn_cache s),
         cn_phase := (cn_phase s)(i := Answered out)\<rparr>)"

inductive_cases conc_stepE [consumes 1, case_names tick look claim lose process finish]:
  "conc_step lops cops h calls s m s'"

inductive_cases conc_claimE [consumes 1, case_names claim]: "conc_step lops cops h calls s (Claim i t) s'"

inductive conc_run ::
  "('l, string, nat) lru_ops \<Rightarrow> ('c, string, idem_entry) lru_ops \<Rightarrow> 'tp handler \<Rightarrow> (nat \<Rightarrow> 'tp keyed_call) \<Rightarrow>
   ('l, 'c) conc_state \<Rightarrow> moment list \<Rightarrow> ('l, 'c) conc_state \<Rightarrow> bool"
  for lops cops h calls where
  idle: "conc_run lops cops h calls s [] s"
| next_step: "conc_run lops cops h calls s ms s' \<Longrightarrow> conc_step lops cops h calls s' m s'' \<Longrightarrow>
    conc_run lops cops h calls s (ms @ [m]) s''"

inductive_simps conc_run_Nil: "conc_run lops cops h calls s [] s'"

lemma conc_run_snoc:
  "conc_run lops cops h calls s (ms @ [m]) s'' \<longleftrightarrow>
     (\<exists>s'. conc_run lops cops h calls s ms s' \<and> conc_step lops cops h calls s' m s'')"
  by (auto elim: conc_run.cases intro: next_step)

lemma conc_run_single: "conc_run lops cops h calls s [m] s' \<longleftrightarrow> conc_step lops cops h calls s m s'"
  using conc_run_snoc [of lops cops h calls s "[]" m s'] by (simp add: conc_run_Nil)

lemma conc_run_append:
  "conc_run lops cops h calls s (ms @ ms') s'' \<longleftrightarrow>
     (\<exists>s'. conc_run lops cops h calls s ms s' \<and> conc_run lops cops h calls s' ms' s'')"
proof (induction ms' arbitrary: s'' rule: rev_induct)
  case (snoc m ms')
  then show ?case by (simp flip: append_assoc add: conc_run_snoc) blast
qed (simp add: conc_run_Nil)

lemma conc_run_Cons:
  "conc_step lops cops h calls s m s' \<Longrightarrow> conc_run lops cops h calls s' ms s'' \<Longrightarrow>
   conc_run lops cops h calls s (m # ms) s''"
  using conc_run_append [of lops cops h calls s "[m]" ms] by (auto simp: conc_run_single)

lemmas conc_run_intros = conc_run_Cons idle

text \<open>A request that runs alone does in these steps what \<open>idempotent\<close> does in one.\<close>

lemma alone_after_claim:
  assumes "cn_phase s i = Holding" and "cn_now s \<le> now"
    and "calls i = \<lparr>k_env = v, k_req = r, k_apiKey = apiKey, k_key = k\<rparr>"
    and "rateLimited lops v h r apiKey (cn_limiter s) = (out, lmt)"
  shows "conc_run lops cops h calls s [Process i out, Tick, Finish i now]
    (s\<lparr>cn_limiter := lmt, cn_now := now,
       cn_cache := finalizeIdempotent cops now k (rw_run (fst out) (newRecording newWriter)) (cn_cache s),
       cn_phase := (cn_phase s)(i := Answered out)\<rparr>)"
proof -
  let ?s1 = "s\<lparr>cn_limiter := lmt, cn_phase := (cn_phase s)(i := Processed out)\<rparr>"
  let ?s2 = "?s1\<lparr>cn_now := now\<rparr>"
  have "conc_step lops cops h calls s (Process i out) ?s1" using assms by (intro process) simp_all
  moreover have "conc_step lops cops h calls ?s1 Tick ?s2" using assms(2) by (intro tick) simp
  moreover have "conc_step lops cops h calls ?s2 (Finish i now)
    (s\<lparr>cn_limiter := lmt, cn_now := now,
       cn_cache := finalizeIdempotent cops now k (rw_run (fst out) (newRecording newWriter)) (cn_cache s),
       cn_phase := (cn_phase s)(i := Answered out)\<rparr>)"
    using conc_step.finish [of ?s2 i out lops cops h calls] assms(3) by simp
  ultimately show ?thesis by (blast intro: conc_run_intros)
qed

lemma idempotent_as_steps:
  assumes "cn_phase s i = Arrived" and "cn_now s \<le> ge_now v AtLookup" and "ge_now v AtLookup \<le> ge_now v AtClaim"
    and "ge_now v AtClaim \<le> ge_now v AtStore" and "ValidateKey k = None"
    and "calls i = \<lparr>k_env = v, k_req = r, k_apiKey = apiKey, k_key = k\<rparr>"
    and res_def: "res = idempotent lops cops v h r apiKey k (cn_limiter s) (cn_cache s)"
  shows "\<exists>ms s'. conc_run lops cops h calls s ms s' \<and> cn_phase s' = (cn_phase s)(i := Answered (fst res)) \<and>
    cn_limiter s' = fst (snd res) \<and> cn_cache s' = snd (snd res)"
proof -
  let ?run = "conc_run lops cops h calls" and ?step = "conc_step lops cops h calls"
  obtain found c1 where l: "idem_Lookup cops (ge_now v AtLookup) k (cn_cache s) = (found, c1)" by fastforce
  let ?s1 = "s\<lparr>cn_now := ge_now v AtLookup\<rparr>"
  let ?s2 = "?s1\<lparr>cn_cache := c1, cn_phase := (cn_phase ?s1)(i := afterLookup h k found)\<rparr>"
  have looked: "?step s Tick ?s1" "?step ?s1 (Look i) ?s2"
    using tick [OF assms(2)] look [of ?s1 i cops calls found c1 lops h] assms(1,6) l by simp_all
  show ?thesis
  proof (cases "found = (None, False)")
    case False
    then have "afterLookup h k found = Answered (fst res)" "fst (snd res) = cn_limiter s" "snd (snd res) = c1"
      using l assms(5) by (cases "(h, k, found)" rule: afterLookup.cases; simp add: res_def idempotent_def conflict_def)+
    moreover have "?run s [Tick, Look i] ?s2" using looked by (blast intro: conc_run_intros)
    ultimately show ?thesis by (intro exI [of _ "[Tick, Look i]"] exI [of _ ?s2]) simp
  next
    case missed: True
    obtain ok c2 where c: "ClaimInFlight cops (ge_now v AtClaim) k c1 = (ok, c2)" by fastforce
    let ?s3 = "?s2\<lparr>cn_now := ge_now v AtClaim\<rparr>"
    have tick3: "?step ?s2 Tick ?s3" using assms(3) by (intro tick) simp
    show ?thesis
    proof (cases ok)
      case False
      let ?s4 = "?s3\<lparr>cn_cache := c2, cn_phase := (cn_phase ?s3)(i := Answered (conflict k))\<rparr>"
      have "?step ?s3 (LoseClaim i) ?s4"
        using conc_step.lose [of ?s3 i cops calls c2 lops h] c False missed assms(6) by simp
      with looked tick3 have "?run s [Tick, Look i, Tick, LoseClaim i] ?s4" by (blast intro: conc_run_intros)
      moreover have "res = (conflict k, cn_limiter s, c2)"
        using l c False missed assms(5) by (simp add: res_def idempotent_def)
      ultimately show ?thesis by (intro exI [of _ "[Tick, Look i, Tick, LoseClaim i]"] exI [of _ ?s4]) simp
    next
      case True
      let ?s4 = "?s3\<lparr>cn_cache := c2, cn_phase := (cn_phase ?s3)(i := Holding)\<rparr>"
      obtain out lmt where p: "rateLimited lops v h r apiKey (cn_limiter s) = (out, lmt)" by fastforce
      have "?step ?s3 (Claim i (ge_now v AtClaim)) ?s4"
        using conc_step.claim [of ?s3 i cops calls c2 lops h] c True missed assms(6) by simp
      moreover have "res = (out, lmt, finalizeIdempotent cops (ge_now v AtStore) k (rw_run (fst out) (newRecording newWriter)) c2)"
        using l c p True missed assms(5) by (simp add: res_def idempotent_def split: prod.splits)
      moreover note alone_after_claim [of ?s4 i "ge_now v AtStore" calls v r apiKey k lops h out lmt cops]
      ultimately show ?thesis
        using looked tick3 assms(4,6) p by (fastforce intro: conc_run_intros)
    qed
  qed
qed

subsection \<open>Who holds which key\<close>

definition active :: "phase \<Rightarrow> bool" where
  "active p \<longleftrightarrow> p = Holding \<or> (\<exists>out. p = Processed out)"

lemma active_simps [simp]:
  "active Holding" "active (Processed out)" "\<not> active Arrived" "\<not> active Missed" "\<not> active (Answered out)"
  by (simp_all add: active_def)

lemma afterLookup_idle [simp]: "\<not> active (afterLookup h k found)"
  by (cases "(h, k, found)" rule: afterLookup.cases) simp_all

definition holdersOf :: "(nat \<Rightarrow> phase) \<Rightarrow> nat set" where
  "holdersOf phs = {i. active (phs i)}"

lemma holdersOf_upd: "holdersOf (phs(i := p)) = (if active p then insert i (holdersOf phs) else holdersOf phs - {i})"
  by (auto simp: holdersOf_def)

lemma holdersOf_mem: "i \<in> holdersOf phs \<longleftrightarrow> active (phs i)"
  by (simp add: holdersOf_def)

text \<open>The keys in flight are those of the requests that hold one, each held by one request.\<close>

definition concInv ::
  "('c \<Rightarrow> string \<Rightarrow> idem_entry option) \<Rightarrow> ('c \<Rightarrow> bool) \<Rightarrow> ('c \<Rightarrow> nat) \<Rightarrow> nat \<Rightarrow> string set \<Rightarrow>
   (nat \<Rightarrow> 'tp keyed_call) \<Rightarrow> ('l, 'c) conc_state \<Rightarrow> bool" where
  "concInv view good size_of n K calls s \<longleftrightarrow>
     good (idem_lru (cn_cache s)) \<and> size_of (idem_lru (cn_cache s)) = n \<and> ttl (cn_cache s) = DefaultTTL \<and>
     dom (view (idem_lru (cn_cache s))) \<subseteq> K \<and>
     inflight (cn_cache s) = (\<lambda>i. k_key (calls i)) ` holdersOf (cn_phase s) \<and>
     inj_on (\<lambda>i. k_key (calls i)) (holdersOf (cn_phase s))"

context idem_lru_cache
begin

lemma finalize_state:
  assumes "good (idem_lru c)"
  shows "good (idem_lru (finalizeIdempotent ops now k rw c)) \<and>
    size_of (idem_lru (finalizeIdempotent ops now k rw c)) = size_of (idem_lru c) \<and>
    inflight (finalizeIdempotent ops now k rw c) = inflight c - {k} \<and> ttl (finalizeIdempotent ops now k rw c) = ttl c \<and>
    dom (view (idem_lru (finalizeIdempotent ops now k rw c))) \<subseteq> insert k (dom (view (idem_lru c)))"
  using assms Store_state [OF assms] apply_dom [OF assms, of now "OpStore k _"]
  by (simp add: finalizeIdempotent_def idem_Abandon_def Let_def subset_insertI)

lemma conc_step_inv:
  assumes "conc_step lops ops h calls s m s'" and "concInv view good size_of n K calls s"
    and "\<And>i. k_key (calls i) \<in> K"
  shows "concInv view good size_of n K calls s'"
proof -
  from assms(2) have good: "good (idem_lru (cn_cache s))" and dom: "dom (view (idem_lru (cn_cache s))) \<subseteq> K"
    and inv: "size_of (idem_lru (cn_cache s)) = n" "ttl (cn_cache s) = DefaultTTL"
      "inflight (cn_cache s) = (\<lambda>i. k_key (calls i)) ` holdersOf (cn_phase s)"
      "inj_on (\<lambda>i. k_key (calls i)) (holdersOf (cn_phase s))" by (simp_all add: concInv_def)
  note doms = apply_dom [OF good, of "cn_now s"]
  from assms(1) show ?thesis
  proof (cases rule: conc_stepE)
    case (tick now)
    with assms(2) show ?thesis by (simp add: concInv_def)
  next
    case (look i found c)
    have "dom (view (idem_lru c)) \<subseteq> K" using doms [of "OpLookup (k_key (calls i))"] look dom assms(3) by fastforce
    moreover have "i \<notin> holdersOf (cn_phase s)" using look by (simp add: holdersOf_mem)
    ultimately show ?thesis
      using look Lookup_state [OF good, of "cn_now s" "k_key (calls i)"] good inv by (simp add: concInv_def holdersOf_upd)
  next
    case (claim i c)
    note c = Claim_result [OF good, of "cn_now s" "k_key (calls i)"]
    have free: "k_key (calls i) \<notin> (\<lambda>i. k_key (calls i)) ` holdersOf (cn_phase s)" using c(1) claim inv(3) by simp
    then have "i \<notin> holdersOf (cn_phase s)" by blast
    with free claim c dom inv show ?thesis by (simp add: concInv_def holdersOf_upd)
  next
    case (lose i c)
    have "i \<notin> holdersOf (cn_phase s)" using lose by (simp add: holdersOf_mem)
    with lose Claim_result [OF good, of "cn_now s" "k_key (calls i)"] dom inv show ?thesis
      by (simp add: concInv_def holdersOf_upd)
  next
    case (process i out lmt)
    then have "insert i (holdersOf (cn_phase s)) = holdersOf (cn_phase s)" by (auto simp: holdersOf_mem)
    with process assms(2) show ?thesis by (simp add: concInv_def holdersOf_upd)
  next
    case (finish i out)
    let ?c = "finalizeIdempotent ops (cn_now s) (k_key (calls i)) (rw_run (fst out) (newRecording newWriter)) (cn_cache s)"
    note c = finalize_state [OF good, of "cn_now s" "k_key (calls i)" "rw_run (fst out) (newRecording newWriter)"]
    have "i \<in> holdersOf (cn_phase s)" using finish by (simp add: holdersOf_mem)
    then have "inflight ?c = (\<lambda>i. k_key (calls i)) ` (holdersOf (cn_phase s) - {i})"
      using c inv(3) inj_on_image_set_diff [OF inv(4), of "holdersOf (cn_phase s)" "{i}"] by simp
    moreover have "dom (view (idem_lru ?c)) \<subseteq> K" using c dom assms(3) [of i] by blast
    ultimately show ?thesis
      using finish c inv by (simp add: concInv_def holdersOf_upd inj_on_diff)
  qed
qed

lemma conc_run_inv:
  assumes "conc_run lops ops h calls s ms s'" and "concInv view good size_of n K calls s"
    and "\<And>i. k_key (calls i) \<in> K"
  shows "concInv view good size_of n K calls s'"
  using assms(1,2) by (induction rule: conc_run.induct) (auto dest: conc_step_inv [OF _ _ assms(3)])

text \<open>
  What became of a request since it claimed its key: it still holds it; or it is processed; or it
  is finished, and if its response was one to store, that response lives until it expires.
\<close>

definition livesOn :: "time \<Rightarrow> string \<Rightarrow> time \<Rightarrow> 's idem_cache \<Rightarrow> bool" where
  "livesOn t k now c \<longleftrightarrow>
     t + DefaultTTL \<le> now \<or>
     (\<exists>e. view (idem_lru c) k = Some e \<and> entry_expires e = t + DefaultTTL \<and> k \<notin> inflight c)"

lemma livesOn_step:
  assumes "conc_step lops ops h calls s m s'" and "concInv view good size_of n K calls s"
    and "\<And>i. k_key (calls i) \<in> K" "finite K" "card K \<le> n" and "livesOn t k (cn_now s) (cn_cache s)"
  shows "livesOn t k (cn_now s') (cn_cache s')"
proof (cases "t + DefaultTTL \<le> cn_now s")
  case True
  from assms(1) have "cn_now s \<le> cn_now s'" by (cases rule: conc_stepE) simp_all
  with True show ?thesis by (simp add: livesOn_def)
next
  case False
  with assms(6) obtain e where e: "view (idem_lru (cn_cache s)) k = Some e" "entry_expires e = t + DefaultTTL"
    and free: "k \<notin> inflight (cn_cache s)" by (auto simp: livesOn_def)
  from assms(2) have good: "good (idem_lru (cn_cache s))" and dom: "dom (view (idem_lru (cn_cache s))) \<subseteq> K"
    and size: "size_of (idem_lru (cn_cache s)) = n"
    and inflight: "inflight (cn_cache s) = (\<lambda>i. k_key (calls i)) ` holdersOf (cn_phase s)" by (simp_all add: concInv_def)
  have fresh: "cn_now s < entry_expires e" using False e(2) by simp
  have keeps: "view (idem_lru (idem_apply ops (cn_now s) a (cn_cache s))) k =
      (case a of OpStore k' r \<Rightarrow> if k' = k then Some \<lparr>entry_response = r, entry_expires = cn_now s + ttl (cn_cache s)\<rparr> else Some e
               | _ \<Rightarrow> Some e)" if "op_key a \<in> K" for a
    using apply_keeps [OF good e(1) fresh, of a K] that dom assms(4,5) size by simp
  from assms(1) show ?thesis
  proof (cases rule: conc_stepE)
    case (tick now)
    with e free show ?thesis by (auto simp: livesOn_def)
  next
    case (look i found c)
    with keeps [of "OpLookup (k_key (calls i))"] assms(3) Lookup_state [OF good, of "cn_now s" "k_key (calls i)"] e free
    show ?thesis by (simp add: livesOn_def)
  next
    case (claim i c)
    with Claim_result [OF good, of "cn_now s" "k_key (calls i)"] e free fresh show ?thesis
      by (cases "k_key (calls i) = k") (auto simp: livesOn_def)
  next
    case (lose i c)
    with Claim_result [OF good, of "cn_now s" "k_key (calls i)"] e free show ?thesis by (simp add: livesOn_def)
  next
    case (process i out lmt)
    with e free show ?thesis by (simp add: livesOn_def)
  next
    case (finish i out)
    then have "k_key (calls i) \<in> inflight (cn_cache s)" unfolding inflight by (simp add: holdersOf_mem)
    with free have other: "k_key (calls i) \<noteq> k" by blast
    with keeps [of "OpStore (k_key (calls i)) r" for r] assms(3) e(1) finish
    have "view (idem_lru (cn_cache s')) k = Some e"
      by (simp add: finalizeIdempotent_def idem_Abandon_def Let_def)
    moreover have "k \<notin> inflight (cn_cache s')"
      using finalize_state [OF good] free finish by simp
    ultimately show ?thesis using e(2) by (auto simp: livesOn_def)
  qed
qed

definition since :: "(nat \<Rightarrow> 'tp keyed_call) \<Rightarrow> nat \<Rightarrow> moment list \<Rightarrow> ('l, 's) conc_state \<Rightarrow> bool" where
  "since calls i ms s \<longleftrightarrow>
     cn_phase s i = Holding \<or>
     (\<exists>out. cn_phase s i = Processed out \<and> Process i out \<in> set ms) \<or>
     (\<exists>out t. Process i out \<in> set ms \<and> Finish i t \<in> set ms \<and> cn_phase s i = Answered out \<and>
        (statusOf (fst out) = Some 200 \<or> statusOf (fst out) = Some 422 \<longrightarrow>
           livesOn t (k_key (calls i)) (cn_now s) (cn_cache s)))"

lemma finish_lives:
  assumes "concInv view good size_of n K calls s" and "cn_phase s i = Processed out"
    and "statusOf (fst out) = Some 200 \<or> statusOf (fst out) = Some 422"
  shows "livesOn (cn_now s) (k_key (calls i)) (cn_now s)
    (finalizeIdempotent ops (cn_now s) (k_key (calls i)) (rw_run (fst out) (newRecording newWriter)) (cn_cache s))"
proof -
  from assms(3) obtain code where code: "statusOf (fst out) = Some code" "code = 200 \<or> code = 422" by blast
  from assms(1) have good: "good (idem_lru (cn_cache s))" and "ttl (cn_cache s) = DefaultTTL" by (simp_all add: concInv_def)
  with Store_state [OF good, of "cn_now s" "k_key (calls i)"] recorded [OF code(1)] code(2) show ?thesis
    by (auto simp: livesOn_def finalizeIdempotent_def Let_def)
qed

lemma since_step:
  assumes "conc_step lops ops h calls s m s'" and "concInv view good size_of n K calls s"
    and "\<And>i. k_key (calls i) \<in> K" "finite K" "card K \<le> n" and "since calls i ms s"
  shows "since calls i (ms @ [m]) s'"
  using assms(6) unfolding since_def
proof (elim disjE exE conjE, goal_cases)
  case 1
  from assms(1) show ?case
  proof (cases rule: conc_stepE)
    case (look j found c) with 1 show ?thesis by (cases "j = i") simp_all
  next
    case (claim j c) with 1 show ?thesis by (cases "j = i") simp_all
  next
    case (lose j c) with 1 show ?thesis by (cases "j = i") simp_all
  next
    case (process j out lmt) with 1 show ?thesis by (cases "j = i") simp_all
  next
    case (finish j out) with 1 show ?thesis by (cases "j = i") simp_all
  qed (use 1 in simp)
next
  case (2 out)
  from assms(1) show ?case
  proof (cases rule: conc_stepE)
    case (look j found c) with 2 show ?thesis by (cases "j = i") simp_all
  next
    case (claim j c) with 2 show ?thesis by (cases "j = i") simp_all
  next
    case (lose j c) with 2 show ?thesis by (cases "j = i") simp_all
  next
    case (process j out lmt) with 2 show ?thesis by (cases "j = i") simp_all
  next
    case (finish j out')
    show ?thesis
    proof (cases "j = i")
      case True
      with 2 finish finish_lives [OF assms(2), of i out] show ?thesis
        by (intro disjI2 exI [of _ out] exI [of _ "cn_now s"]) simp
    qed (use 2 finish in simp)
  qed (use 2 in simp)
next
  case (3 out t)
  have "cn_phase s' i = Answered out"
    using assms(1)
  proof (cases rule: conc_stepE)
    case (look j found c) with 3 show ?thesis by (cases "j = i") simp_all
  next
    case (claim j c) with 3 show ?thesis by (cases "j = i") simp_all
  next
    case (lose j c) with 3 show ?thesis by (cases "j = i") simp_all
  next
    case (process j out lmt) with 3 show ?thesis by (cases "j = i") simp_all
  next
    case (finish j out') with 3 show ?thesis by (cases "j = i") simp_all
  qed (use 3 in simp)
  with 3 livesOn_step [OF assms(1-5)] show ?case
    by (intro disjI2 exI [of _ out] exI [of _ t]) simp
qed

lemma since_run:
  assumes "conc_run lops ops h calls s ms s'" and "concInv view good size_of n K calls s"
    and "\<And>i. k_key (calls i) \<in> K" "finite K" "card K \<le> n" and "cn_phase s i = Holding"
  shows "since calls i ms s'"
  using assms(1,2,6)
proof (induction rule: conc_run.induct)
  case (idle s)
  then show ?case by (simp add: since_def)
next
  case (next_step s ms s' m s'')
  from since_step [OF next_step.hyps(2) conc_run_inv [OF next_step.hyps(1) next_step.prems(1) assms(3)] assms(3-5)]
    next_step.IH [OF next_step.prems] show ?case .
qed

lemma claim_finds_free:
  assumes "conc_step lops ops h calls s (Claim j t) s'" and "concInv view good size_of n K calls s"
  shows "t = cn_now s \<and> k_key (calls j) \<notin> inflight (cn_cache s) \<and> cn_phase s' j = Holding \<and>
    (case view (idem_lru (cn_cache s)) (k_key (calls j)) of Some e \<Rightarrow> entry_expires e \<le> t | None \<Rightarrow> True)"
  using assms(1)
proof (cases rule: conc_claimE)
  case (claim c)
  with Claim_result(1) [of "cn_cache s" "cn_now s" "k_key (calls j)"] assms(2) show ?thesis
    by (simp add: concInv_def split: option.splits)
qed

end

subsection \<open>At most once\<close>

definition conc_start :: "'c idem_cache \<Rightarrow> 'l limiter option \<Rightarrow> time \<Rightarrow> ('l, 'c) conc_state" where
  "conc_start c lmt now = \<lparr>cn_cache = c, cn_limiter = lmt, cn_phase = (\<lambda>_. Arrived), cn_now = now\<rparr>"

text \<open>
  C3: at most once, under any interleaving. Let any number of requests with idempotency keys run
  at the same time on one handler, their steps interleaved in any order, with keys that fit into
  the cache. If two of them that have the same key both get to be processed, then the first was
  processed and finished before the second claimed the key; and if the first was answered with
  status 200 or 422, at least 24 hours passed in between.
\<close>

theorem keyed_requests_run_once:
  assumes "lru_cache cops view good size_of" and "idem_New cops cap DefaultTTL = Inr c"
    and "finite (range (\<lambda>a. k_key (calls a)))" and "card (range (\<lambda>a. k_key (calls a))) \<le> nat cap"
    and "conc_run lops cops h calls (conc_start c lmt now)
           (before @ Claim i ti # meanwhile @ Claim j tj # after) s"
    and "k_key (calls i) = k_key (calls j)"
  shows "\<exists>out t. Process i out \<in> set meanwhile \<and> Finish i t \<in> set meanwhile \<and>
    (statusOf (fst out) = Some 200 \<or> statusOf (fst out) = Some 422 \<longrightarrow> t + DefaultTTL \<le> tj)"
proof -
  note il = idem_lru_cache.intro [OF assms(1)]
  let ?K = "range (\<lambda>a. k_key (calls a))" and ?run = "conc_run lops cops h calls" and ?step = "conc_step lops cops h calls"
  have K: "\<And>a. k_key (calls a) \<in> ?K" by blast
  have "?run (conc_start c lmt now) ((((before @ [Claim i ti]) @ meanwhile) @ [Claim j tj]) @ after) s" using assms(5) by simp
  then obtain s1 s2 s3 s4 where run: "?run (conc_start c lmt now) before s1" "?step s1 (Claim i ti) s2"
      "?run s2 meanwhile s3" "?step s3 (Claim j tj) s4"
    unfolding conc_run_append conc_run_single by blast
  have "concInv view good size_of (nat cap) ?K calls (conc_start c lmt now)"
    using idem_lru_cache.New_state [OF il assms(2)] by (simp add: concInv_def conc_start_def holdersOf_def)
  note inv1 = idem_lru_cache.conc_run_inv [OF il run(1) this K]
  note inv2 = idem_lru_cache.conc_step_inv [OF il run(2) inv1 K]
  note inv3 = idem_lru_cache.conc_run_inv [OF il run(3) inv2 K]
  have "cn_phase s2 i = Holding" using idem_lru_cache.claim_finds_free [OF il run(2) inv1] by blast
  from idem_lru_cache.since_run [OF il run(3) inv2 K assms(3,4) this]
  have since: "idem_lru_cache.since view calls i meanwhile s3" .
  note free = idem_lru_cache.claim_finds_free [OF il run(4) inv3]
  have "i \<notin> holdersOf (cn_phase s3)"
  proof
    assume "i \<in> holdersOf (cn_phase s3)"
    then have "k_key (calls j) \<in> (\<lambda>a. k_key (calls a)) ` holdersOf (cn_phase s3)"
      unfolding assms(6) [symmetric] by (rule imageI)
    with free inv3 show False by (simp add: concInv_def)
  qed
  then have "\<not> active (cn_phase s3 i)" by (simp add: holdersOf_mem)
  with since obtain out t where out: "Process i out \<in> set meanwhile" "Finish i t \<in> set meanwhile"
    and lives: "statusOf (fst out) = Some 200 \<or> statusOf (fst out) = Some 422 \<longrightarrow>
      idem_lru_cache.livesOn view t (k_key (calls i)) (cn_now s3) (cn_cache s3)"
    unfolding idem_lru_cache.since_def [OF il] by fastforce
  have "t + DefaultTTL \<le> tj" if "statusOf (fst out) = Some 200 \<or> statusOf (fst out) = Some 422"
  proof -
    from lives that have "idem_lru_cache.livesOn view t (k_key (calls i)) (cn_now s3) (cn_cache s3)" by blast
    with free assms(6) show ?thesis by (auto simp: idem_lru_cache.livesOn_def [OF il])
  qed
  with out show ?thesis by blast
qed

subsection \<open>Witness\<close>

text \<open>Two requests with one key, the second a day after the first.\<close>

definition sampleCalls :: "nat \<Rightarrow> unit keyed_call" where
  "sampleCalls i = \<lparr>k_env = sampleEnv 0, k_req = sampleRequest ''k1'' ''text'', k_apiKey = ''s3cret'', k_key = ''k1''\<rparr>"

definition sampleOut :: served where
  "sampleOut = deliver (sampleEnv 0) sampleHandler (sampleRequest ''k1'' ''text'') [(''msg'', [''text''])]"

definition sampleIdem :: "(string, idem_entry) use_list idem_cache" where
  "sampleIdem = \<lparr>idem_lru = (2, []), inflight = {}, ttl = DefaultTTL\<rparr>"

definition sampleStart :: "((string, nat) use_list, (string, idem_entry) use_list) conc_state" where
  "sampleStart = conc_start sampleIdem None 0"

lemma sampleOut_status: "statusOf (fst sampleOut) = Some 200"
  by (simp add: sampleOut_def sample_deliver)

lemma sample_stored:
  obtains resp where
    "finalizeIdempotent list_lru 0 ''k1'' (rw_run (fst sampleOut) (newRecording newWriter)) (sampleIdem\<lparr>inflight := {''k1''}\<rparr>) =
       sampleIdem\<lparr>idem_lru := (2, [(''k1'', \<lparr>entry_response = resp, entry_expires = DefaultTTL\<rparr>)])\<rparr>"
  using recorded [OF sampleOut_status]
  by (simp add: finalizeIdempotent_def idem_Store_def sampleIdem_def list_lru_def others_def)

lemma sample_run:
  "\<exists>s. conc_run list_lru list_lru sampleHandler sampleCalls sampleStart
     [Look 0, Claim 0 0, Process 0 sampleOut, Finish 0 0, Tick, Look 1, Claim 1 DefaultTTL] s"
proof -
  let ?step = "conc_step list_lru list_lru sampleHandler sampleCalls :: ((string, nat) use_list, _) conc_state \<Rightarrow> _"
  let ?s = sampleStart
  let ?sa = "?s\<lparr>cn_phase := (cn_phase ?s)(0 := Missed)\<rparr>"
  let ?sb = "?sa\<lparr>cn_cache := sampleIdem\<lparr>inflight := {''k1''}\<rparr>, cn_phase := (cn_phase ?sa)(0 := Holding)\<rparr>"
  let ?sc = "?sb\<lparr>cn_phase := (cn_phase ?sb)(0 := Processed sampleOut)\<rparr>"
  obtain resp where stored:
    "finalizeIdempotent list_lru 0 ''k1'' (rw_run (fst sampleOut) (newRecording newWriter)) (sampleIdem\<lparr>inflight := {''k1''}\<rparr>) =
       sampleIdem\<lparr>idem_lru := (2, [(''k1'', \<lparr>entry_response = resp, entry_expires = DefaultTTL\<rparr>)])\<rparr>"
    by (rule sample_stored)
  let ?sd = "?sc\<lparr>cn_cache := sampleIdem\<lparr>idem_lru := (2, [(''k1'', \<lparr>entry_response = resp, entry_expires = DefaultTTL\<rparr>)])\<rparr>,
                 cn_phase := (cn_phase ?sc)(0 := Answered sampleOut)\<rparr>"
  let ?se = "?sd\<lparr>cn_now := DefaultTTL\<rparr>"
  let ?sf = "?se\<lparr>cn_cache := sampleIdem, cn_phase := (cn_phase ?se)(1 := Missed)\<rparr>"
  let ?sg = "?sf\<lparr>cn_cache := sampleIdem\<lparr>inflight := {''k1''}\<rparr>, cn_phase := (cn_phase ?sf)(1 := Holding)\<rparr>"
  note defs = sampleStart_def conc_start_def sampleCalls_def sampleIdem_def idem_Lookup_def ClaimInFlight_def list_lru_def list_get_def
    others_def rateLimited_def sample_body sampleOut_def
  have "?step ?s (Look 0) ?sa" using conc_step.look [of ?s 0 list_lru sampleCalls "(None, False)" sampleIdem] by (simp add: defs)
  moreover have "?step ?sa (Claim 0 0) ?sb"
    using conc_step.claim [of ?sa 0 list_lru sampleCalls "sampleIdem\<lparr>inflight := {''k1''}\<rparr>"] by (simp add: defs)
  moreover have "?step ?sb (Process 0 sampleOut) ?sc"
    using conc_step.process [of ?sb 0 list_lru sampleCalls sampleHandler sampleOut None list_lru] by (simp add: defs)
  moreover have "?step ?sc (Finish 0 0) ?sd"
    using conc_step.finish [of ?sc 0 sampleOut list_lru list_lru sampleHandler sampleCalls] stored
    by (simp add: sampleStart_def conc_start_def sampleCalls_def)
  moreover have "?step ?sd Tick ?se"
    using conc_step.tick [of ?sd DefaultTTL] by (simp add: sampleStart_def conc_start_def DefaultTTL_def)
  moreover have "?step ?se (Look 1) ?sf"
    using conc_step.look [of ?se 1 list_lru sampleCalls "(None, False)" sampleIdem] by (simp add: defs)
  moreover have "?step ?sf (Claim 1 DefaultTTL) ?sg"
    using conc_step.claim [of ?sf 1 list_lru sampleCalls "sampleIdem\<lparr>inflight := {''k1''}\<rparr>"] by (simp add: defs)
  ultimately show ?thesis by (blast intro: conc_run_intros)
qed

theorem keyed_requests_run_once_witness:
  "\<exists>out t. Process 0 out \<in> set [Process 0 sampleOut, Finish 0 0, Tick, Look 1] \<and>
     Finish 0 t \<in> set [Process 0 sampleOut, Finish 0 0, Tick, Look 1] \<and> t + DefaultTTL \<le> DefaultTTL"
proof -
  have new: "idem_New list_lru 2 DefaultTTL = Inr sampleIdem"
    by (simp add: idem_New_def list_lru_def sampleIdem_def DefaultTTL_def)
  have keys: "range (\<lambda>a. k_key (sampleCalls a)) = {''k1''}" by (auto simp: sampleCalls_def)
  obtain s where "conc_run list_lru list_lru sampleHandler sampleCalls (conc_start sampleIdem None 0)
     ([Look 0] @ Claim 0 0 # [Process 0 sampleOut, Finish 0 0, Tick, Look 1] @ Claim 1 DefaultTTL # []) s"
    using sample_run by (auto simp: sampleStart_def)
  from keyed_requests_run_once [OF list_lru.lru_cache_axioms new _ _ this] keys sampleOut_status
  show ?thesis by (auto simp: sampleCalls_def)
qed

end
