(* ===== verification/MimeParse.thy ===== *)
theory MimeParse
  imports Transport
begin

text \<open>
  core/smtp/parse.go: from a DATA blob to a message. The MIME parsers of Go's library are an
  argument: \<open>readMessage\<close> splits header and body (mail.ReadMessage), \<open>decodeHeader\<close> decodes an
  RFC 2047 header value, \<open>parseMediaType\<close> gives media type, parameters and success, \<open>mimeParts\<close>
  the parts a multipart reader yields for a body and a boundary.
\<close>

datatype mime_part = MimePart string "string + bytes" | PartError string

record mimelib =
  readMessage :: "bytes \<Rightarrow> string + (values_map \<times> bytes)"
  decodeHeader :: "string \<Rightarrow> string option"
  parseMediaType :: "string \<Rightarrow> string \<times> (string \<times> string) list \<times> bool"
  mimeParts :: "bytes \<Rightarrow> string \<Rightarrow> mime_part list"

fun readPlainText :: "mimelib \<Rightarrow> mime_part list \<Rightarrow> string + string" where
  "readPlainText m [] = Inl ''multipart message has no text/plain part''"
| "readPlainText m (PartError e # ps) = Inl (''multipart read: '' @ e)"
| "readPlainText m (MimePart ct content # ps) =
     (let mediaType = fst (parseMediaType m ct) in
      if mediaType = [] \<or> hasPrefix mediaType ''text/plain'' then
        (case content of Inl e \<Rightarrow> Inl (''read text/plain part: '' @ e) | Inr b \<Rightarrow> Inr b)
      else readPlainText m ps)"

definition readPlainTextFromMultipart :: "mimelib \<Rightarrow> bytes \<Rightarrow> string \<Rightarrow> string + string" where
  "readPlainTextFromMultipart m body boundary = readPlainText m (mimeParts m body boundary)"

definition extractPlainTextBody :: "mimelib \<Rightarrow> values_map \<Rightarrow> bytes \<Rightarrow> string + string" where
  "extractPlainTextBody m header body =
     (let (mediaType, params, ok) = parseMediaType m (headerGet header ''Content-Type'') in
      if \<not> ok then Inr body
      else if mediaType = [] \<or> hasPrefix mediaType ''text/plain'' then Inr body
      else if hasPrefix mediaType ''text/html'' then
        Inl ''HTML-only message body not supported in v1.0; send multipart/alternative with a text/plain part''
      else if hasPrefix mediaType ''multipart/'' then
        (let boundary = (case map_of params ''boundary'' of None \<Rightarrow> [] | Some b \<Rightarrow> b) in
         if boundary = [] then Inl ''multipart Content-Type missing boundary''
         else readPlainTextFromMultipart m body boundary)
      else Inl (''unsupported Content-Type: '' @ mediaType))"

definition parseMIMEToMessage :: "mimelib \<Rightarrow> bytes \<Rightarrow> string \<Rightarrow> string list \<Rightarrow> string + message" where
  "parseMIMEToMessage m data envelopeFrom envelopeRcpts =
     (case readMessage m data of
        Inl e \<Rightarrow> Inl (''parse MIME headers: '' @ e)
      | Inr (header, body) \<Rightarrow>
          (let decode = (\<lambda>k. let h = headerGet header k in
                         case decodeHeader m h of None \<Rightarrow> h | Some d \<Rightarrow> d);
               subject = decode ''Subject'';
               fromHdr = (let f = decode ''From'' in if f = [] then envelopeFrom else f);
               replyTo = decode ''Reply-To''
           in case extractPlainTextBody m header body of
                Inl e \<Rightarrow> Inl e
              | Inr text \<Rightarrow>
                  Inr \<lparr>m_from = fromHdr, m_to = envelopeRcpts, m_replyTo = replyTo,
                       m_subject = subject, m_bodyText = text\<rparr>))"

text \<open>Recipients come from the envelope, never from a header.\<close>

lemma parseMIME_to: "parseMIMEToMessage m data from rcpts = Inr msg \<Longrightarrow> m_to msg = rcpts"
  by (auto simp: parseMIMEToMessage_def Let_def split: sum.splits prod.splits)

end
