(* ===== verification/SmtpSession.thy ===== *)
theory SmtpSession
  imports SmtpConfig MimeParse
begin

text \<open>
  core/smtp/session.go: the state machine of one SMTP connection. The client is the list of
  the lines it sends (without line ends; theory Wire cuts them from the bytes); when they run out, or the idle deadline passes, a
  read fails. The connection accepts \<open>e_writes\<close> replies before writes fail (None: it never
  fails). A STARTTLS handshake, the outbound transport and the UUIDs are arguments indexed by
  the number of earlier calls. A handshake drops the lines it read from the plaintext stream.
\<close>

subsection \<open>Environment and state\<close>

datatype handshake = HSFail nat | HSOk bool nat  \<comment> \<open>verified certificate; plaintext lines dropped\<close>

record smtp_env =
  e_cfg :: listener_config
  e_tls :: "tls_config option"
  e_maxBody :: int
  e_recorder :: bool
  e_std :: gostd
  e_mime :: mimelib
  e_handshake :: "nat \<Rightarrow> handshake"
  e_send :: "nat \<Rightarrow> message \<Rightarrow> send_outcome"
  e_uuid :: "nat \<Rightarrow> string"
  e_writes :: "nat option"

datatype smtp_event =
    TlsHandshakeFailed
  | TlsEstablished
  | AuthFailedFor string
  | AuthOkFor string
  | SenderRejected string
  | RecipientRejected string
  | HandedOver message string bool string bool  \<comment> \<open>message, envelope sender, TLS, user, certificate\<close>
  | SubmissionFailed string string
  | SubmissionSent string string int
  | MetricSent string
  | MetricFailed string string
  | SessionClosed

record session =
  input :: "string list"
  out :: "string list"
  trace :: "smtp_event list"
  tlsActive :: bool
  authedUser :: string
  authedViaCert :: bool
  mailFrom :: string
  rcptTo :: "string list"
  transaction :: bool
  handshakes :: nat
  sends :: nat

definition newSession :: "string list \<Rightarrow> session" where
  "newSession client =
     \<lparr>input = client, out = [], trace = [], tlsActive = False, authedUser = [], authedViaCert = False,
      mailFrom = [], rcptTo = [], transaction = False, handshakes = 0, sends = 0\<rparr>"

definition emit :: "smtp_event \<Rightarrow> session \<Rightarrow> session" where
  "emit ev s = s\<lparr>trace := trace s @ [ev]\<rparr>"

text \<open>A line written to the client: whether the write succeeded, and the session after it.\<close>

definition writeLine :: "smtp_env \<Rightarrow> string \<Rightarrow> session \<Rightarrow> bool \<times> session" where
  "writeLine e text s =
     (if (case e_writes e of None \<Rightarrow> False | Some n \<Rightarrow> n \<le> length (out s)) then (False, s)
      else (True, s\<lparr>out := out s @ [text]\<rparr>))"

definition writeReply :: "smtp_env \<Rightarrow> int \<Rightarrow> string \<Rightarrow> session \<Rightarrow> bool \<times> session" where
  "writeReply e code msg s = writeLine e (formatInt code @ '' '' @ msg) s"

abbreviation reply :: "smtp_env \<Rightarrow> int \<Rightarrow> string \<Rightarrow> session \<Rightarrow> session" where
  "reply e code msg s \<equiv> snd (writeReply e code msg s)"

fun writeMultilineReply :: "smtp_env \<Rightarrow> int \<Rightarrow> string list \<Rightarrow> session \<Rightarrow> bool \<times> session" where
  "writeMultilineReply e code [] s = (True, s)"
| "writeMultilineReply e code [line] s = writeLine e (formatInt code @ '' '' @ line) s"
| "writeMultilineReply e code (line # lines) s =
     (let (ok, s1) = writeLine e (formatInt code @ ''-'' @ line) s in
      if ok then writeMultilineReply e code lines s1 else (False, s1))"

definition resetTransaction :: "session \<Rightarrow> session" where
  "resetTransaction s = s\<lparr>mailFrom := [], rcptTo := [], transaction := False\<rparr>"

definition readLine :: "session \<Rightarrow> string option \<times> session" where
  "readLine s = (case input s of [] \<Rightarrow> (None, s) | l # ls \<Rightarrow> (Some l, s\<lparr>input := ls\<rparr>))"

subsection \<open>Parsing helpers\<close>

definition splitCommand :: "string \<Rightarrow> string \<times> string" where
  "splitCommand line =
     (case indexByte line CHR '' '' of
        None \<Rightarrow> (line, [])
      | Some idx \<Rightarrow> (take idx line, drop (Suc idx) line))"

definition extractEnvelopeAddress :: "string \<Rightarrow> string \<Rightarrow> string" where
  "extractEnvelopeAddress arg prefix =
     (if length arg < length prefix \<or> \<not> equalFold (take (length prefix) arg) prefix then []
      else
        (let rest = trimSpace (drop (length prefix) arg) in
         if \<not> hasPrefix rest ''<'' then []
         else (case indexByte rest CHR ''>'' of None \<Rightarrow> [] | Some end \<Rightarrow> drop 1 (take end rest))))"

fun matchesAllowlist :: "string \<Rightarrow> string list \<Rightarrow> bool" where
  "matchesAllowlist addr [] = False"
| "matchesAllowlist addr (entry # allowlist) =
     (if entry = ''*'' then True
      else if entry = addr then True
      else if hasPrefix entry ''*@'' \<and>
              (case indexByte addr CHR ''@'' of None \<Rightarrow> False | Some at \<Rightarrow> drop (Suc at) addr = drop 2 entry)
      then True
      else matchesAllowlist addr allowlist)"

definition verifyUser :: "user list \<Rightarrow> string \<Rightarrow> string \<Rightarrow> bool" where
  "verifyUser users u p = list_ex (\<lambda>x. username x = u \<and> password x = p) users"

definition canAdvertiseAuth :: "smtp_env \<Rightarrow> bool" where
  "canAdvertiseAuth e =
     (let mode = EffectiveAuthMode (e_cfg e) in mode = AuthSMTP \<or> mode = AuthEither)"

definition authRequiredAndMissing :: "smtp_env \<Rightarrow> session \<Rightarrow> bool" where
  "authRequiredAndMissing e s =
     (let mode = EffectiveAuthMode (e_cfg e) in
      if mode = AuthSMTP then authedUser s = []
      else if mode = AuthClientCert then \<not> authedViaCert s
      else authedUser s = [] \<and> \<not> authedViaCert s)"

subsection \<open>Greeting, TLS and authentication\<close>

definition handleEHLO :: "smtp_env \<Rightarrow> session \<Rightarrow> session" where
  "handleEHLO e s =
     (let lines = [''posthorn'']
            @ (if e_tls e \<noteq> None \<and> \<not> tlsActive s then [''STARTTLS''] else [])
            @ (if \<not> authRequiredAndMissing e s \<or> canAdvertiseAuth e
               then (if canAdvertiseAuth e then [''AUTH PLAIN''] else []) else [])
            @ (if 0 < e_maxBody e then [''SIZE '' @ formatInt (e_maxBody e)] else [])
      in snd (writeMultilineReply e 250 lines s))"

definition handleHELO :: "smtp_env \<Rightarrow> session \<Rightarrow> session" where
  "handleHELO e s = reply e 250 ''posthorn'' s"

definition handleSTARTTLS :: "smtp_env \<Rightarrow> session \<Rightarrow> bool \<times> session" where
  "handleSTARTTLS e s =
     (if e_tls e = None then (False, reply e 502 ''5.5.1 STARTTLS not supported'' s)
      else if tlsActive s then (False, reply e 503 ''5.5.1 TLS already active'' s)
      else
        (let (ok, s1) = writeReply e 220 ''2.0.0 Ready to start TLS'' s in
         if \<not> ok then (False, s1)
         else
           (let s2 = s1\<lparr>handshakes := Suc (handshakes s1)\<rparr> in
            case e_handshake e (handshakes s1) of
              HSFail n \<Rightarrow> (False, emit TlsHandshakeFailed (s2\<lparr>input := drop n (input s2)\<rparr>))
            | HSOk verified n \<Rightarrow>
                (let s3 = (resetTransaction (s2\<lparr>input := drop n (input s2), tlsActive := True\<rparr>))\<lparr>authedUser := []\<rparr>;
                     s4 = (if verified then s3\<lparr>authedViaCert := True\<rparr> else s3)
                 in (True, emit TlsEstablished s4)))))"

definition checkCredentials :: "smtp_env \<Rightarrow> string \<Rightarrow> session \<Rightarrow> session" where
  "checkCredentials e credsB64 s =
     (case b64Decode credsB64 of
        None \<Rightarrow> reply e 535 ''5.7.8 Malformed AUTH credentials'' s
      | Some raw \<Rightarrow>
          (case splitN CHR 0x00 2 raw of
             [_, u, p] \<Rightarrow>
               if \<not> verifyUser (SMTPUsers (e_cfg e)) u p
               then emit (AuthFailedFor u) (reply e 535 ''5.7.8 Authentication failed'' s)
               else emit (AuthOkFor u) (reply e 235 ''2.7.0 Authentication successful'' (s\<lparr>authedUser := u\<rparr>))
           | _ \<Rightarrow> reply e 535 ''5.7.8 Malformed AUTH credentials'' s))"

definition handleAUTH :: "smtp_env \<Rightarrow> string \<Rightarrow> session \<Rightarrow> session" where
  "handleAUTH e arg s =
     (if RequireTLS (e_cfg e) \<and> \<not> tlsActive s then reply e 530 ''5.7.0 Must issue STARTTLS first'' s
      else if \<not> canAdvertiseAuth e then reply e 502 ''5.5.1 AUTH not supported'' s
      else if length arg < 5 \<or> \<not> equalFold (take 5 arg) ''PLAIN''
      then reply e 504 ''5.5.4 Auth mechanism not supported (PLAIN only)'' s
      else
        (let creds = trimSpace (drop 5 arg) in
         if creds = [] then
           (case readLine (reply e 334 [] s) of
              (None, s1) \<Rightarrow> s1
            | (Some line, s1) \<Rightarrow> checkCredentials e line s1)
         else checkCredentials e creds s))"

subsection \<open>The mail transaction\<close>

definition handleMAIL :: "smtp_env \<Rightarrow> string \<Rightarrow> session \<Rightarrow> session" where
  "handleMAIL e arg s =
     (if RequireTLS (e_cfg e) \<and> \<not> tlsActive s then reply e 530 ''5.7.0 Must issue STARTTLS first'' s
      else if authRequiredAndMissing e s then reply e 530 ''5.7.0 Authentication required'' s
      else
        (let addr = extractEnvelopeAddress arg ''FROM:'' in
         if addr = [] then reply e 501 ''5.5.4 Syntax: MAIL FROM:<address>'' s
         else if \<not> matchesAllowlist addr (AllowedSenders (e_cfg e))
         then emit (SenderRejected addr) (reply e 550 ''5.7.1 Sender not authorized'' s)
         else reply e 250 ''2.1.0 OK'' ((resetTransaction s)\<lparr>mailFrom := addr, transaction := True\<rparr>)))"

definition handleRCPT :: "smtp_env \<Rightarrow> string \<Rightarrow> session \<Rightarrow> session" where
  "handleRCPT e arg s =
     (if \<not> transaction s then reply e 503 ''5.5.1 MAIL FROM required first'' s
      else
        (let addr = extractEnvelopeAddress arg ''TO:''; cap = EffectiveMaxRecipients (e_cfg e) in
         if addr = [] then reply e 501 ''5.5.4 Syntax: RCPT TO:<address>'' s
         else if 0 < cap \<and> cap \<le> int (length (rcptTo s)) then reply e 452 ''4.5.3 Too many recipients'' s
         else if AllowedRecipients (e_cfg e) \<noteq> [] \<and> \<not> matchesAllowlist addr (AllowedRecipients (e_cfg e))
         then emit (RecipientRejected addr) (reply e 550 ''5.7.1 Recipient not authorized'' s)
         else reply e 250 ''2.1.5 OK'' (s\<lparr>rcptTo := rcptTo s @ [addr]\<rparr>)))"

text \<open>
  The dot-terminated text: each line without its stuffing dot, ended by a line feed; whether
  the terminating dot came; and the lines after it.
\<close>

fun dotText :: "string list \<Rightarrow> bytes \<times> bool \<times> string list" where
  "dotText [] = ([], False, [])"
| "dotText (l # ls) =
     (if l = ''.'' then ([], True, ls)
      else (case dotText ls of
              (b, fin, rest) \<Rightarrow> ((if hasPrefix l ''.'' then drop 1 l else l) @ [CHR 0x0A] @ b, fin, rest)))"

definition recordSend :: "smtp_env \<Rightarrow> smtp_event \<Rightarrow> session \<Rightarrow> session" where
  "recordSend e ev s = (if e_recorder e then emit ev s else s)"

text \<open>recordSendFailed's class label.\<close>

definition sendErrorClass :: "goerror \<Rightarrow> string" where
  "sendErrorClass err =
     (case asTransportError err of None \<Rightarrow> ''unknown'' | Some te \<Rightarrow> class_String (te_class te))"

text \<open>The session's own asTransportError follows the chain by Unwrap; it finds what errors.As does.\<close>

function chainTransportError :: "goerror \<Rightarrow> transport_error option" where
  "chainTransportError cur =
     (case cur of
        TransportErr cls status cause msg \<Rightarrow> Some (cls, status, cause, msg)
      | _ \<Rightarrow> (case unwrap cur of None \<Rightarrow> None | Some e \<Rightarrow> chainTransportError e))"
  by pat_completeness auto
termination by (relation "measure size") (auto elim: unwrap.elims)

declare chainTransportError.simps [simp del]

lemma chainTransportError_eq: "chainTransportError err = asTransportError err"
  by (induction err rule: asTransportError.induct) (subst chainTransportError.simps; simp)+

definition handOver :: "smtp_env \<Rightarrow> message \<Rightarrow> int \<Rightarrow> session \<Rightarrow> session" where
  "handOver e msg n s =
     (let submissionID = e_uuid e (sends s);
          s1 = emit (HandedOver msg (mailFrom s) (tlsActive s) (authedUser s) (authedViaCert s))
                 (s\<lparr>sends := Suc (sends s)\<rparr>)
      in case e_send e (sends s) msg of
           Inl sendErr \<Rightarrow>
             (let s2 = emit (SubmissionFailed submissionID (errorText sendErr))
                         (reply e 451 ''4.0.0 Upstream transport failed'' s1);
                  s3 = recordSend e (MetricFailed (TransportType (e_cfg e)) (sendErrorClass sendErr)) s2
              in resetTransaction s3)
         | Inr result \<Rightarrow>
             (let s2 = emit (SubmissionSent submissionID (messageID result) n)
                         (reply e 250 (''2.0.0 OK queued as '' @ submissionID) s1);
                  s3 = recordSend e (MetricSent (TransportType (e_cfg e))) s2
              in resetTransaction s3))"

definition handleDATA :: "smtp_env \<Rightarrow> session \<Rightarrow> session" where
  "handleDATA e s =
     (if \<not> transaction s then reply e 503 ''5.5.1 MAIL FROM required first'' s
      else if rcptTo s = [] then reply e 503 ''5.5.1 RCPT TO required first'' s
      else
        (let (ok, s1) = writeReply e 354 ''End data with <CR><LF>.<CR><LF>'' s in
         if \<not> ok then s1
         else
           (let (body, fin, rest) = dotText (input s1);
                limit = nat (wrap64 (e_maxBody e + 1));
                buf = take limit body;
                n = int (length buf);
                s2 = s1\<lparr>input := rest\<rparr>
            in if \<not> fin \<and> length body < limit
               then resetTransaction (reply e 451 ''4.3.0 Read error'' s2)
               else if 0 < e_maxBody e \<and> e_maxBody e < n
               then resetTransaction (reply e 552 ''5.3.4 Message too big'' s2)
               else
                 (case parseMIMEToMessage (e_mime e) buf (mailFrom s2) (rcptTo s2) of
                    Inl err \<Rightarrow> resetTransaction (reply e 550 (''5.6.0 Malformed message: '' @ err) s2)
                  | Inr msg \<Rightarrow> handOver e msg n s2))))"

subsection \<open>The command loop\<close>

text \<open>One command: whether the loop goes on, and the session after it.\<close>

definition command :: "smtp_env \<Rightarrow> string \<Rightarrow> session \<Rightarrow> bool \<times> session" where
  "command e line s =
     (let (cmd, arg) = splitCommand line; verb = ToUpper (e_std e) cmd in
      if verb = ''EHLO'' then (True, handleEHLO e s)
      else if verb = ''HELO'' then (True, handleHELO e s)
      else if verb = ''STARTTLS'' then (True, snd (handleSTARTTLS e s))
      else if verb = ''AUTH'' then (True, handleAUTH e arg s)
      else if verb = ''MAIL'' then (True, handleMAIL e arg s)
      else if verb = ''RCPT'' then (True, handleRCPT e arg s)
      else if verb = ''DATA'' then (True, handleDATA e s)
      else if verb = ''RSET'' then (True, reply e 250 ''2.0.0 OK'' (resetTransaction s))
      else if verb = ''NOOP'' then (True, reply e 250 ''2.0.0 OK'' s)
      else if verb = ''QUIT'' then (False, emit SessionClosed (reply e 221 ''2.0.0 Bye'' s))
      else (True, reply e 500 ''5.5.1 Command unrecognized'' s))"

subsection \<open>Frame lemmas\<close>

lemma emit_fields [simp]:
  "input (emit ev s) = input s" "out (emit ev s) = out s" "trace (emit ev s) = trace s @ [ev]"
  "tlsActive (emit ev s) = tlsActive s" "authedUser (emit ev s) = authedUser s"
  "authedViaCert (emit ev s) = authedViaCert s" "mailFrom (emit ev s) = mailFrom s"
  "rcptTo (emit ev s) = rcptTo s" "transaction (emit ev s) = transaction s"
  "handshakes (emit ev s) = handshakes s" "sends (emit ev s) = sends s"
  by (simp_all add: emit_def)

lemma resetTransaction_fields [simp]:
  "input (resetTransaction s) = input s" "out (resetTransaction s) = out s"
  "trace (resetTransaction s) = trace s" "tlsActive (resetTransaction s) = tlsActive s"
  "authedUser (resetTransaction s) = authedUser s" "authedViaCert (resetTransaction s) = authedViaCert s"
  "mailFrom (resetTransaction s) = []" "rcptTo (resetTransaction s) = []"
  "\<not> transaction (resetTransaction s)"
  by (simp_all add: resetTransaction_def)

lemma writeLine_fields:
  "input (snd (writeLine e t s)) = input s" "trace (snd (writeLine e t s)) = trace s"
  "tlsActive (snd (writeLine e t s)) = tlsActive s" "authedUser (snd (writeLine e t s)) = authedUser s"
  "authedViaCert (snd (writeLine e t s)) = authedViaCert s" "mailFrom (snd (writeLine e t s)) = mailFrom s"
  "rcptTo (snd (writeLine e t s)) = rcptTo s" "transaction (snd (writeLine e t s)) = transaction s"
  "handshakes (snd (writeLine e t s)) = handshakes s" "sends (snd (writeLine e t s)) = sends s"
  by (simp_all add: writeLine_def)

lemma reply_fields [simp]:
  "input (reply e c m s) = input s" "trace (reply e c m s) = trace s"
  "tlsActive (reply e c m s) = tlsActive s" "authedUser (reply e c m s) = authedUser s"
  "authedViaCert (reply e c m s) = authedViaCert s" "mailFrom (reply e c m s) = mailFrom s"
  "rcptTo (reply e c m s) = rcptTo s" "transaction (reply e c m s) = transaction s"
  "handshakes (reply e c m s) = handshakes s" "sends (reply e c m s) = sends s"
  by (simp_all add: writeReply_def writeLine_fields)

lemma writeReply_result:
  assumes "writeReply e c m s = (ok, s1)"
  shows "s1 = reply e c m s"
  using assms by (metis snd_conv)

lemma recordSend_fields:
  "input (recordSend e ev s) = input s" "tlsActive (recordSend e ev s) = tlsActive s"
  "authedUser (recordSend e ev s) = authedUser s" "authedViaCert (recordSend e ev s) = authedViaCert s"
  "set (trace (recordSend e ev s)) \<subseteq> insert ev (set (trace s))"
  by (auto simp: recordSend_def)

lemma readLine_cases: "readLine s = (l, s1) \<Longrightarrow> s1 = s\<lparr>input := tl (input s)\<rparr> \<or> s1 = s"
  by (auto simp: readLine_def split: list.splits)

lemma EHLO_reply: "\<exists>o'. handleEHLO e s = s\<lparr>out := o'\<rparr>"
proof -
  have line: "\<exists>o'. snd (writeLine e t s) = s\<lparr>out := o'\<rparr>" for t s
    by (cases "fst (writeLine e t s)") (auto simp: writeLine_def intro: exI [of _ "out s"])
  have "\<exists>o'. snd (writeMultilineReply e c ls s) = s\<lparr>out := o'\<rparr>" for c ls s
  proof (induction e c ls s rule: writeMultilineReply.induct)
    case (1 e code s)
    then show ?case by (auto intro: exI [of _ "out s"])
  next
    case (2 e code l s)
    then show ?case by (auto simp: writeLine_def intro: exI [of _ "out s"])
  next
    case (3 e code l v va s)
    obtain ok s1 where w: "writeLine e (formatInt code @ ''-'' @ l) s = (ok, s1)" by fastforce
    then obtain o1 where "s1 = s\<lparr>out := o1\<rparr>" by (auto simp: writeLine_def split: if_splits intro: that [of "out s"])
    with 3 w show ?case by (cases ok) force+
  qed
  then show ?thesis by (simp add: handleEHLO_def Let_def)
qed

subsection \<open>Every command consumes input or leaves it\<close>

lemma dotText_rest: "dotText ls = (b, fin, rest) \<Longrightarrow> length rest \<le> length ls"
  by (induction ls arbitrary: b fin rest) (auto split: if_splits prod.splits intro: le_SucI)

lemma command_input: "length (input (snd (command e line s))) \<le> length (input s)"
proof -
  have ehlo: "input (handleEHLO e s) = input s" using EHLO_reply [of e s] by auto
  have tls: "length (input (snd (handleSTARTTLS e s))) \<le> length (input s)"
    by (auto simp: handleSTARTTLS_def Let_def dest!: writeReply_result split: prod.splits handshake.splits)
  have creds: "input (checkCredentials e c s') = input s'" for c s'
    by (simp add: checkCredentials_def split: option.split list.split)
  have auth: "length (input (handleAUTH e arg s)) \<le> length (input s)" for arg
    by (auto simp: handleAUTH_def Let_def creds readLine_def split: option.splits prod.splits list.splits)
  have mail: "input (handleMAIL e arg s) = input s" for arg by (simp add: handleMAIL_def Let_def)
  have rcpt: "input (handleRCPT e arg s) = input s" for arg by (simp add: handleRCPT_def Let_def)
  have hand: "input (handOver e msg n s') = input s'" for msg n s'
    by (simp add: handOver_def Let_def recordSend_fields split: sum.split)
  have data: "length (input (handleDATA e s)) \<le> length (input s)"
    by (auto simp: handleDATA_def Let_def hand dest!: writeReply_result dotText_rest
        split: prod.splits sum.splits)
  show ?thesis
    by (simp add: command_def Let_def ehlo tls auth mail rcpt data handleHELO_def split: prod.split)
qed

function run :: "smtp_env \<Rightarrow> session \<Rightarrow> session" where
  "run e s =
     (case readLine s of
        (None, s1) \<Rightarrow> s1
      | (Some line, s1) \<Rightarrow>
          (let (continue, s2) = command e line s1 in if continue then run e s2 else s2))"
  by pat_completeness auto
termination
proof (relation "measure (\<lambda>(e, s). length (input s))")
  fix e :: smtp_env and s :: session and l s1 line x y xa
  assume "(l, s1) = readLine s" "l = Some line" "x = command e line s1" "(xa, y) = x" "xa"
  moreover from this have "length (input s1) < length (input s)"
    by (auto simp: readLine_def split: list.splits)
  ultimately show "((e, y), (e, s)) \<in> measure (\<lambda>(e, s). length (input s))"
    using command_input [of e line s1] by (metis (no_types, lifting) case_prod_conv in_measure le_less_trans snd_conv)
qed simp

declare run.simps [simp del]

text \<open>newSession and run: the greeting, then the loop.\<close>

definition serve :: "smtp_env \<Rightarrow> string list \<Rightarrow> session" where
  "serve e client =
     (let (ok, s) = writeReply e 220 ''posthorn ready'' (newSession client) in if ok then run e s else s)"

subsection \<open>The relay policy\<close>

text \<open>Authentication as the configured mode demands it.\<close>

definition authOk :: "smtp_env \<Rightarrow> string \<Rightarrow> bool \<Rightarrow> bool" where
  "authOk e u cert \<longleftrightarrow>
     (if EffectiveAuthMode (e_cfg e) = AuthSMTP then u \<noteq> []
      else if EffectiveAuthMode (e_cfg e) = AuthClientCert then cert
      else u \<noteq> [] \<or> cert)"

definition recipientsOk :: "smtp_env \<Rightarrow> string list \<Rightarrow> bool" where
  "recipientsOk e rcpts \<longleftrightarrow>
     (AllowedRecipients (e_cfg e) \<noteq> [] \<longrightarrow> (\<forall>r \<in> set rcpts. matchesAllowlist r (AllowedRecipients (e_cfg e)))) \<and>
     (0 < EffectiveMaxRecipients (e_cfg e) \<longrightarrow> int (length rcpts) \<le> EffectiveMaxRecipients (e_cfg e))"

definition userKnown :: "smtp_env \<Rightarrow> string \<Rightarrow> bool" where
  "userKnown e u \<longleftrightarrow> u \<noteq> [] \<longrightarrow> u \<in> username ` set (SMTPUsers (e_cfg e))"

fun eventOk :: "smtp_env \<Rightarrow> smtp_event \<Rightarrow> bool" where
  "eventOk e (HandedOver m from tls u cert) \<longleftrightarrow>
     (RequireTLS (e_cfg e) \<longrightarrow> tls) \<and> authOk e u cert \<and> userKnown e u \<and>
     from \<noteq> [] \<and> matchesAllowlist from (AllowedSenders (e_cfg e)) \<and>
     m_to m \<noteq> [] \<and> recipientsOk e (m_to m)"
| "eventOk e (SubmissionSent sid mid n) \<longleftrightarrow> 0 < e_maxBody e \<longrightarrow> n \<le> e_maxBody e"
| "eventOk e _ \<longleftrightarrow> True"

text \<open>The invariant of a session: what the state says is what the policy has allowed.\<close>

definition sessionInv :: "smtp_env \<Rightarrow> session \<Rightarrow> bool" where
  "sessionInv e s \<longleftrightarrow>
     (\<forall>ev \<in> set (trace s). eventOk e ev) \<and>
     (authedUser s \<noteq> [] \<longrightarrow> userKnown e (authedUser s) \<and> (RequireTLS (e_cfg e) \<longrightarrow> tlsActive s)) \<and>
     (transaction s \<longrightarrow>
        (RequireTLS (e_cfg e) \<longrightarrow> tlsActive s) \<and> authOk e (authedUser s) (authedViaCert s) \<and>
        mailFrom s \<noteq> [] \<and> matchesAllowlist (mailFrom s) (AllowedSenders (e_cfg e)) \<and>
        recipientsOk e (rcptTo s))"

lemma authMissing_iff: "authRequiredAndMissing e s \<longleftrightarrow> \<not> authOk e (authedUser s) (authedViaCert s)"
  by (simp add: authRequiredAndMissing_def authOk_def Let_def)

lemma recipientsOk_Nil [simp]: "recipientsOk e []"
  by (simp add: recipientsOk_def)

lemma recipientsOk_snoc:
  assumes "recipientsOk e rs" and "\<not> (0 < EffectiveMaxRecipients (e_cfg e) \<and> EffectiveMaxRecipients (e_cfg e) \<le> int (length rs))"
    and "\<not> (AllowedRecipients (e_cfg e) \<noteq> [] \<and> \<not> matchesAllowlist r (AllowedRecipients (e_cfg e)))"
  shows "recipientsOk e (rs @ [r])"
  using assms by (auto simp: recipientsOk_def)

lemma verifyUser_known: "verifyUser (SMTPUsers (e_cfg e)) u p \<Longrightarrow> userKnown e u"
  by (auto simp: verifyUser_def userKnown_def list_ex_iff)

lemma inv_reply [simp]: "sessionInv e (reply e' c m s) = sessionInv e s"
  by (simp add: sessionInv_def)

lemma inv_emit: "sessionInv e s \<Longrightarrow> eventOk e ev \<Longrightarrow> sessionInv e (emit ev s)"
  by (simp add: sessionInv_def)

lemma inv_reset: "sessionInv e s \<Longrightarrow> sessionInv e (resetTransaction s)"
  by (simp add: sessionInv_def)

lemma inv_input: "sessionInv e (s\<lparr>input := ls\<rparr>) = sessionInv e s"
  by (simp add: sessionInv_def)

lemma inv_out: "sessionInv e (s\<lparr>out := ls\<rparr>) = sessionInv e s"
  by (simp add: sessionInv_def)

lemma inv_record: "sessionInv e s \<Longrightarrow> eventOk e ev \<Longrightarrow> sessionInv e (recordSend e' ev s)"
  by (simp add: recordSend_def inv_emit)

lemma inv_readLine: "sessionInv e s \<Longrightarrow> readLine s = (l, s1) \<Longrightarrow> sessionInv e s1"
  by (auto simp: readLine_def inv_input split: list.splits)

lemmas inv_intros = inv_emit inv_reset inv_record

subsection \<open>Every command keeps the policy\<close>

lemma inv_STARTTLS:
  assumes "sessionInv e s"
  shows "sessionInv e (snd (handleSTARTTLS e s))"
proof (cases "e_tls e = None \<or> tlsActive s \<or> \<not> fst (writeReply e 220 ''2.0.0 Ready to start TLS'' s)")
  case True
  with assms show ?thesis by (auto simp: handleSTARTTLS_def Let_def case_prod_unfold)
next
  case False
  with assms show ?thesis
    by (auto simp: handleSTARTTLS_def Let_def case_prod_unfold sessionInv_def split: handshake.split)
qed

text \<open>A validated configuration has no user without a name where AUTH is offered.\<close>

definition usersNamed :: "smtp_env \<Rightarrow> bool" where
  "usersNamed e \<longleftrightarrow> (canAdvertiseAuth e \<longrightarrow> (\<forall>x \<in> set (SMTPUsers (e_cfg e)). username x \<noteq> []))"

lemma Validate_usersNamed: "listener_Validate (e_cfg e) = None \<Longrightarrow> usersNamed e"
  using Validate_users [of "e_cfg e"] trimSpace_Nil
  by (fastforce simp: usersNamed_def canAdvertiseAuth_def Let_def)

lemma inv_credentials:
  assumes "sessionInv e s" and "RequireTLS (e_cfg e) \<longrightarrow> tlsActive s" and "usersNamed e" "canAdvertiseAuth e"
  shows "sessionInv e (checkCredentials e c s)"
proof -
  have "sessionInv e (s\<lparr>authedUser := u\<rparr>)" if "verifyUser (SMTPUsers (e_cfg e)) u p" for u p
  proof -
    have "u \<noteq> []" using that assms(3,4) by (auto simp: verifyUser_def usersNamed_def list_ex_iff)
    with assms(1,2) verifyUser_known [OF that] show ?thesis
      by (auto simp: sessionInv_def authOk_def)
  qed
  with assms(1) show ?thesis
    by (auto simp: checkCredentials_def inv_emit split: option.split list.split)
qed

lemma inv_AUTH:
  assumes "sessionInv e s" and "usersNamed e"
  shows "sessionInv e (handleAUTH e arg s)"
proof -
  let ?r = "reply e 334 [] s"
  have "sessionInv e s1 \<and> tlsActive s1 = tlsActive s" if "readLine ?r = (l, s1)" for l s1
    using that assms(1) by (auto simp: readLine_def inv_input split: list.splits)
  with assms show ?thesis
    by (auto simp: handleAUTH_def Let_def inv_credentials split: prod.split option.split)
qed

lemma inv_MAIL:
  assumes "sessionInv e s"
  shows "sessionInv e (handleMAIL e arg s)"
proof -
  have "sessionInv e ((resetTransaction s)\<lparr>mailFrom := addr, transaction := True\<rparr>)"
    if "RequireTLS (e_cfg e) \<longrightarrow> tlsActive s" "\<not> authRequiredAndMissing e s" "addr \<noteq> []"
      "matchesAllowlist addr (AllowedSenders (e_cfg e))" for addr
    using assms that by (auto simp: sessionInv_def authMissing_iff)
  with assms show ?thesis by (auto simp: handleMAIL_def Let_def inv_emit)
qed

lemma inv_RCPT:
  assumes "sessionInv e s"
  shows "sessionInv e (handleRCPT e arg s)"
proof -
  have "sessionInv e (s\<lparr>rcptTo := rcptTo s @ [addr]\<rparr>)"
    if "\<not> (0 < EffectiveMaxRecipients (e_cfg e) \<and> EffectiveMaxRecipients (e_cfg e) \<le> int (length (rcptTo s)))"
      "\<not> (AllowedRecipients (e_cfg e) \<noteq> [] \<and> \<not> matchesAllowlist addr (AllowedRecipients (e_cfg e)))" for addr
    using assms recipientsOk_snoc [OF _ that] by (simp add: sessionInv_def)
  with assms show ?thesis by (simp add: handleRCPT_def Let_def inv_emit)
qed

lemma inv_handOver:
  assumes "sessionInv e s" and "transaction s" and "m_to msg = rcptTo s" "rcptTo s \<noteq> []"
    and "0 < e_maxBody e \<longrightarrow> n \<le> e_maxBody e"
  shows "sessionInv e (handOver e msg n s)"
proof -
  have "eventOk e (HandedOver msg (mailFrom s) (tlsActive s) (authedUser s) (authedViaCert s))"
    using assms(1-4) by (auto simp: sessionInv_def userKnown_def)
  moreover have "sessionInv e (s\<lparr>sends := k\<rparr>)" for k using assms(1) by (simp add: sessionInv_def)
  ultimately show ?thesis
    using assms(5) by (auto simp: handOver_def Let_def intro!: inv_intros split: sum.split)
qed

lemma inv_DATA:
  assumes "sessionInv e s"
  shows "sessionInv e (handleDATA e s)"
proof (cases "\<not> transaction s \<or> rcptTo s = []")
  case True
  with assms show ?thesis by (auto simp: handleDATA_def)
next
  case False
  obtain ok s1 where w: "writeReply e 354 ''End data with <CR><LF>.<CR><LF>'' s = (ok, s1)" by fastforce
  then have s1: "s1 = reply e 354 ''End data with <CR><LF>.<CR><LF>'' s" by (rule writeReply_result)
  obtain body fin rest where d: "dotText (input s1) = (body, fin, rest)" by (metis prod_cases3)
  have "sessionInv e (handOver e msg n (s1\<lparr>input := rest\<rparr>))"
    if "parseMIMEToMessage (e_mime e) b (mailFrom s1) (rcptTo s1) = Inr msg"
      "\<not> (0 < e_maxBody e \<and> e_maxBody e < n)" for b msg n
    using that assms False parseMIME_to [OF that(1)] s1
    by (intro inv_handOver) (auto simp: inv_input)
  moreover have "sessionInv e s1" using assms s1 by simp
  ultimately show ?thesis
    using w d False by (auto simp: handleDATA_def Let_def inv_reset inv_input split: sum.split)
qed

lemma inv_command:
  assumes "sessionInv e s" and "usersNamed e"
  shows "sessionInv e (snd (command e line s))"
proof -
  have "sessionInv e (handleEHLO e s)" using EHLO_reply [of e s] assms(1) by (auto simp: inv_out)
  with assms show ?thesis
    by (simp add: command_def Let_def handleHELO_def inv_STARTTLS inv_AUTH inv_MAIL inv_RCPT inv_DATA
        inv_intros split: prod.split)
qed

lemma inv_run: "usersNamed e \<Longrightarrow> sessionInv e s \<Longrightarrow> sessionInv e (run e s)"
proof (induction e s rule: run.induct)
  case (1 e s)
  obtain l s1 where rl: "readLine s = (l, s1)" by fastforce
  with 1 have s1: "sessionInv e s1" by (simp add: inv_readLine)
  show ?case
  proof (cases l)
    case None
    with rl s1 show ?thesis by (simp add: run.simps)
  next
    case (Some line)
    obtain go s2 where c: "command e line s1 = (go, s2)" by fastforce
    with inv_command [OF s1 "1.prems"(1), of line] have s2: "sessionInv e s2" by simp
    then have "go \<longrightarrow> sessionInv e (run e s2)"
      using "1.IH" [OF rl [symmetric] Some c [symmetric]] "1.prems"(1) by simp
    with rl Some c s2 show ?thesis by (subst run.simps) simp
  qed
qed

lemma inv_new: "sessionInv e (newSession client)"
  by (simp add: sessionInv_def newSession_def)

lemma inv_serve: "usersNamed e \<Longrightarrow> sessionInv e (serve e client)"
  by (auto simp: serve_def inv_run inv_new dest!: writeReply_result split: prod.split)

subsection \<open>A concrete session\<close>

text \<open>
  A listener with one user and no TLS, MIME parsers that take the whole blob for the body, and
  a transport that accepts everything.
\<close>

definition sampleMime :: mimelib where
  "sampleMime =
     \<lparr>readMessage = (\<lambda>b. Inr ([(''From'', [''f'']), (''Bcc'', [''x@evil''])], b)),
      decodeHeader = Some, parseMediaType = (\<lambda>_. ([], [], False)), mimeParts = (\<lambda>_ _. [])\<rparr>"

definition sampleListener :: listener_config where
  "sampleListener =
     \<lparr>Listen = '':2525'', RequireTLS = False, TLSCert = [], TLSKey = [], ClientCertCA = [], AuthRequired = [],
      SMTPUsers = [\<lparr>username = ''u'', password = ''p''\<rparr>], AllowedSenders = [''*@b''], AllowedRecipients = [],
      MaxRecipientsPerSession = 0, MaxMessageSize = [], IdleTimeout = 0, TransportType = ''postmark''\<rparr>"

definition sampleSmtp :: smtp_env where
  "sampleSmtp =
     \<lparr>e_cfg = sampleListener, e_tls = None, e_maxBody = 100, e_recorder = True, e_std = sampleStd,
      e_mime = sampleMime, e_handshake = (\<lambda>_. HSFail 0), e_send = (\<lambda>_ _. Inr \<lparr>messageID = ''id''\<rparr>),
      e_uuid = (\<lambda>n. ''uuid''), e_writes = None\<rparr>"

definition sampleClient :: "string list" where
  "sampleClient =
     [''AUTH PLAIN AHUAcA=='', ''MAIL FROM:<a@b>'', ''RCPT TO:<c@d>'', ''DATA'', ''hi'', ''.'', ''QUIT'']"

lemma sampleTrace:
  "trace (serve sampleSmtp sampleClient) =
     [AuthOkFor ''u'',
      HandedOver \<lparr>m_from = ''f'', m_to = [''c@d''], m_replyTo = [], m_subject = [], m_bodyText = ''hi'' @ [CHR 0x0A]\<rparr>
        ''a@b'' False ''u'' False,
      SubmissionSent ''uuid'' ''id'' 3, MetricSent ''postmark'', SessionClosed]"
  by code_simp

lemma sampleSession:
  "HandedOver \<lparr>m_from = ''f'', m_to = [''c@d''], m_replyTo = [], m_subject = [], m_bodyText = ''hi'' @ [CHR 0x0A]\<rparr>
     ''a@b'' False ''u'' False \<in> set (trace (serve sampleSmtp sampleClient))"
  by (simp add: sampleTrace)

subsection \<open>Properties\<close>

text \<open>
  C23: No open relay. With a validated configuration, whatever a client sends, every message the
  session hands to the outbound transport was submitted over TLS where TLS is required, by a
  client authenticated as the mode demands (as a configured user, if by password), from a
  sender on the allow-list; its recipients are the envelope's, never a header's, all on the
  recipient allow-list if there is one and no more than the effective cap, which is positive
  when there is no allow-list.
\<close>
theorem smtp_is_no_open_relay:
  assumes "listener_Validate (e_cfg e) = None"
    and "HandedOver m from tls u cert \<in> set (trace (serve e client))"
  shows "(RequireTLS (e_cfg e) \<longrightarrow> tls) \<and> authOk e u cert \<and>
         (u \<noteq> [] \<longrightarrow> u \<in> username ` set (SMTPUsers (e_cfg e))) \<and>
         matchesAllowlist from (AllowedSenders (e_cfg e)) \<and> m_to m \<noteq> [] \<and>
         (if AllowedRecipients (e_cfg e) = []
          then int (length (m_to m)) \<le> EffectiveMaxRecipients (e_cfg e)
          else (\<forall>r \<in> set (m_to m). matchesAllowlist r (AllowedRecipients (e_cfg e))))"
proof -
  have "sessionInv e (serve e client)" by (rule inv_serve [OF Validate_usersNamed [OF assms(1)]])
  then have "eventOk e (HandedOver m from tls u cert)" using assms(2) unfolding sessionInv_def by blast
  then show ?thesis
    using EffectiveMaxRecipients_bound [of "e_cfg e"] by (auto simp: recipientsOk_def userKnown_def)
qed

theorem smtp_is_no_open_relay_witness:
  "matchesAllowlist ''a@b'' (AllowedSenders sampleListener) \<and> int (length [''c@d'']) \<le> EffectiveMaxRecipients sampleListener"
proof -
  have "listener_Validate (e_cfg sampleSmtp) = None" by code_simp
  from smtp_is_no_open_relay [OF this sampleSession] show ?thesis
    by (simp add: sampleSmtp_def sampleListener_def)
qed

text \<open>
  The allow-list language. An address matches when the list has a star, the address itself,
  or a wildcard for exactly the part after its first at sign.
\<close>
lemma matchesAllowlist_iff:
  "matchesAllowlist addr allowlist \<longleftrightarrow>
     ''*'' \<in> set allowlist \<or> addr \<in> set allowlist \<or>
     (\<exists>local domain. addr = local @ CHR ''@'' # domain \<and> CHR ''@'' \<notin> set local \<and> ''*@'' @ domain \<in> set allowlist)"
proof (induction allowlist)
  case Nil
  then show ?case by simp
next
  case (Cons entry allowlist)
  have "(hasPrefix entry ''*@'' \<and>
         (case indexByte addr CHR ''@'' of None \<Rightarrow> False | Some at \<Rightarrow> drop (Suc at) addr = drop 2 entry)) \<longleftrightarrow>
        (\<exists>local domain. addr = local @ CHR ''@'' # domain \<and> CHR ''@'' \<notin> set local \<and> ''*@'' @ domain = entry)"
    (is "?L \<longleftrightarrow> ?R")
  proof
    assume ?L
    then obtain i t where i: "indexByte addr CHR ''@'' = Some i" "drop (Suc i) addr = drop 2 entry"
      and t: "entry = ''*@'' @ t"
      by (auto simp: hasPrefix_iff split: option.splits)
    note split = indexByte_Some [OF i(1)]
    then have "addr = take i addr @ CHR ''@'' # drop (Suc i) addr" by (metis id_take_nth_drop)
    with split i(2) t show ?R by (intro exI [of _ "take i addr"] exI [of _ t]) simp
  next
    assume ?R
    then obtain local domain where "addr = local @ CHR ''@'' # domain" "CHR ''@'' \<notin> set local" "entry = ''*@'' @ domain"
      by auto
    then show ?L using indexByte_split [of "CHR ''@''" local domain] by simp
  qed
  with Cons show ?case by auto
qed

text \<open>
  Message text survives the wire. Lines stuffed the way RFC 5321 tells a client to are read
  back as they were, the terminating dot is found, and the next command is the line after it.
\<close>
lemma dotText_unstuffs:
  "dotText (map (\<lambda>l. if hasPrefix l ''.'' then CHR ''.'' # l else l) lines @ ''.'' # rest) =
     (concat (map (\<lambda>l. l @ [CHR 0x0A]) lines), True, rest)"
proof (induction lines)
  case (Cons l lines)
  then show ?case by (cases l) auto
qed simp

text \<open>The loop stops when every line has been read or at QUIT.\<close>

lemma run_ends: "input (run e s) = [] \<or> SessionClosed \<in> set (trace (run e s))"
proof (induction e s rule: run.induct)
  case (1 e s)
  obtain l s1 where rl: "readLine s = (l, s1)" by fastforce
  show ?case
  proof (cases l)
    case None
    with rl show ?thesis by (auto simp: run.simps readLine_def split: list.splits)
  next
    case (Some line)
    obtain go s2 where c: "command e line s1 = (go, s2)" by fastforce
    have "\<not> go \<Longrightarrow> SessionClosed \<in> set (trace s2)"
      using c by (auto simp: command_def Let_def split: prod.splits if_splits)
    with rl Some c show ?thesis
      using "1.IH" [OF rl [symmetric] Some c [symmetric]] by (subst (1 2) run.simps) auto
  qed
qed

lemma session_ends:
  assumes "e_writes e \<noteq> Some 0"
  shows "input (serve e client) = [] \<or> SessionClosed \<in> set (trace (serve e client))"
proof -
  have "fst (writeReply e 220 ''posthorn ready'' (newSession client))"
    using assms by (auto simp: writeReply_def writeLine_def newSession_def split: option.splits)
  with run_ends show ?thesis by (auto simp: serve_def split: prod.splits)
qed

lemma handleDATA_capped:
  assumes "0 < e_maxBody e" and "e_maxBody e < 2 ^ 63 - 1" and "transaction s" and "rcptTo s \<noteq> []"
    and "e_writes e = None" and "dotText (input s) = (body, True, rest)"
  shows "(let s' = (reply e 354 ''End data with <CR><LF>.<CR><LF>'' s)\<lparr>input := rest\<rparr> in
    handleDATA e s =
      (if e_maxBody e < int (length body) then resetTransaction (reply e 552 ''5.3.4 Message too big'' s')
       else
         (case parseMIMEToMessage (e_mime e) body (mailFrom s) (rcptTo s) of
            Inl err \<Rightarrow> resetTransaction (reply e 550 (''5.6.0 Malformed message: '' @ err) s')
          | Inr msg \<Rightarrow> handOver e msg (int (length body)) s')))"
proof -
  have w: "wrap64 (e_maxBody e + 1) = e_maxBody e + 1" using assms(1,2) by (intro wrap64_id) auto
  have ok: "fst (writeReply e code t s)" for code t using assms(5) by (simp add: writeReply_def writeLine_def)
  show ?thesis
  proof (cases "e_maxBody e < int (length body)")
    case True
    then have "int (length (take (nat (e_maxBody e + 1)) body)) = e_maxBody e + 1" using assms(1) by simp
    with True assms w ok show ?thesis by (simp add: handleDATA_def Let_def case_prod_unfold)
  next
    case False
    then have "take (nat (e_maxBody e + 1)) body = body" by simp
    with False assms w ok show ?thesis by (simp add: handleDATA_def Let_def case_prod_unfold split: sum.split)
  qed
qed

text \<open>
  C25: The size cap. Where a positive cap is configured, a message reported as sent is no larger
  than the cap; and after a DATA whose text came in full, a text above the cap is answered with a
  552 and handed to nobody, while any other is given to the MIME parser whole. Either way the
  session goes on behind the text.
\<close>
theorem smtp_size_cap:
  assumes "listener_Validate (e_cfg e) = None" and "0 < e_maxBody e" and "e_maxBody e < 2 ^ 63 - 1"
  shows "(SubmissionSent sid mid n \<in> set (trace (serve e client)) \<longrightarrow> n \<le> e_maxBody e) \<and>
    (transaction s \<and> rcptTo s \<noteq> [] \<and> e_writes e = None \<and> dotText (input s) = (body, True, rest) \<longrightarrow>
      (let s' = (reply e 354 ''End data with <CR><LF>.<CR><LF>'' s)\<lparr>input := rest\<rparr> in
       handleDATA e s =
         (if e_maxBody e < int (length body) then resetTransaction (reply e 552 ''5.3.4 Message too big'' s')
          else
            (case parseMIMEToMessage (e_mime e) body (mailFrom s) (rcptTo s) of
               Inl err \<Rightarrow> resetTransaction (reply e 550 (''5.6.0 Malformed message: '' @ err) s')
             | Inr msg \<Rightarrow> handOver e msg (int (length body)) s'))))"
proof (intro conjI impI)
  assume sent: "SubmissionSent sid mid n \<in> set (trace (serve e client))"
  have "sessionInv e (serve e client)" by (rule inv_serve [OF Validate_usersNamed [OF assms(1)]])
  then have "eventOk e (SubmissionSent sid mid n)" using sent unfolding sessionInv_def by blast
  with assms(2) show "n \<le> e_maxBody e" by simp
next
  assume "transaction s \<and> rcptTo s \<noteq> [] \<and> e_writes e = None \<and> dotText (input s) = (body, True, rest)"
  then show "let s' = (reply e 354 ''End data with <CR><LF>.<CR><LF>'' s)\<lparr>input := rest\<rparr> in
       handleDATA e s =
         (if e_maxBody e < int (length body) then resetTransaction (reply e 552 ''5.3.4 Message too big'' s')
          else
            (case parseMIMEToMessage (e_mime e) body (mailFrom s) (rcptTo s) of
               Inl err \<Rightarrow> resetTransaction (reply e 550 (''5.6.0 Malformed message: '' @ err) s')
             | Inr msg \<Rightarrow> handOver e msg (int (length body)) s'))"
    using handleDATA_capped [of e s body rest] assms(2,3) by (simp add: Let_def)
qed

text \<open>A cap of three bytes, and a session with a recipient whose client sends a text.\<close>

definition tightSmtp :: smtp_env where
  "tightSmtp = sampleSmtp\<lparr>e_maxBody := 3\<rparr>"

definition addressed :: "string list \<Rightarrow> session" where
  "addressed client = (newSession client)\<lparr>mailFrom := ''a@b'', rcptTo := [''c@d''], transaction := True\<rparr>"

lemma tight_sent: "SubmissionSent ''uuid'' ''id'' 3 \<in> set (trace (serve tightSmtp sampleClient))"
  by code_simp

theorem smtp_size_cap_witness:
  "SubmissionSent ''uuid'' ''id'' 3 \<in> set (trace (serve tightSmtp sampleClient)) \<and> 3 \<le> e_maxBody tightSmtp \<and>
   (let s = handleDATA tightSmtp (addressed [''hey'', ''.'', ''QUIT'']) in
      last (out s) = ''552 5.3.4 Message too big'' \<and> trace s = [] \<and> rcptTo s = [] \<and> input s = [''QUIT'']) \<and>
   (let s = handleDATA tightSmtp (addressed [''hi'', ''.'', ''QUIT'']) in
      SubmissionSent ''uuid'' ''id'' 3 \<in> set (trace s) \<and> input s = [''QUIT''])"
proof -
  have v: "listener_Validate (e_cfg tightSmtp) = None" by code_simp
  have p: "0 < e_maxBody tightSmtp" "e_maxBody tightSmtp < 2 ^ 63 - 1" by (simp_all add: tightSmtp_def)
  note cap = smtp_size_cap [OF v p]
  have "(3::int) \<le> e_maxBody tightSmtp" using cap [of "''uuid''" "''id''" 3 sampleClient] tight_sent by blast
  moreover have ready: "transaction (addressed ls)" "rcptTo (addressed ls) = [''c@d'']" "mailFrom (addressed ls) = ''a@b''"
    "input (addressed ls) = ls" "e_writes tightSmtp = None" "e_maxBody tightSmtp = 3"
    for ls by (simp_all add: addressed_def newSession_def tightSmtp_def sampleSmtp_def)
  have big: "handleDATA tightSmtp (addressed [''hey'', ''.'', ''QUIT'']) =
      resetTransaction (reply tightSmtp 552 ''5.3.4 Message too big''
        ((reply tightSmtp 354 ''End data with <CR><LF>.<CR><LF>'' (addressed [''hey'', ''.'', ''QUIT'']))\<lparr>input := [''QUIT'']\<rparr>))"
    using cap [where s = "addressed [''hey'', ''.'', ''QUIT'']" and body = "''hey'' @ [CHR 0x0A]" and rest = "[''QUIT'']"]
    by (simp add: ready Let_def)
  have small: "handleDATA tightSmtp (addressed [''hi'', ''.'', ''QUIT'']) =
      (case parseMIMEToMessage (e_mime tightSmtp) (''hi'' @ [CHR 0x0A]) ''a@b'' [''c@d''] of
         Inl err \<Rightarrow> resetTransaction (reply tightSmtp 550 (''5.6.0 Malformed message: '' @ err)
           ((reply tightSmtp 354 ''End data with <CR><LF>.<CR><LF>'' (addressed [''hi'', ''.'', ''QUIT'']))\<lparr>input := [''QUIT'']\<rparr>))
       | Inr msg \<Rightarrow> handOver tightSmtp msg (int (length (''hi'' @ [CHR 0x0A])))
           ((reply tightSmtp 354 ''End data with <CR><LF>.<CR><LF>'' (addressed [''hi'', ''.'', ''QUIT'']))\<lparr>input := [''QUIT'']\<rparr>))"
    using cap [where s = "addressed [''hi'', ''.'', ''QUIT'']" and body = "''hi'' @ [CHR 0x0A]" and rest = "[''QUIT'']"]
    by (simp add: ready Let_def)
  have "last (out (handleDATA tightSmtp (addressed [''hey'', ''.'', ''QUIT'']))) = ''552 5.3.4 Message too big''"
    "trace (handleDATA tightSmtp (addressed [''hey'', ''.'', ''QUIT''])) = []"
    "rcptTo (handleDATA tightSmtp (addressed [''hey'', ''.'', ''QUIT''])) = []"
    "input (handleDATA tightSmtp (addressed [''hey'', ''.'', ''QUIT''])) = [''QUIT'']"
    unfolding big by code_simp+
  moreover have "SubmissionSent ''uuid'' ''id'' 3 \<in> set (trace (handleDATA tightSmtp (addressed [''hi'', ''.'', ''QUIT''])))"
    "input (handleDATA tightSmtp (addressed [''hi'', ''.'', ''QUIT''])) = [''QUIT'']"
    unfolding small by code_simp+
  ultimately show ?thesis using tight_sent by (simp add: Let_def)
qed

text \<open>
  With a cap of 0, which the size parser's documentation gives as no cap, the limited reader
  stops after one byte: the rest of the message is lost without an error.
\<close>

lemma zero_cap_truncates:
  assumes "transaction s" and "rcptTo s \<noteq> []" and "e_maxBody e = 0" and "e_writes e = None"
    and "dotText (input s) = (body, True, rest)"
    and "parseMIMEToMessage (e_mime e) (take 1 body) (mailFrom s) (rcptTo s) = Inr msg"
  shows "\<exists>s'. handleDATA e s = handOver e msg (int (length (take 1 body))) s'"
proof -
  have "wrap64 1 = 1" by (simp add: wrap64_def)
  with assms show ?thesis
    by (auto simp: handleDATA_def writeReply_def writeLine_def Let_def)
qed

end
