(* ===== verification/Lifecycle.thy ===== *)
theory Lifecycle
  imports SmtpSession
begin

text \<open>
  core/ingress and the listener of core/smtp/listener.go: starting and stopping what accepts
  inbound traffic. The network is the argument of each operation: what ListenAndServe, Accept and
  Shutdown return; the sessions themselves are in theory SmtpSession.
\<close>

subsection \<open>The HTTP ingress\<close>

record http_ingress =
  hi_started :: bool
  hi_stopCalls :: int

definition NewHTTPIngress :: http_ingress where
  "NewHTTPIngress = \<lparr>hi_started = False, hi_stopCalls = 0\<rparr>"

text \<open>How ListenAndServe ends.\<close>

datatype serve_end = ErrServerClosed | ServeError string

definition http_Start :: "serve_end \<Rightarrow> http_ingress \<Rightarrow> string option \<times> http_ingress" where
  "http_Start ended h =
     ((case ended of ErrServerClosed \<Rightarrow> None | ServeError err \<Rightarrow> Some err), h\<lparr>hi_started := True\<rparr>)"

text \<open>The error of Stop, whether it called Shutdown, and the state; \<open>shutdown\<close> is what Shutdown returns.\<close>

definition http_Stop :: "string option \<Rightarrow> http_ingress \<Rightarrow> (string option \<times> bool) \<times> http_ingress" where
  "http_Stop shutdown h =
     (let h1 = h\<lparr>hi_stopCalls := hi_stopCalls h + 1\<rparr>; first = (hi_stopCalls h1 = 1) in
      if \<not> first then ((None, False), h1) else ((shutdown, True), h1))"

definition http_Name :: string where
  "http_Name = ''http''"

subsection \<open>The SMTP listener\<close>

definition listener_Name :: string where
  "listener_Name = ''smtp''"

record smtp_listener =
  ls_cfg :: listener_config
  ls_maxBody :: int
  ls_tls :: "tls_config option"
  ls_listener :: "bool option"   \<comment> \<open>None: none yet; else whether it is open\<close>
  ls_stopped :: bool             \<comment> \<open>the channel is closed\<close>

definition listener_New :: "tls_files \<Rightarrow> listener_config \<Rightarrow> int \<Rightarrow> tls_error + smtp_listener" where
  "listener_New files cfg maxBody =
     (case buildTLSConfig files cfg of
        Inl err \<Rightarrow> Inl err
      | Inr tls \<Rightarrow> Inr \<lparr>ls_cfg = cfg, ls_maxBody = maxBody, ls_tls = tls, ls_listener = None, ls_stopped = False\<rparr>)"

text \<open>
  What Accept returns, in order, each with whether Stop was called by then; the loop returns
  its error (None: a graceful end) and the number of sessions started, or None while it runs on.
\<close>

datatype accepted = Accepted | AcceptClosed | AcceptFailed string

fun acceptLoop :: "(accepted \<times> bool) list \<Rightarrow> string option option \<times> nat" where
  "acceptLoop [] = (None, 0)"
| "acceptLoop ((Accepted, _) # rest) = (let (out, n) = acceptLoop rest in (out, Suc n))"
| "acceptLoop ((AcceptClosed, _) # rest) = (Some None, 0)"
| "acceptLoop ((AcceptFailed err, stopped) # rest) =
     (Some (if stopped then None else Some (''smtp accept: '' @ err)), 0)"

definition listener_Start ::
  "string option \<Rightarrow> (accepted \<times> bool) list \<Rightarrow> smtp_listener \<Rightarrow> (string option option \<times> nat) \<times> smtp_listener" where
  "listener_Start bindError accepts l =
     (case bindError of
        Some err \<Rightarrow> ((Some (Some (''smtp listen: '' @ err)), 0), l)
      | None \<Rightarrow> (acceptLoop accepts, l\<lparr>ls_listener := Some True\<rparr>))"

text \<open>Stop panics on a channel that is closed already; \<open>drained\<close>: the sessions end before the deadline.\<close>

datatype stop_result = Stopped | DeadlineExceeded | CloseOfClosedChannel

definition listener_Stop :: "bool \<Rightarrow> smtp_listener \<Rightarrow> stop_result \<times> smtp_listener" where
  "listener_Stop drained l =
     (let l1 = l\<lparr>ls_listener := map_option (\<lambda>_. False) (ls_listener l)\<rparr> in
      if ls_stopped l1 then (CloseOfClosedChannel, l1)
      else (if drained then Stopped else DeadlineExceeded, l1\<lparr>ls_stopped := True\<rparr>))"

text \<open>One accepted connection: the session it ran, and whether the connection is closed then.\<close>

definition handleConnection :: "smtp_env \<Rightarrow> string list \<Rightarrow> session \<times> bool" where
  "handleConnection e client = (serve e client, True)"

definition idleDeadline :: "listener_config \<Rightarrow> time \<Rightarrow> time" where
  "idleDeadline cfg now = now + EffectiveIdleTimeout cfg"

text \<open>With a validated configuration a read always has time left.\<close>

lemma idleDeadline_later: "listener_Validate cfg = None \<Longrightarrow> now < idleDeadline cfg now"
  by (auto simp: listener_Validate_def idleDeadline_def EffectiveIdleTimeout_def Let_def split: if_splits option.splits)

subsection \<open>The contract of Stop\<close>

text \<open>
  The Ingress interface asks that Stop be idempotent: once one has run, another does nothing.
  The HTTP ingress keeps this; the second Stop of the SMTP listener panics.
\<close>

locale idempotent_stop =
  fixes stop :: "'d \<Rightarrow> 's \<Rightarrow> 'r \<times> 's"
    and quiet :: 'r
    and fresh :: "'s \<Rightarrow> bool"
    and over :: "'s \<Rightarrow> bool"
  assumes first: "fresh s \<Longrightarrow> over (snd (stop d s))"
    and again: "over s \<Longrightarrow> fst (stop d s) = quiet \<and> over (snd (stop d s))"
begin

fun stops :: "'d list \<Rightarrow> 's \<Rightarrow> 'r list" where
  "stops [] s = []"
| "stops (d # ds) s = fst (stop d s) # stops ds (snd (stop d s))"

lemma over_stops: "over s \<Longrightarrow> stops ds s = map (\<lambda>_. quiet) ds"
  by (induction ds arbitrary: s) (auto simp: again)

lemma stops_once: "fresh s \<Longrightarrow> stops (d # ds) s = fst (stop d s) # map (\<lambda>_. quiet) ds"
  by (simp add: first over_stops)

end

interpretation http: idempotent_stop http_Stop "(None, False)" "\<lambda>h. hi_stopCalls h = 0" "\<lambda>h. 0 < hi_stopCalls h"
  by unfold_locales (auto simp: http_Stop_def Let_def)

text \<open>
  Stopping twice. Of any number of Stops of the HTTP ingress the first shuts the server down
  and reports its error, and the others do nothing and report none. A second Stop of the SMTP
  listener panics, whether or not the sessions of the first were drained: it closes a channel
  that is closed.
\<close>

lemma Stop_twice:
  "http.stops (d # ds) NewHTTPIngress = (d, True) # map (\<lambda>_. (None, False)) ds \<and>
   fst (listener_Stop drained' (snd (listener_Stop drained l))) = CloseOfClosedChannel"
  using http.stops_once [of NewHTTPIngress d ds]
  by (simp add: NewHTTPIngress_def http_Stop_def listener_Stop_def Let_def)

text \<open>A Stop makes the accept loop end without an error, whatever Accept reports.\<close>

lemma acceptLoop_stopped:
  "list_all snd accepts \<Longrightarrow> fst (acceptLoop accepts) \<in> {None, Some None}"
  by (induction accepts rule: acceptLoop.induct) (auto simp: Let_def split: prod.split)

end
