(* ===== verification/Posthorn.thy ===== *)
theory Posthorn
  imports Lifecycle Config GatewayProps Logging
begin

text \<open>
  core/cmd/posthorn/main.go: how the binary is put together from a configuration. The command line is
  in theory Command; which signals arrive and the router of net/http are arguments, the latter with its
  documented behaviour (locale \<open>servemux\<close>).
\<close>

subsection \<open>The router of net/http\<close>

text \<open>
  \<open>mux_valid\<close>: Handle accepts the pattern; \<open>mux_conflict\<close>: it panics on the second of two
  patterns; \<open>mux_match\<close>: the registered pattern that serves a path, if any.
\<close>

record mux_lib =
  mux_valid :: "string \<Rightarrow> bool"
  mux_conflict :: "string \<Rightarrow> string \<Rightarrow> bool"
  mux_match :: "string list \<Rightarrow> string \<Rightarrow> string option"

text \<open>
  A plain path: absolute, with nothing the pattern syntax gives a meaning (a blank, a brace, a
  percent sign), and clean (no empty segment but the last, no dot segments).
\<close>

fun segments :: "string \<Rightarrow> string list" where
  "segments [] = [[]]"
| "segments (c # cs) =
     (if c = CHR ''/'' then [] # segments cs
      else (case segments cs of [] \<Rightarrow> [[c]] | s # ss \<Rightarrow> (c # s) # ss))"

definition plainPath :: "string \<Rightarrow> bool" where
  "plainPath p \<longleftrightarrow>
     hasPrefix p ''/'' \<and> list_all (\<lambda>c. c \<notin> {CHR '' '', CHR 0x09, CHR ''{'', CHR ''}'', CHR ''%''}) p \<and>
     list_all (\<lambda>s. s \<notin> {[], ''.'', ''..''}) (butlast (tl (segments p))) \<and>
     last (segments p) \<notin> {''.'', ''..''}"

text \<open>A pattern serves its own path, and everything below it if it ends in a slash.\<close>

definition covers :: "string \<Rightarrow> string \<Rightarrow> bool" where
  "covers p path \<longleftrightarrow> path = p \<or> hasSuffix p ''/'' \<and> hasPrefix path p"

locale servemux =
  fixes lib :: mux_lib
  assumes plain_valid: "plainPath p \<Longrightarrow> mux_valid lib p"
    and plain_conflict: "plainPath p \<Longrightarrow> plainPath q \<Longrightarrow> mux_conflict lib p q \<longleftrightarrow> p = q"
    and match_exact: "list_all plainPath ps \<Longrightarrow> path \<in> set ps \<Longrightarrow> mux_match lib ps path = Some path"
    and match_covers: "list_all plainPath ps \<Longrightarrow> mux_match lib ps path = Some p \<Longrightarrow> p \<in> set ps \<and> covers p path"
begin

lemma match_none:
  assumes "list_all plainPath ps" and "\<forall>p \<in> set ps. \<not> covers p path"
  shows "mux_match lib ps path = None"
  using match_covers [OF assms(1), of path] assms(2) by (cases "mux_match lib ps path") auto

end

text \<open>The documented rule on plain patterns: the longest pattern that covers the path.\<close>

definition longest :: "string list \<Rightarrow> string option" where
  "longest ps = (if ps = [] then None else Some (last (sort_key length ps)))"

definition plainMux :: mux_lib where
  "plainMux = \<lparr>mux_valid = (\<lambda>p. True), mux_conflict = (=),
     mux_match = (\<lambda>ps path. if path \<in> set ps then Some path else longest (filter (\<lambda>p. covers p path) ps))\<rparr>"

interpretation plain: servemux plainMux
proof unfold_locales
  fix ps path p
  assume match: "mux_match plainMux ps path = Some p"
  show "p \<in> set ps \<and> covers p path"
  proof (cases "path \<in> set ps")
    case True
    with match show ?thesis by (simp add: plainMux_def covers_def)
  next
    case False
    let ?fs = "filter (\<lambda>p. covers p path) ps"
    from match False have "?fs \<noteq> []" "p = last (sort_key length ?fs)"
      by (auto simp: plainMux_def longest_def split: if_splits)
    then have "p \<in> set (sort_key length ?fs)" by (metis last_in_set length_0_conv length_sort)
    then show ?thesis by simp
  qed
qed (simp_all add: plainMux_def)

definition mux_Handle :: "mux_lib \<Rightarrow> string \<Rightarrow> 'h \<Rightarrow> (string \<times> 'h) list \<Rightarrow> string + (string \<times> 'h) list" where
  "mux_Handle lib p h m =
     (if \<not> mux_valid lib p \<or> list_ex (\<lambda>q. mux_conflict lib p q) (map fst m) then Inl p else Inr (m @ [(p, h)]))"

definition mux_route :: "mux_lib \<Rightarrow> (string \<times> 'h) list \<Rightarrow> string \<Rightarrow> 'h option" where
  "mux_route lib m path = Option.bind (mux_match lib (map fst m) path) (map_of m)"

subsection \<open>Building the router\<close>

datatype build_error = UnknownTransport string "string list" | SettingsRejected settings_error

definition buildTransport :: "transport_config \<Rightarrow> build_error + any_transport" where
  "buildTransport cfg =
     (case Lookup (tc_Type cfg) builtinRegistry of
        None \<Rightarrow> (case UnknownTypeError (tc_Type cfg) builtinRegistry of (ty, known) \<Rightarrow> Inl (UnknownTransport ty known))
      | Some reg \<Rightarrow> map_sum SettingsRejected id (the (reg_Build reg) (tc_Settings cfg)))"

datatype ('l, 'c) route =
    Endpoint "any_transport handler" "('l, 'c) handler_state"
  | Healthz
  | MetricsPage

datatype start_error =
    TransportFailed nat string build_error
  | EndpointFailed nat string new_error
  | MuxPanic string

fun registerEndpoints ::
  "engine \<Rightarrow> gostd \<Rightarrow> ('l, string, nat) lru_ops \<Rightarrow> ('c, string, idem_entry) lru_ops \<Rightarrow> mux_lib \<Rightarrow>
   nat \<Rightarrow> endpoint_config list \<Rightarrow> (string \<times> ('l, 'c) route) list \<Rightarrow> start_error + (string \<times> ('l, 'c) route) list" where
  "registerEndpoints e g lops cops lib i [] m = Inr m"
| "registerEndpoints e g lops cops lib i (ep # eps) m =
     (case buildTransport (ep_Transport ep) of
        Inl err \<Rightarrow> Inl (TransportFailed i (ep_Path ep) err)
      | Inr t \<Rightarrow>
          (case gateway_New e g lops cops ep (Some t) True of
             Inl err \<Rightarrow> Inl (EndpointFailed i (ep_Path ep) err)
           | Inr (h, s) \<Rightarrow>
               (case mux_Handle lib (ep_Path ep) (Endpoint h s) m of
                  Inl p \<Rightarrow> Inl (MuxPanic p)
                | Inr m1 \<Rightarrow> registerEndpoints e g lops cops lib (Suc i) eps m1)))"

definition buildMux ::
  "engine \<Rightarrow> gostd \<Rightarrow> ('l, string, nat) lru_ops \<Rightarrow> ('c, string, idem_entry) lru_ops \<Rightarrow> mux_lib \<Rightarrow> config \<Rightarrow>
   start_error + (string \<times> ('l, 'c) route) list" where
  "buildMux e g lops cops lib cfg =
     (case registerEndpoints e g lops cops lib 0 (cf_Endpoints cfg) [] of
        Inl err \<Rightarrow> Inl err
      | Inr m \<Rightarrow>
          (case mux_Handle lib ''/healthz'' Healthz m of
             Inl p \<Rightarrow> Inl (MuxPanic p)
           | Inr m1 \<Rightarrow> map_sum MuxPanic id (mux_Handle lib ''/metrics'' MetricsPage m1)))"

subsection \<open>The validate command\<close>

datatype run_error = LoadFailed load_error | StartFailed start_error

text \<open>\<open>gateway_New\<close> without a recorder; the handlers it builds are dropped.\<close>

fun validateEndpoints ::
  "engine \<Rightarrow> gostd \<Rightarrow> ('l, string, nat) lru_ops \<Rightarrow> ('c, string, idem_entry) lru_ops \<Rightarrow>
   nat \<Rightarrow> endpoint_config list \<Rightarrow> start_error option" where
  "validateEndpoints e g lops cops i [] = None"
| "validateEndpoints e g lops cops i (ep # eps) =
     (case buildTransport (ep_Transport ep) of
        Inl err \<Rightarrow> Some (TransportFailed i (ep_Path ep) err)
      | Inr t \<Rightarrow>
          (case gateway_New e g lops cops ep (Some t) False of
             Inl err \<Rightarrow> Some (EndpointFailed i (ep_Path ep) err)
           | Inr _ \<Rightarrow> validateEndpoints e g lops cops (Suc i) eps))"

definition runValidate ::
  "engine \<Rightarrow> gostd \<Rightarrow> ('l, string, nat) lru_ops \<Rightarrow> ('c, string, idem_entry) lru_ops \<Rightarrow> load_error + config \<Rightarrow>
   run_error + nat" where
  "runValidate e g lops cops loaded =
     (case loaded of
        Inl err \<Rightarrow> Inl (LoadFailed err)
      | Inr cfg \<Rightarrow>
          (case validateEndpoints e g lops cops 0 (cf_Endpoints cfg) of
             Some err \<Rightarrow> Inl (StartFailed err)
           | None \<Rightarrow> Inr (length (cf_Endpoints cfg))))"

subsection \<open>The SMTP ingress\<close>

datatype smtp_build_error =
    SMTPTransport build_error
  | SMTPMaxMessageSize size_error
  | SMTPConfig listener_error
  | SMTPTLS tls_error

definition listenerConfig :: "smtp_listener_config \<Rightarrow> string \<Rightarrow> listener_config" where
  "listenerConfig c rawSize =
     \<lparr>Listen = sl_Listen c, RequireTLS = EffectiveRequireTLS c, TLSCert = sl_TLSCert c, TLSKey = sl_TLSKey c,
      ClientCertCA = sl_ClientCertCA c, AuthRequired = sl_AuthRequired c, SMTPUsers = sl_SMTPUsers c,
      AllowedSenders = sl_AllowedSenders c, AllowedRecipients = sl_AllowedRecipients c,
      MaxRecipientsPerSession = sl_MaxRecipientsPerSession c, MaxMessageSize = rawSize,
      IdleTimeout = sl_IdleTimeout c, TransportType = tc_Type (sl_Transport c)\<rparr>"

definition buildSMTPIngress ::
  "gostd \<Rightarrow> tls_files \<Rightarrow> smtp_listener_config \<Rightarrow> smtp_build_error + smtp_listener \<times> any_transport" where
  "buildSMTPIngress g files c =
     (case buildTransport (sl_Transport c) of
        Inl err \<Rightarrow> Inl (SMTPTransport err)
      | Inr tp \<Rightarrow>
          (let rawSize = (if sl_MaxMessageSize c = [] then ''1MB'' else sl_MaxMessageSize c) in
           case ParseSize g rawSize of
             Inl err \<Rightarrow> Inl (SMTPMaxMessageSize err)
           | Inr maxBody \<Rightarrow>
               (case listener_Validate (listenerConfig c rawSize) of
                  Some err \<Rightarrow> Inl (SMTPConfig err)
                | None \<Rightarrow>
                    (case listener_New files (listenerConfig c rawSize) maxBody of
                       Inl err \<Rightarrow> Inl (SMTPTLS err)
                     | Inr l \<Rightarrow> Inr (l, tp)))))"

subsection \<open>Serving until a signal\<close>

text \<open>
  What the select sees first: an ingress that returned, with its error, or a signal. Then every
  ingress is stopped in order, \<open>stop\<close> being what its Stop returns. A signal that comes while they
  drain, after \<open>again\<close> of them are stopped, ends the process with status 1. The result is how
  the run ended, with its error, and the ingresses stopped.
\<close>

datatype woken = IngressReturned string "string option" | Signalled

datatype run_end = RunReturned "string option" | ForcedExit

fun stopAll :: "(string \<Rightarrow> string option) \<Rightarrow> string list \<Rightarrow> string option \<Rightarrow> string option" where
  "stopAll stop [] firstErr = firstErr"
| "stopAll stop (name # names) firstErr =
     stopAll stop names
       (case stop name of
          Some err \<Rightarrow> if firstErr = None then Some (name @ '' ingress graceful shutdown: '' @ err) else firstErr
        | None \<Rightarrow> firstErr)"

definition runIngressesUntilSignal ::
  "(string \<Rightarrow> string option) \<Rightarrow> nat option \<Rightarrow> string list \<Rightarrow> woken \<Rightarrow> run_end \<times> string list" where
  "runIngressesUntilSignal stop again ingresses w =
     (case w of
        IngressReturned name (Some err) \<Rightarrow> (RunReturned (Some (name @ '' ingress: '' @ err)), [])
      | _ \<Rightarrow>
          (case again of
             Some k \<Rightarrow> (ForcedExit, take k ingresses)
           | None \<Rightarrow> (RunReturned (stopAll stop ingresses None), ingresses)))"

datatype serve_error = ServeLoad load_error | ServeMux start_error | ServeSMTP smtp_build_error | ServeRun string

text \<open>The ingresses of a serve command: HTTP with its router, and SMTP where it is configured.\<close>

definition buildIngresses ::
  "engine \<Rightarrow> gostd \<Rightarrow> ('l, string, nat) lru_ops \<Rightarrow> ('c, string, idem_entry) lru_ops \<Rightarrow> mux_lib \<Rightarrow> tls_files \<Rightarrow>
   load_error + config \<Rightarrow>
   serve_error + (string \<times> ('l, 'c) route) list \<times> (smtp_listener \<times> any_transport) option" where
  "buildIngresses e g lops cops lib files loaded =
     (case loaded of
        Inl err \<Rightarrow> Inl (ServeLoad err)
      | Inr cfg \<Rightarrow>
          (case buildMux e g lops cops lib cfg of
             Inl err \<Rightarrow> Inl (ServeMux err)
           | Inr m \<Rightarrow>
               (case cf_SMTPListener cfg of
                  None \<Rightarrow> Inr (m, None)
                | Some c \<Rightarrow>
                    (case buildSMTPIngress g files c of
                       Inl err \<Rightarrow> Inl (ServeSMTP err)
                     | Inr l \<Rightarrow> Inr (m, Some l)))))"

datatype serve_outcome = ServeReturned "serve_error option" | ServeForcedExit

definition runServe ::
  "engine \<Rightarrow> gostd \<Rightarrow> ('l, string, nat) lru_ops \<Rightarrow> ('c, string, idem_entry) lru_ops \<Rightarrow> mux_lib \<Rightarrow> tls_files \<Rightarrow>
   (string \<Rightarrow> string option) \<Rightarrow> nat option \<Rightarrow> woken \<Rightarrow> load_error + config \<Rightarrow> serve_outcome" where
  "runServe e g lops cops lib files stop again w loaded =
     (case buildIngresses e g lops cops lib files loaded of
        Inl err \<Rightarrow> ServeReturned (Some err)
      | Inr (m, smtp) \<Rightarrow>
          (case fst (runIngressesUntilSignal stop again (''http'' # (case smtp of None \<Rightarrow> [] | Some _ \<Rightarrow> [''smtp''])) w) of
             RunReturned err \<Rightarrow> ServeReturned (map_option ServeRun err)
           | ForcedExit \<Rightarrow> ServeForcedExit))"

definition buildLogger :: "logging_config \<Rightarrow> level" where
  "buildLogger cfg =
     (if lg_Level cfg = ''debug'' then LevelDebug
      else if lg_Level cfg = ''warn'' then LevelWarn
      else if lg_Level cfg = ''error'' then LevelError
      else LevelInfo)"

subsection \<open>Lemmas\<close>

lemma gateway_New_recorder:
  "gateway_New e g lops cops cfg t False = Inr (h, s) \<Longrightarrow>
   gateway_New e g lops cops cfg t True = Inr (h\<lparr>h_recorder := True\<rparr>, s)"
  by (auto simp: gateway_New_def split: option.splits sum.splits)

text \<open>The command has its own copy of the level parsing; the two agree.\<close>

lemma handlers_log_and_count: "applyOptions [WithLogger (Some l), WithRecorder True] = (l, True)"
  by (simp add: applyOptions_def)

lemma buildLogger_parseLevel: "buildLogger cfg = parseLevel (lg_Level cfg)"
  by (simp add: buildLogger_def parseLevel_def)

text \<open>A route is an endpoint's own handler and state, with a transport built by the registration of its type.\<close>

lemma buildTransport_registered:
  "buildTransport cfg = Inr t \<longleftrightarrow> (\<exists>reg build. find (\<lambda>reg. reg_Type reg = tc_Type cfg) builtins = Some reg \<and>
     reg_Build reg = Some build \<and> build (tc_Settings cfg) = Inr t)"
proof -
  have sum: "map_sum SettingsRejected id x = Inr t \<longleftrightarrow> x = Inr t" for x :: "settings_error + any_transport"
    by (cases x) auto
  have "reg_Build reg \<noteq> None" if "find (\<lambda>reg. reg_Type reg = tc_Type cfg) builtins = Some reg" for reg
    using that by (auto simp: builtins_def registration_defs split: if_splits)
  then show ?thesis
    by (auto simp: buildTransport_def Lookup_builtin sum split: option.splits prod.splits)
qed

definition serves ::
  "engine \<Rightarrow> gostd \<Rightarrow> ('l, string, nat) lru_ops \<Rightarrow> ('c, string, idem_entry) lru_ops \<Rightarrow> endpoint_config \<Rightarrow>
   ('l, 'c) route \<Rightarrow> bool" where
  "serves e g lops cops ep r \<longleftrightarrow>
     (\<exists>reg build t h s. find (\<lambda>reg. reg_Type reg = tc_Type (ep_Transport ep)) builtins = Some reg \<and>
        reg_Build reg = Some build \<and> build (tc_Settings (ep_Transport ep)) = Inr t \<and> gateway_New e g lops cops ep (Some t) True = Inr (h, s) \<and>
        r = Endpoint h s)"

lemma stopAll_result:
  "stopAll stop names firstErr =
     (case firstErr of Some err \<Rightarrow> Some err
      | None \<Rightarrow> map_option (\<lambda>n. n @ '' ingress graceful shutdown: '' @ the (stop n)) (find (\<lambda>n. stop n \<noteq> None) names))"
  by (induction names arbitrary: firstErr) (auto split: option.splits)

context servemux
begin

lemma Handle_plain:
  "list_all plainPath (p # map fst m) \<Longrightarrow>
   mux_Handle lib p h m = (if p \<in> set (map fst m) then Inl p else Inr (m @ [(p, h)]))"
  using plain_conflict by (auto simp: mux_Handle_def plain_valid list_ex_iff list_all_iff)

lemma register_plain:
  assumes "validateEndpoints e g lops cops j eps = None"
    and "list_all plainPath (map fst m @ map ep_Path eps)" and "distinct (map fst m @ map ep_Path eps)"
  shows "\<exists>rs. registerEndpoints e g lops cops lib i eps m = Inr (m @ rs) \<and> map fst rs = map ep_Path eps \<and>
    list_all2 (serves e g lops cops) eps (map snd rs)"
  using assms
proof (induction eps arbitrary: i j m)
  case (Cons ep eps)
  from Cons.prems(1) obtain t h s where t: "buildTransport (ep_Transport ep) = Inr t"
    and h: "gateway_New e g lops cops ep (Some t) False = Inr (h, s)"
    and rest: "validateEndpoints e g lops cops (Suc j) eps = None"
    by (auto split: sum.splits prod.splits)
  let ?r = "Endpoint (h\<lparr>h_recorder := True\<rparr>) s"
  have r: "serves e g lops cops ep ?r" using t gateway_New_recorder [OF h] unfolding serves_def buildTransport_registered by blast
  have "mux_Handle lib (ep_Path ep) ?r m = Inr (m @ [(ep_Path ep, ?r)])"
    using Cons.prems(2,3) by (subst Handle_plain) auto
  with Cons.IH [OF rest, of "m @ [(ep_Path ep, ?r)]" "Suc i"] Cons.prems(2,3) t gateway_New_recorder [OF h] r
  show ?case by fastforce
qed simp

lemma route_plain:
  assumes "list_all plainPath (map fst m)" and "distinct (map fst m)" and "(p, r) \<in> set m"
  shows "mux_route lib m p = Some r"
  using match_exact [OF assms(1)] assms by (force simp: mux_route_def intro: map_of_is_SomeI)

lemma route_none:
  assumes "list_all plainPath (map fst m)" and "\<forall>p \<in> set (map fst m). \<not> covers p path"
  shows "mux_route lib m path = None"
  using match_none [OF assms] by (simp add: mux_route_def)

end

subsection \<open>Properties\<close>

lemma fixed_plain: "plainPath ''/healthz''" "plainPath ''/metrics''"
  by (simp_all add: plainPath_def)

lemma fixed_covers: "covers ''/healthz'' path \<longleftrightarrow> path = ''/healthz''" "covers ''/metrics'' path \<longleftrightarrow> path = ''/metrics''"
  by (auto simp: covers_def hasSuffix_def)

lemma runValidate_ok:
  "runValidate e g lops cops (Inr cfg) = Inr n \<longleftrightarrow>
     validateEndpoints e g lops cops 0 (cf_Endpoints cfg) = None \<and> n = length (cf_Endpoints cfg)"
  by (auto simp: runValidate_def split: option.splits)

lemma valid_distinct: "Config_Validate g cfg = None \<Longrightarrow> distinct (map ep_Path (cf_Endpoints cfg))"
  using checkEndpoints_None [of g 0 "{}" "cf_Endpoints cfg"]
  by (auto simp: Config_Validate_def split: if_splits option.splits)

lemma buildMux_routes:
  assumes "servemux lib" and "Config_Validate g cfg = None"
    and "runValidate e g lops cops (Inr cfg) = Inr n"
    and "list_all plainPath (map ep_Path (cf_Endpoints cfg))"
    and "''/healthz'' \<notin> ep_Path ` set (cf_Endpoints cfg)" "''/metrics'' \<notin> ep_Path ` set (cf_Endpoints cfg)"
  shows "\<exists>m. buildMux e g lops cops lib cfg = Inr m \<and>
    list_all (\<lambda>ep. \<exists>r. mux_route lib m (ep_Path ep) = Some r \<and> serves e g lops cops ep r) (cf_Endpoints cfg) \<and>
    mux_route lib m ''/healthz'' = Some Healthz \<and> mux_route lib m ''/metrics'' = Some MetricsPage \<and>
    (\<forall>path. list_all (\<lambda>p. \<not> covers p path) (''/healthz'' # ''/metrics'' # map ep_Path (cf_Endpoints cfg)) \<longrightarrow>
       mux_route lib m path = None)"
proof -
  let ?eps = "cf_Endpoints cfg"
  obtain rs where rs: "registerEndpoints e g lops cops lib 0 ?eps [] = Inr rs" "map fst rs = map ep_Path ?eps"
      "list_all2 (serves e g lops cops) ?eps (map snd rs)"
    using servemux.register_plain [OF assms(1), of e g lops cops 0 ?eps "[]" 0] assms(3,4) valid_distinct [OF assms(2)]
    by (auto simp: runValidate_ok)
  let ?m = "rs @ [(''/healthz'', Healthz), (''/metrics'', MetricsPage)]"
  have plain: "list_all plainPath (map fst ?m)" using assms(4) rs(2) by (simp add: fixed_plain)
  have distinct: "distinct (map fst ?m)"
    using assms(5,6) valid_distinct [OF assms(2)] rs(2) by (simp flip: set_map)
  have "buildMux e g lops cops lib cfg = Inr ?m"
    using rs(1,2) plain assms(5,6) by (simp add: buildMux_def servemux.Handle_plain [OF assms(1)] flip: set_map)
  moreover have "\<exists>r. mux_route lib ?m (ep_Path ep) = Some r \<and> serves e g lops cops ep r" if "ep \<in> set ?eps" for ep
  proof -
    from that obtain k where k: "k < length ?eps" "ep = ?eps ! k" by (auto simp: in_set_conv_nth)
    with rs(2) have len: "k < length rs" by (metis length_map)
    have "fst (rs ! k) = ep_Path ep" using rs(2) k len by (metis nth_map)
    moreover have "rs ! k \<in> set ?m" using len by simp
    ultimately have "mux_route lib ?m (ep_Path ep) = Some (snd (rs ! k))"
      by (metis servemux.route_plain [OF assms(1) plain distinct] prod.collapse)
    with rs(3) k len show ?thesis by (auto simp: list_all2_conv_all_nth)
  qed
  moreover have "mux_route lib ?m ''/healthz'' = Some Healthz" "mux_route lib ?m ''/metrics'' = Some MetricsPage"
    by (rule servemux.route_plain [OF assms(1) plain distinct]; simp)+
  moreover have "mux_route lib ?m path = None"
    if "list_all (\<lambda>p. \<not> covers p path) (''/healthz'' # ''/metrics'' # map ep_Path ?eps)" for path
    using that rs(2) by (intro servemux.route_none [OF assms(1) plain]) (auto simp: list_all_iff simp flip: set_map)
  ultimately show ?thesis by (auto simp: list_all_iff)
qed

text \<open>An endpoint at one of the two fixed paths passes validation, and then Handle panics.\<close>

lemma reserved_path_panics:
  assumes "servemux lib" and "Config_Validate g cfg = None"
    and "runValidate e g lops cops (Inr cfg) = Inr n"
    and "list_all plainPath (map ep_Path (cf_Endpoints cfg))"
  shows "''/healthz'' \<in> ep_Path ` set (cf_Endpoints cfg) \<Longrightarrow>
      buildMux e g lops cops lib cfg = Inl (MuxPanic ''/healthz'')"
    and "''/healthz'' \<notin> ep_Path ` set (cf_Endpoints cfg) \<Longrightarrow> ''/metrics'' \<in> ep_Path ` set (cf_Endpoints cfg) \<Longrightarrow>
      buildMux e g lops cops lib cfg = Inl (MuxPanic ''/metrics'')"
proof -
  obtain rs where rs: "registerEndpoints e g lops cops lib 0 (cf_Endpoints cfg) [] = Inr rs"
      "map fst rs = map ep_Path (cf_Endpoints cfg)"
    using servemux.register_plain [OF assms(1), of e g lops cops 0 "cf_Endpoints cfg" "[]" 0] assms(3,4)
      valid_distinct [OF assms(2)] by (auto simp: runValidate_ok)
  then show "''/healthz'' \<in> ep_Path ` set (cf_Endpoints cfg) \<Longrightarrow>
      buildMux e g lops cops lib cfg = Inl (MuxPanic ''/healthz'')"
    and "''/healthz'' \<notin> ep_Path ` set (cf_Endpoints cfg) \<Longrightarrow> ''/metrics'' \<in> ep_Path ` set (cf_Endpoints cfg) \<Longrightarrow>
      buildMux e g lops cops lib cfg = Inl (MuxPanic ''/metrics'')"
    using assms(4) fixed_plain
    by (simp_all add: buildMux_def servemux.Handle_plain [OF assms(1)] flip: set_map)
qed

text \<open>
  C6: what becomes of a configuration that the validate command accepts and whose endpoint paths are
  plain. If no endpoint takes one of the paths /healthz and /metrics, the router is built; it sends
  the path of every endpoint to that endpoint's own handler, with its own transport, rate limiter
  and idempotency cache, the two fixed paths to the probes, and every path that no endpoint covers
  to none of them. If an endpoint does take one of them, validate does not tell, and building the
  router panics on that path.
\<close>

theorem validated_config_routes:
  assumes "servemux lib" and "Config_Validate g cfg = None"
    and "runValidate e g lops cops (Inr cfg) = Inr n"
    and "list_all plainPath (map ep_Path (cf_Endpoints cfg))"
  shows "if ''/healthz'' \<in> ep_Path ` set (cf_Endpoints cfg) then buildMux e g lops cops lib cfg = Inl (MuxPanic ''/healthz'')
    else if ''/metrics'' \<in> ep_Path ` set (cf_Endpoints cfg) then buildMux e g lops cops lib cfg = Inl (MuxPanic ''/metrics'')
    else \<exists>m. buildMux e g lops cops lib cfg = Inr m \<and>
      list_all (\<lambda>ep. \<exists>r. mux_route lib m (ep_Path ep) = Some r \<and> serves e g lops cops ep r) (cf_Endpoints cfg) \<and>
      mux_route lib m ''/healthz'' = Some Healthz \<and> mux_route lib m ''/metrics'' = Some MetricsPage \<and>
      (\<forall>path. list_all (\<lambda>p. \<not> covers p path) (''/healthz'' # ''/metrics'' # map ep_Path (cf_Endpoints cfg)) \<longrightarrow>
         mux_route lib m path = None)"
proof (cases "''/healthz'' \<in> ep_Path ` set (cf_Endpoints cfg) \<or> ''/metrics'' \<in> ep_Path ` set (cf_Endpoints cfg)")
  case True
  with reserved_path_panics [OF assms] show ?thesis by presburger
next
  case False
  with buildMux_routes [OF assms] show ?thesis by simp
qed

text \<open>
  What the listener of a running program satisfies (the hypotheses of theory SmtpSession), and a
  setting that the validate command lets through although serve refuses it.
\<close>

lemma buildSMTPIngress_valid:
  "buildSMTPIngress g files c = Inr (l, tp) \<Longrightarrow>
   listener_Validate (ls_cfg l) = None \<and> buildTLSConfig files (ls_cfg l) = Inr (ls_tls l) \<and> \<not> ls_stopped l"
  by (auto simp: buildSMTPIngress_def listener_New_def Let_def split: sum.splits option.splits)

lemma unknown_auth_mode_passes: "validListener (c\<lparr>sl_AuthRequired := mode\<rparr>) = validListener c"
  by (simp add: validListener_def)

lemma unknown_auth_mode_fails:
  assumes "sl_AuthRequired c \<notin> {[], AuthSMTP, AuthClientCert, AuthEither}"
  shows "\<exists>err. buildSMTPIngress g files c = Inl err"
proof -
  have "\<exists>err. listener_Validate (listenerConfig c raw) = Some err" for raw
    using assms by (auto simp: listener_Validate_def listenerConfig_def Let_def)
  then show ?thesis unfolding buildSMTPIngress_def Let_def
    by (auto split: sum.splits option.splits) (metis option.distinct(1))+
qed

subsection \<open>Witness\<close>

definition sampleConfig :: config where
  "sampleConfig =
     \<lparr>cf_Endpoints = [sampleEndpoint], cf_Logging = \<lparr>lg_Level = [], lg_Format = []\<rparr>, cf_SMTPListener = None\<rparr>"

lemma sample_transport:
  "buildTransport (ep_Transport sampleEndpoint) = Inr (APostmark (NewPostmarkTransport ''k'' []))"
  by (simp add: buildTransport_def sampleEndpoint_def Lookup_builtin builtins_def registration_defs
      buildPostmarkFromSettings_def strOr_def asString_def)

lemma sampleConfig_valid: "Config_Validate sampleStd sampleConfig = None"
proof -
  have "trimSpace ''s3cret'' = ''s3cret''" by (rule trimSpace_graphic; simp add: graphic_def)
  moreover have "TransportConfig_Validate (ep_Transport sampleEndpoint) = None"
    by (simp add: TransportConfig_Validate_def sampleEndpoint_def Lookup_builtin builtins_def registration_defs
      validatePostmarkSettings_def present_def asString_def)
  ultimately have "validEndpoint sampleStd sampleEndpoint"
    by (simp add: validEndpoint_def validMode_def effectiveAuth_def)
      (simp add: sampleEndpoint_def AuthAPIKey_def sampleStd_def sampleMailParse_def)
  then have "checkEndpoints sampleStd 0 {} [sampleEndpoint] = None" by (simp only: checkEndpoints_None) simp
  then show ?thesis by (simp add: Config_Validate_def sampleConfig_def del: checkEndpoints.simps)
qed

lemma sampleConfig_runValidate: "runValidate sampleEngine sampleStd list_lru list_lru (Inr sampleConfig) = Inr 1"
  using sample_transport by (simp add: runValidate_def sampleConfig_def sample_New)

theorem validated_config_routes_witness:
  "\<exists>m. buildMux sampleEngine sampleStd list_lru list_lru plainMux sampleConfig = Inr m \<and>
     (\<exists>r. mux_route plainMux m ''/api'' = Some r \<and> serves sampleEngine sampleStd list_lru list_lru sampleEndpoint r) \<and>
     mux_route plainMux m ''/metrics'' = Some MetricsPage \<and> mux_route plainMux m ''/other'' = None"
proof -
  have "list_all plainPath (map ep_Path (cf_Endpoints sampleConfig))"
    by (simp add: sampleConfig_def plainPath_def)
  from validated_config_routes [OF plain.servemux_axioms sampleConfig_valid sampleConfig_runValidate this]
  show ?thesis by (auto simp: sampleConfig_def covers_def)
qed

end
