(* ===== verification/SmtpReplies.thy ===== *)
theory SmtpReplies
  imports SmtpSession
begin

text \<open>
  The replies of a session of core/smtp/session.go: every command is answered, in order, with
  well-formed replies (RFC 5321, section 4.2.1), whatever the client sends.
\<close>

subsection \<open>Replies\<close>

text \<open>
  One reply: lines with one code, a hyphen behind it on every line but the last, which has a
  blank. A command is answered by one reply, or by the 334 or 354 that asks for more and then one.
\<close>

fun isReply :: "string list \<Rightarrow> bool" where
  "isReply [] = False"
| "isReply [l] = (3 < length l \<and> list_all (\<lambda>c. CHR ''0'' \<le> c \<and> c \<le> CHR ''9'') (take 3 l) \<and> l ! 3 = CHR '' '')"
| "isReply (l # l' # ls) = (3 < length l \<and> take 3 l = take 3 l' \<and> l ! 3 = CHR ''-'' \<and> isReply (l' # ls))"

definition answered :: "string list \<Rightarrow> bool" where
  "answered ls \<longleftrightarrow>
     isReply ls \<or> (\<exists>l ls'. ls = l # ls' \<and> isReply [l] \<and> take 3 l \<in> {''334'', ''354''} \<and> isReply ls')"

text \<open>The commands a session executes, each with the lines it was answered with.\<close>

inductive dialog :: "smtp_env \<Rightarrow> session \<Rightarrow> (string \<times> string list) list \<Rightarrow> session \<Rightarrow> bool" for e where
  EndOfInput: "readLine s = (None, s1) \<Longrightarrow> dialog e s [] s1"
| LastCommand: "readLine s = (Some line, s1) \<Longrightarrow> command e line s1 = (False, s2) \<Longrightarrow> out s2 = out s1 @ ls \<Longrightarrow>
    dialog e s [(line, ls)] s2"
| Command: "readLine s = (Some line, s1) \<Longrightarrow> command e line s1 = (True, s2) \<Longrightarrow> out s2 = out s1 @ ls \<Longrightarrow>
    dialog e s2 ds s3 \<Longrightarrow> dialog e s ((line, ls) # ds) s3"

subsection \<open>Every command is answered\<close>

definition smtpCodes :: "int set" where
  "smtpCodes = {220, 221, 235, 250, 334, 354, 451, 452, 500, 501, 502, 503, 504, 530, 535, 550, 552}"

lemma smtpCodes_mem [simp]:
  "220 \<in> smtpCodes" "221 \<in> smtpCodes" "235 \<in> smtpCodes" "250 \<in> smtpCodes" "334 \<in> smtpCodes" "354 \<in> smtpCodes"
  "451 \<in> smtpCodes" "452 \<in> smtpCodes" "500 \<in> smtpCodes" "501 \<in> smtpCodes" "502 \<in> smtpCodes" "503 \<in> smtpCodes"
  "504 \<in> smtpCodes" "530 \<in> smtpCodes" "535 \<in> smtpCodes" "550 \<in> smtpCodes" "552 \<in> smtpCodes"
  by (simp_all add: smtpCodes_def)

lemma code_digits:
  assumes "code \<in> smtpCodes"
  shows "length (formatInt code) = 3 \<and> list_all (\<lambda>c. CHR ''0'' \<le> c \<and> c \<le> CHR ''9'') (formatInt code)"
proof -
  have "list_all (\<lambda>code. length (formatInt code) = 3 \<and> list_all (\<lambda>c. CHR ''0'' \<le> c \<and> c \<le> CHR ''9'') (formatInt code))
      [220, 221, 235, 250, 334, 354, 451, 452, 500, 501, 502, 503, 504, 530, 535, 550, 552]"
    by code_simp
  with assms show ?thesis by (auto simp: smtpCodes_def)
qed

lemma isReply_line:
  assumes "code \<in> smtpCodes"
  shows "isReply [formatInt code @ CHR '' '' # msg]"
  using code_digits [OF assms] by (simp add: nth_append)

declare isReply.simps [simp del]

text \<open>A session after which the lines \<open>ls\<close> that were written pass the test P.\<close>

definition wrote :: "(string list \<Rightarrow> bool) \<Rightarrow> session \<Rightarrow> session \<Rightarrow> bool" where
  "wrote P s s' \<longleftrightarrow> (\<exists>ls. out s' = out s @ ls \<and> P ls)"

lemma out_reply: "e_writes e = None \<Longrightarrow> out (reply e code msg s) = out s @ [formatInt code @ '' '' @ msg]"
  by (simp add: writeReply_def writeLine_def)

lemma wrote_reply:
  assumes "e_writes e = None" and "code \<in> smtpCodes"
  shows "wrote isReply s (reply e code msg s)"
  using assms by (simp add: wrote_def out_reply isReply_line)

lemma wrote_out: "out s1 = out s \<Longrightarrow> wrote P s1 s' \<Longrightarrow> wrote P s s'"
  by (simp add: wrote_def)

lemma wrote_fields [simp]:
  "wrote P s (emit ev s') = wrote P s s'" "wrote P s (resetTransaction s') = wrote P s s'"
  "wrote P s (recordSend e ev s') = wrote P s s'"
  by (simp_all add: wrote_def emit_def resetTransaction_def recordSend_def)

lemma wrote_answered: "wrote isReply s s' \<Longrightarrow> wrote answered s s'"
  by (auto simp: wrote_def answered_def)

lemma isReply_lines:
  assumes "code \<in> smtpCodes" and "ls \<noteq> []"
  shows "isReply (map (\<lambda>l. formatInt code @ ''-'' @ l) (butlast ls) @ [formatInt code @ '' '' @ last ls])"
  using assms(2)
proof (induction ls rule: list_nonempty_induct)
  case (single l)
  then show ?case using isReply_line [OF assms(1)] by simp
next
  case (cons l ls)
  have n: "length (formatInt code) = 3" using code_digits [OF assms(1)] by simp
  obtain l' ls' where tail: "map (\<lambda>l. formatInt code @ ''-'' @ l) (butlast ls) @ [formatInt code @ '' '' @ last ls] = l' # ls'"
    and code: "take 3 l' = formatInt code"
    using cons.hyps n by (cases "butlast ls") auto
  with cons n show ?case by (simp add: isReply.simps nth_append)
qed

lemma out_multiline:
  assumes "e_writes e = None" and "ls \<noteq> []"
  shows "out (snd (writeMultilineReply e code ls s)) =
    out s @ map (\<lambda>l. formatInt code @ ''-'' @ l) (butlast ls) @ [formatInt code @ '' '' @ last ls]"
  using assms by (induction e code ls s rule: writeMultilineReply.induct) (auto simp: writeLine_def)

lemma wrote_EHLO:
  assumes "e_writes e = None"
  shows "wrote isReply s (handleEHLO e s)"
proof -
  have "wrote isReply s (snd (writeMultilineReply e 250 ls s))" if "ls \<noteq> []" for ls
    unfolding wrote_def out_multiline [OF assms that] using isReply_lines [OF _ that, of 250] by simp
  then show ?thesis by (simp add: handleEHLO_def Let_def)
qed

lemma fst_writeReply: "e_writes e = None \<Longrightarrow> fst (writeReply e code msg s)"
  by (simp add: writeReply_def writeLine_def)

lemma wrote_same: "out s2 = out s1 \<Longrightarrow> wrote P s s1 \<Longrightarrow> wrote P s s2"
  by (simp add: wrote_def)

lemma wrote_STARTTLS:
  assumes "e_writes e = None"
  shows "wrote isReply s (snd (handleSTARTTLS e s))"
proof (cases "e_tls e = None \<or> tlsActive s")
  case True
  then show ?thesis by (auto simp: handleSTARTTLS_def wrote_reply [OF assms])
next
  case False
  then have "out (snd (handleSTARTTLS e s)) = out (reply e 220 ''2.0.0 Ready to start TLS'' s)"
    by (auto simp: handleSTARTTLS_def case_prod_unfold fst_writeReply [OF assms] Let_def split: handshake.split)
  then show ?thesis by (rule wrote_same) (simp add: wrote_reply [OF assms])
qed

lemma wrote_credentials:
  assumes "e_writes e = None"
  shows "wrote isReply s (checkCredentials e c s)"
proof -
  have "wrote isReply s (reply e code msg (s\<lparr>authedUser := u\<rparr>))" if "code \<in> smtpCodes" for code msg u
    by (rule wrote_out [OF _ wrote_reply [OF assms that]]) simp
  then show ?thesis
    by (simp add: checkCredentials_def wrote_reply [OF assms] split: option.split list.split)
qed

text \<open>A reply that asks for more, and the reply to what came.\<close>

lemma code_334: "take 3 (formatInt 334 @ x) = ''334''" "take 3 (formatInt 354 @ x) = ''354''"
proof -
  have "formatInt 334 = ''334''" "formatInt 354 = ''354''" by code_simp+
  then show "take 3 (formatInt 334 @ x) = ''334''" "take 3 (formatInt 354 @ x) = ''354''" by simp_all
qed

lemma wrote_two:
  assumes "e_writes e = None" and "code \<in> {334, 354}"
    and "out s1 = out (reply e code msg s)" and "wrote isReply s1 s2"
  shows "wrote answered s s2"
proof -
  have c: "code \<in> smtpCodes" using assms(2) by auto
  have "take 3 (formatInt code @ CHR '' '' # msg) \<in> {''334'', ''354''}"
    using assms(2) by (elim insertE emptyE) (simp_all only: code_334 insert_iff simp_thms)
  moreover from assms(3,4) obtain ls where "out s2 = out s @ (formatInt code @ '' '' @ msg) # ls" "isReply ls"
    by (auto simp: wrote_def out_reply [OF assms(1)])
  ultimately show ?thesis
    using isReply_line [OF c, of msg] unfolding wrote_def answered_def by (metis (no_types, lifting) append_Cons append_Nil)
qed

lemma wrote_AUTH:
  assumes "e_writes e = None"
  shows "wrote answered s (handleAUTH e arg s)"
proof -
  let ?r = "reply e 334 [] s"
  have "wrote answered s (case readLine ?r of (None, s1) \<Rightarrow> s1 | (Some line, s1) \<Rightarrow> checkCredentials e line s1)"
  proof (cases "input ?r")
    case Nil
    then show ?thesis by (simp add: readLine_def wrote_answered wrote_reply [OF assms])
  next
    case (Cons l ls)
    have "wrote answered s (checkCredentials e l (?r\<lparr>input := ls\<rparr>))"
      by (rule wrote_two [OF assms, where code = 334 and msg = "[]" and ?s1.0 = "?r\<lparr>input := ls\<rparr>"]) (simp_all add: wrote_credentials [OF assms])
    with Cons show ?thesis by (simp add: readLine_def)
  qed
  then show ?thesis
    by (simp add: handleAUTH_def Let_def wrote_answered wrote_reply [OF assms] wrote_credentials [OF assms])
qed

lemma wrote_handOver:
  assumes "e_writes e = None"
  shows "wrote isReply s (handOver e msg n s)"
proof -
  have "wrote isReply s (reply e code t (emit ev (s\<lparr>sends := k\<rparr>)))" if "code \<in> smtpCodes" for code t ev k
    by (rule wrote_out [OF _ wrote_reply [OF assms that]]) simp
  then show ?thesis by (simp add: handOver_def Let_def split: sum.split)
qed

lemma wrote_DATA:
  assumes "e_writes e = None"
  shows "wrote answered s (handleDATA e s)"
proof (cases "\<not> transaction s \<or> rcptTo s = []")
  case True
  then show ?thesis by (auto simp: handleDATA_def wrote_answered wrote_reply [OF assms])
next
  case False
  let ?r = "reply e 354 ''End data with <CR><LF>.<CR><LF>'' s"
  obtain body fin rest where d: "dotText (input ?r) = (body, fin, rest)" by (metis prod_cases3)
  have "wrote isReply (?r\<lparr>input := rest\<rparr>) (handleDATA e s)"
    using False d
    by (auto simp: handleDATA_def Let_def case_prod_unfold fst_writeReply [OF assms] wrote_reply [OF assms]
        wrote_handOver [OF assms] split: sum.split)
  then show ?thesis
    by (intro wrote_two [OF assms, where code = 354 and msg = "''End data with <CR><LF>.<CR><LF>''"
          and ?s1.0 = "?r\<lparr>input := rest\<rparr>"]) simp_all
qed

lemma command_answered:
  assumes "e_writes e = None"
  shows "wrote answered s (snd (command e line s))"
proof -
  have "wrote isReply s (handleMAIL e arg s)" for arg
  proof -
    have "wrote isReply s (reply e 250 t ((resetTransaction s)\<lparr>mailFrom := a, transaction := True\<rparr>))" for t a
      by (rule wrote_out [OF _ wrote_reply [OF assms]]) simp_all
    then show ?thesis by (simp add: handleMAIL_def Let_def wrote_reply [OF assms])
  qed
  moreover have "wrote isReply s (handleRCPT e arg s)" for arg
  proof -
    have "wrote isReply s (reply e 250 t (s\<lparr>rcptTo := rs\<rparr>))" for t rs
      by (rule wrote_out [OF _ wrote_reply [OF assms]]) simp_all
    then show ?thesis by (simp add: handleRCPT_def Let_def wrote_reply [OF assms])
  qed
  moreover have "wrote isReply s (reply e 250 t (resetTransaction s))" for t
    by (rule wrote_out [OF _ wrote_reply [OF assms]]) simp_all
  ultimately show ?thesis
    by (simp add: command_def Let_def handleHELO_def wrote_reply [OF assms] wrote_EHLO [OF assms]
        wrote_STARTTLS [OF assms] wrote_AUTH [OF assms] wrote_DATA [OF assms] wrote_answered split: prod.split)
qed

lemma run_dialog:
  assumes "e_writes e = None"
  shows "\<exists>ds. dialog e s ds (run e s) \<and> out (run e s) = out s @ concat (map snd ds) \<and> list_all (\<lambda>d. answered (snd d)) ds"
  using assms
proof (induction e s rule: run.induct)
  case (1 e s)
  obtain l s1 where rl: "readLine s = (l, s1)" by fastforce
  then have o: "out s1 = out s" by (auto simp: readLine_def split: list.splits)
  show ?case
  proof (cases l)
    case None
    with rl o show ?thesis by (subst (1 2) run.simps) (auto intro!: exI [of _ "[]"] EndOfInput)
  next
    case (Some line)
    obtain go s2 where c: "command e line s1 = (go, s2)" by fastforce
    with command_answered [OF "1.prems", of s1 line] obtain ls where ls: "out s2 = out s1 @ ls" "answered ls"
      by (auto simp: wrote_def)
    show ?thesis
    proof (cases go)
      case True
      with "1.IH" [OF rl [symmetric] Some c [symmetric]] "1.prems" obtain ds where
        ds: "dialog e s2 ds (run e s2)" "out (run e s2) = out s2 @ concat (map snd ds)" "list_all (\<lambda>d. answered (snd d)) ds"
        by blast
      have "run e s = run e s2" using rl Some c True by (subst run.simps) simp
      with Command [OF _ _ ls(1) ds(1)] rl Some c True ds ls o show ?thesis
        by (intro exI [of _ "(line, ls) # ds"]) simp
    next
      case False
      have "run e s = s2" using rl Some c False by (subst run.simps) simp
      with LastCommand [OF _ _ ls(1)] rl Some c False ls o show ?thesis
        by (intro exI [of _ "[(line, ls)]"]) simp
    qed
  qed
qed

text \<open>
  C24: a session answers every command and ends. While writes succeed, what the session writes is
  the greeting followed by the answers to the commands it executed, one for each and in order;
  each answer is a well-formed reply, or the 334 or 354 that asks for more and then one; and the
  session ends because every line of the client has been read or because of QUIT. No command is
  skipped, none is left without an answer, and nothing else is written.
\<close>

theorem session_answers_every_command:
  assumes "e_writes e = None"
  shows "\<exists>greeted ds. writeReply e 220 ''posthorn ready'' (newSession client) = (True, greeted) \<and>
    dialog e greeted ds (serve e client) \<and>
    out (serve e client) = ''220 posthorn ready'' # concat (map snd ds) \<and>
    list_all (\<lambda>d. answered (snd d)) ds \<and>
    (input (serve e client) = [] \<or> SessionClosed \<in> set (trace (serve e client)))"
proof -
  let ?g = "reply e 220 ''posthorn ready'' (newSession client)"
  have greeted: "writeReply e 220 ''posthorn ready'' (newSession client) = (True, ?g)"
    using fst_writeReply [OF assms] by (simp add: prod_eq_iff)
  have run: "serve e client = run e ?g" by (simp add: serve_def case_prod_unfold fst_writeReply [OF assms])
  have "formatInt 220 = ''220''" by code_simp
  then have out: "out ?g = [''220 posthorn ready'']" by (simp add: out_reply [OF assms] newSession_def)
  obtain ds where ds: "dialog e ?g ds (run e ?g)" "out (run e ?g) = out ?g @ concat (map snd ds)"
    "list_all (\<lambda>d. answered (snd d)) ds"
    using run_dialog [OF assms] by blast
  have "input (run e ?g) = [] \<or> SessionClosed \<in> set (trace (run e ?g))" by (rule run_ends)
  with greeted run out ds show ?thesis by (intro exI [of _ ?g] exI [of _ ds]) simp
qed

theorem session_answers_every_command_witness:
  "\<exists>greeted ds. writeReply sampleSmtp 220 ''posthorn ready'' (newSession sampleClient) = (True, greeted) \<and>
    dialog sampleSmtp greeted ds (serve sampleSmtp sampleClient) \<and>
    out (serve sampleSmtp sampleClient) = ''220 posthorn ready'' # concat (map snd ds) \<and>
    list_all (\<lambda>d. answered (snd d)) ds \<and>
    (input (serve sampleSmtp sampleClient) = [] \<or> SessionClosed \<in> set (trace (serve sampleSmtp sampleClient)))"
  by (rule session_answers_every_command) (simp add: sampleSmtp_def)

end
