(* ===== verification/GatewayPrivacy.thy ===== *)
theory GatewayPrivacy
  imports GatewayProps Builtins
begin

text \<open>
  What the gateway does not reveal. Two runs of ServeHTTP that differ only in a secret answer and
  log the same: the API key of the caller, the address of the client where it is to be stripped
  from the logs, and the credentials of the provider.
\<close>

subsection \<open>Requests that differ in secrets only\<close>

text \<open>Two requests that agree on everything but the headers in \<open>hidden\<close> and the peer's address.\<close>

definition agreeExcept :: "string set \<Rightarrow> http_request \<Rightarrow> http_request \<Rightarrow> bool" where
  "agreeExcept hidden r r' \<longleftrightarrow>
     r_method r = r_method r' \<and> r_path r = r_path r' \<and> r_query r = r_query r' \<and> r_host r = r_host r' \<and>
     r_body r = r_body r' \<and> (\<forall>k. k \<notin> hidden \<longrightarrow> headerGet (r_header r) k = headerGet (r_header r') k)"

text \<open>
  Documented behaviour of the library: ParseForm reads the method, the URL, the Content-Type and
  the body, the JSON decoder the body, and http.Redirect resolves against the URL.
\<close>

definition readsRequest :: "'tp gw_env \<Rightarrow> bool" where
  "readsRequest v \<longleftrightarrow>
     (\<forall>r r'. r_method r = r_method r' \<and> r_path r = r_path r' \<and> r_query r = r_query r' \<and> r_body r = r_body r' \<and>
        headerGet (r_header r) ''Content-Type'' = headerGet (r_header r') ''Content-Type'' \<longrightarrow>
        ge_parseForm v r = ge_parseForm v r' \<and> ge_decodeJSON v r = ge_decodeJSON v r' \<and>
        ge_location v r = ge_location v r')"

text \<open>What the pipeline below the admission of a request reads of it.\<close>

definition readAlike :: "'tp gw_env \<Rightarrow> http_request \<Rightarrow> http_request \<Rightarrow> bool" where
  "readAlike v r r' \<longleftrightarrow>
     ge_parseForm v r = ge_parseForm v r' \<and> ge_decodeJSON v r = ge_decodeJSON v r' \<and> ge_location v r = ge_location v r' \<and>
     headerGet (r_header r) ''Content-Type'' = headerGet (r_header r') ''Content-Type'' \<and>
     headerGet (r_header r) ''Accept'' = headerGet (r_header r') ''Accept''"

lemma agree_readAlike:
  "readsRequest v \<Longrightarrow> agreeExcept hidden r r' \<Longrightarrow> ''Content-Type'' \<notin> hidden \<Longrightarrow> ''Accept'' \<notin> hidden \<Longrightarrow> readAlike v r r'"
  unfolding readsRequest_def agreeExcept_def readAlike_def by blast

lemma agree_header: "agreeExcept hidden r r' \<Longrightarrow> k \<notin> hidden \<Longrightarrow> headerGet (r_header r) k = headerGet (r_header r') k"
  by (simp add: agreeExcept_def)

subsection \<open>The pipeline reads no secret\<close>

lemma responses_alike:
  assumes "readAlike v r r'"
  shows "writeSuccessResponse v h r = writeSuccessResponse v h r'"
    and "writeErrorResponse v h r = writeErrorResponse v h r'"
    and "writeValidationErrorResponse v h r = writeValidationErrorResponse v h r'"
  using assms
  by (auto simp: readAlike_def wantsRedirect_def writeSuccessResponse_def writeErrorResponse_def
      writeValidationErrorResponse_def fun_eq_iff)

lemma deliver_alike:
  assumes "readAlike v r r'"
  shows "deliver v h r form = deliver v h r' form"
proof -
  have "dispatch v h r form msg = dispatch v h r' form msg" for form msg
    unfolding dispatch_def responses_alike [OF assms] ..
  then show ?thesis unfolding deliver_def by presburger
qed

lemma bodyRead_alike:
  assumes "readAlike v r r'"
  shows "bodyRead v h r = bodyRead v h r'"
proof -
  have "formChecked v h r form = formChecked v h r' form" for form
    unfolding formChecked_def csrfChecked_def validated_def responses_alike [OF assms] deliver_alike [OF assms] ..
  with assms responses_alike [OF assms, of h] show ?thesis
    unfolding readAlike_def bodyRead_def by (simp split: sum.split body_error.split)
qed

text \<open>The limiter's key is logged for a denied request of form mode only, and not where it is stripped.\<close>

lemma rateLimited_alike:
  assumes "readAlike v r r'" and "apiMode h \<or> ep_StripClientIP (h_cfg h)"
    and "limiterAllows lops lmt key (ge_now v AtAllow) = limiterAllows lops lmt key' (ge_now v AtAllow)"
  shows "fst (rateLimited lops v h r key lmt) = fst (rateLimited lops v h r' key' lmt)"
  using assms(2,3) bodyRead_alike [OF assms(1)] responses_alike [OF assms(1)]
  by (auto simp: rateLimited_def limiterAllows_def Let_def split: option.split prod.split)

lemma idempotent_alike:
  assumes "fst (rateLimited lops v h r key lmt) = fst (rateLimited lops v h r' key' lmt)"
  shows "fst (idempotent lops cops v h r key k lmt c) = fst (idempotent lops cops v h r' key' k lmt c)"
    and "snd (snd (idempotent lops cops v h r key k lmt c)) = snd (snd (idempotent lops cops v h r' key' k lmt c))"
  using assms by (auto simp: idempotent_def split: option.split prod.split)

lemma serveAPI_alike:
  assumes "readAlike v r r'" and "apiMode h"
    and "headerGet (r_header r) ''Idempotency-Key'' = headerGet (r_header r') ''Idempotency-Key''"
    and "rel_option (\<lambda>k k'. limiterAllows lops (hs_limiter s) k (ge_now v AtAllow)
           = limiterAllows lops (hs_limiter s) k' (ge_now v AtAllow))
         (authenticateAPIRequest (ep_APIKeys (h_cfg h)) r) (authenticateAPIRequest (ep_APIKeys (h_cfg h)) r')"
  shows "fst (serveAPI lops cops v h r s) = fst (serveAPI lops cops v h r' s) \<and>
    hs_idem (snd (serveAPI lops cops v h r s)) = hs_idem (snd (serveAPI lops cops v h r' s))"
  using assms(4)
proof (cases rule: option.rel_cases)
  case None
  then show ?thesis by (simp add: serveAPI_def)
next
  case (Some k k')
  with assms(1,2) have out: "fst (rateLimited lops v h r k (hs_limiter s)) = fst (rateLimited lops v h r' k' (hs_limiter s))"
    by (intro rateLimited_alike) auto
  note idem = idempotent_alike [OF out, of cops]
  show ?thesis
    using Some(1,2) out idem
    by (auto simp: serveAPI_def assms(3) Let_def case_prod_unfold split: option.split)
qed

text \<open>
  C7: API keys are not revealed. Take two requests to an endpoint in API mode that differ in
  their Authorization header and the address they come from only, both with a configured key or
  both without. If the rate limiter decides the same for the two keys, the responses, every log
  line, metric and mail, and the responses stored for idempotent replays are the same: none of
  them tells which key was used, or what a rejected token was. Nor do they hold the address.
\<close>

theorem api_key_is_not_revealed:
  assumes "readsRequest v" and "apiMode h" and "agreeExcept {''Authorization''} r r'"
    and "rel_option (\<lambda>k k'. limiterAllows lops (hs_limiter s) k (ge_now v AtAllow)
           = limiterAllows lops (hs_limiter s) k' (ge_now v AtAllow))
         (authenticateAPIRequest (ep_APIKeys (h_cfg h)) r) (authenticateAPIRequest (ep_APIKeys (h_cfg h)) r')"
  shows "fst (ServeHTTP lops cops v h r s) = fst (ServeHTTP lops cops v h r' s) \<and>
    hs_idem (snd (ServeHTTP lops cops v h r s)) = hs_idem (snd (ServeHTTP lops cops v h r' s))"
proof -
  have "readAlike v r r'" by (rule agree_readAlike [OF assms(1,3)]) simp_all
  moreover have "headerGet (r_header r) ''Idempotency-Key'' = headerGet (r_header r') ''Idempotency-Key''"
    by (rule agree_header [OF assms(3)]) simp
  moreover have "r_method r = r_method r'" using assms(3) by (simp add: agreeExcept_def)
  ultimately show ?thesis
    using serveAPI_alike [OF _ assms(2) _ assms(4), of cops] assms(2) by (simp add: ServeHTTP_def)
qed

definition bearing :: "string \<Rightarrow> string \<Rightarrow> http_request" where
  "bearing key addr =
     \<lparr>r_method = ''POST'', r_path = ''/api'', r_query = [],
      r_header = [(''Authorization'', [''Bearer '' @ key]), (''Content-Type'', [''application/json''])],
      r_host = ''h'', r_remoteAddr = addr, r_body = ''text''\<rparr>"

definition twoKeys :: "unit handler" where
  "twoKeys = sampleHandler\<lparr>h_cfg := sampleEndpoint\<lparr>ep_APIKeys := [''s3cret'', ''other'']\<rparr>\<rparr>"

lemma sampleEnv_reads: "readsRequest (sampleEnv now)"
  by (simp add: readsRequest_def sampleEnv_def)

theorem api_key_is_not_revealed_witness:
  "fst (ServeHTTP list_lru list_lru (sampleEnv 0) twoKeys (bearing ''s3cret'' ''192.0.2.1:1'') sampleState) =
     fst (ServeHTTP list_lru list_lru (sampleEnv 0) twoKeys (bearing ''other'' ''192.0.2.2:1'') sampleState) \<and>
   hs_idem (snd (ServeHTTP list_lru list_lru (sampleEnv 0) twoKeys (bearing ''s3cret'' ''192.0.2.1:1'') sampleState)) =
     hs_idem (snd (ServeHTTP list_lru list_lru (sampleEnv 0) twoKeys (bearing ''other'' ''192.0.2.2:1'') sampleState))"
proof (rule api_key_is_not_revealed [OF sampleEnv_reads])
  show "apiMode twoKeys" by (simp add: twoKeys_def apiMode_def sampleEndpoint_def)
  show "agreeExcept {''Authorization''} (bearing ''s3cret'' ''192.0.2.1:1'') (bearing ''other'' ''192.0.2.2:1'')"
    by (simp add: agreeExcept_def bearing_def headerGet_def)
  have "authenticateAPIRequest [''s3cret'', ''other''] (bearing k a) = Some k" if "k \<in> {''s3cret'', ''other''}" for k a
    using that by (auto simp: authenticate_unfold bearing_def equalFold_def Let_def)
  then show "rel_option (\<lambda>k k'. limiterAllows list_lru (hs_limiter sampleState) k (ge_now (sampleEnv 0) AtAllow)
        = limiterAllows list_lru (hs_limiter sampleState) k' (ge_now (sampleEnv 0) AtAllow))
      (authenticateAPIRequest (ep_APIKeys (h_cfg twoKeys)) (bearing ''s3cret'' ''192.0.2.1:1''))
      (authenticateAPIRequest (ep_APIKeys (h_cfg twoKeys)) (bearing ''other'' ''192.0.2.2:1''))"
    by (simp add: twoKeys_def limiterAllows_def sampleState_def)
qed

text \<open>
  C8: strip_client_ip. Take two form submissions to an endpoint with strip_client_ip that differ
  in the address they come from and in X-Forwarded-For only. If the rate limiter decides the same
  for the two client addresses, the responses, log lines, metrics and mails are the same, those
  of a rate-limited request included: they carry no client address.
\<close>

theorem client_ip_is_stripped:
  assumes "readsRequest v" and "\<not> apiMode h" and "ep_StripClientIP (h_cfg h)"
    and "agreeExcept {''X-Forwarded-For''} r r'"
    and "limiterAllows lops (hs_limiter s) (ClientIP r (h_trustedProxies h)) (ge_now v AtAllow)
       = limiterAllows lops (hs_limiter s) (ClientIP r' (h_trustedProxies h)) (ge_now v AtAllow)"
  shows "fst (ServeHTTP lops cops v h r s) = fst (ServeHTTP lops cops v h r' s)"
proof -
  have alike: "readAlike v r r'" by (rule agree_readAlike [OF assms(1,4)]) simp_all
  have "fst (rateLimited lops v h r (ClientIP r (h_trustedProxies h)) (hs_limiter s)) =
      fst (rateLimited lops v h r' (ClientIP r' (h_trustedProxies h)) (hs_limiter s))"
    by (rule rateLimited_alike [OF alike _ assms(5)]) (simp add: assms(3))
  moreover have "originChecked v h r = originChecked v h r'"
    using agree_header [OF assms(4)] responses_alike [OF alike]
    by (simp add: originChecked_def ExtractOriginAndReferer_def Let_def split: prod.split)
  moreover have "headerGet (r_header r) ''Content-Type'' = headerGet (r_header r') ''Content-Type''" "r_method r = r_method r'"
    using assms(4) by (simp_all add: agreeExcept_def)
  ultimately show ?thesis
    using assms(2) by (auto simp: ServeHTTP_def serveForm_def split: option.split prod.split)
qed

text \<open>Two clients whose buckets are empty: both are denied, and the log names neither.\<close>

definition strippedHandler :: "unit handler" where
  "strippedHandler = sampleHandler\<lparr>h_cfg := sampleEndpoint\<lparr>ep_Auth := [], ep_StripClientIP := True\<rparr>\<rparr>"

definition emptyBuckets :: "((string, nat) use_list, (string, idem_entry) use_list) handler_state" where
  "emptyBuckets =
     \<lparr>hs_limiter = Some \<lparr>capacity = 1, refillPerSec = 1, buckets = (2, [(''192.0.2.1'', 0), (''192.0.2.2'', 0)]),
        store = (\<lambda>_. \<lparr>tokens = 0, lastSeen = 0\<rparr>), fresh = 1\<rparr>,
      hs_idem = None\<rparr>"

definition formFrom :: "string \<Rightarrow> http_request" where
  "formFrom ip =
     \<lparr>r_method = ''POST'', r_path = ''/f'', r_query = [],
      r_header = [(''Content-Type'', [''application/x-www-form-urlencoded''])], r_host = ''h'', r_remoteAddr = ip,
      r_body = ''text''\<rparr>"

theorem client_ip_is_stripped_witness:
  "fst (ServeHTTP list_lru list_lru (sampleEnv 0) strippedHandler (formFrom ''192.0.2.1'') emptyBuckets) =
     fst (ServeHTTP list_lru list_lru (sampleEnv 0) strippedHandler (formFrom ''192.0.2.2'') emptyBuckets)"
proof (rule client_ip_is_stripped [OF sampleEnv_reads])
  show "\<not> apiMode strippedHandler" "ep_StripClientIP (h_cfg strippedHandler)"
    by (simp_all add: strippedHandler_def apiMode_def AuthAPIKey_def)
  show "agreeExcept {''X-Forwarded-For''} (formFrom ''192.0.2.1'') (formFrom ''192.0.2.2'')"
    by (simp add: agreeExcept_def formFrom_def)
  have "ClientIP (formFrom ip) (h_trustedProxies strippedHandler) = ip" if "ip \<in> {''192.0.2.1'', ''192.0.2.2''}" for ip
    using that by (auto simp: ClientIP_def remoteIP_def formFrom_def strippedHandler_def sampleHandler_def) code_simp+
  moreover have idle: "secondsF (timeSub 0 0) = 0" by code_simp
  have "\<not> limiterAllows list_lru (hs_limiter emptyBuckets) ip 0" if "ip \<in> {''192.0.2.1'', ''192.0.2.2''}" for ip
    using that idle
    by (auto simp: limiterAllows_def emptyBuckets_def allowAt_def list_lru_def list_get_def refill_def Let_def split: option.split)
  ultimately show "limiterAllows list_lru (hs_limiter emptyBuckets) (ClientIP (formFrom ''192.0.2.1'') (h_trustedProxies strippedHandler))
        (ge_now (sampleEnv 0) AtAllow)
      = limiterAllows list_lru (hs_limiter emptyBuckets) (ClientIP (formFrom ''192.0.2.2'') (h_trustedProxies strippedHandler))
        (ge_now (sampleEnv 0) AtAllow)"
    by simp
qed

subsection \<open>Transports that differ in their credentials\<close>

fun sameButKeys :: "any_transport \<Rightarrow> any_transport \<Rightarrow> bool" where
  "sameButKeys (APostmark p) (APostmark p') = (pk_BaseURL p = pk_BaseURL p')"
| "sameButKeys (AResend r) (AResend r') = (rs_BaseURL r = rs_BaseURL r')"
| "sameButKeys (AMailgun m) (AMailgun m') = (mg_Domain m = mg_Domain m' \<and> mg_BaseURL m = mg_BaseURL m')"
| "sameButKeys (ASES s) (ASES s') = (ses_Region s = ses_Region s' \<and> ses_BaseURL s = ses_BaseURL s')"
| "sameButKeys (ASMTP s) (ASMTP s') =
     (so_Host s = so_Host s' \<and> so_Port s = so_Port s' \<and> so_RequireTLS s = so_RequireTLS s' \<and>
      so_SkipVerify s = so_SkipVerify s')"
| "sameButKeys _ _ = False"

text \<open>The commands of a dialogue with the credentials blanked.\<close>

fun censorCmd :: "smtp_cmd \<Rightarrow> smtp_cmd" where
  "censorCmd (Auth u p) = Auth [] []"
| "censorCmd cmd = cmd"

definition relaysAlike :: "smtp_client \<Rightarrow> smtp_client \<Rightarrow> bool" where
  "relaysAlike c c' \<longleftrightarrow>
     (\<forall>tr tr'. map censorCmd tr = map censorCmd tr' \<longrightarrow>
        c_starttls c tr = c_starttls c' tr' \<and>
        (\<forall>cmd cmd'. censorCmd cmd = censorCmd cmd' \<longrightarrow> c_reply c tr cmd = c_reply c' tr' cmd'))"

text \<open>
  The provider answers the first transport in its environment as it answers the second in its
  own: each accepts its own credentials, or each rejects them in the same words.
\<close>

fun answersAlike :: "send_env \<Rightarrow> any_transport \<Rightarrow> send_env \<Rightarrow> any_transport \<Rightarrow> bool" where
  "answersAlike v (APostmark p) v' (APostmark p') =
     (\<forall>m. exchange (se_net v) (postmarkRequest p m) = exchange (se_net v') (postmarkRequest p' m))"
| "answersAlike v (AResend r) v' (AResend r') =
     (\<forall>m. exchange (se_net v) (resendRequest r m) = exchange (se_net v') (resendRequest r' m))"
| "answersAlike v (AMailgun g) v' (AMailgun g') =
     (\<forall>m. exchange (se_net v) (mailgunRequest (se_boundary v) g m) = exchange (se_net v') (mailgunRequest (se_boundary v) g' m))"
| "answersAlike v (ASES s) v' (ASES s') =
     (\<forall>m. exchange (se_net v) (sesRequest (se_std v) (se_now v) s m)
        = exchange (se_net v') (sesRequest (se_std v) (se_now v) s' m))"
| "answersAlike v (ASMTP s) v' (ASMTP s') =
     relaysAlike (se_smtp v) (se_smtp v')"
| "answersAlike _ _ _ _ = False"

definition sameLibrary :: "send_env \<Rightarrow> send_env \<Rightarrow> bool" where
  "sameLibrary v v' \<longleftrightarrow>
     se_std v = se_std v' \<and> se_now v = se_now v' \<and> se_boundary v = se_boundary v' \<and>
     newRequestError (se_net v) = newRequestError (se_net v') \<and> unmarshal (se_net v) = unmarshal (se_net v')"

lemma sendHTTP_alike:
  assumes "newRequestError n = newRequestError n'" "o_url req = o_url req'" "exchange n req = exchange n' req'"
    and "idOf = idOf'" "errMsg = errMsg'"
  shows "sendHTTP n name oks idOf errMsg req = sendHTTP n' name oks idOf' errMsg' req'"
  unfolding sendHTTP_def assms ..

text \<open>Two continuations of the dialogue that go the same way after traces that differ in credentials.\<close>

definition goAlike :: "(smtp_cmd list \<Rightarrow> send_run) \<Rightarrow> (smtp_cmd list \<Rightarrow> send_run) \<Rightarrow> bool" where
  "goAlike k k' \<longleftrightarrow> (\<forall>tr tr'. map censorCmd tr = map censorCmd tr' \<longrightarrow> fst (k tr) = fst (k' tr'))"

lemma goAlikeD: "goAlike k k' \<Longrightarrow> map censorCmd tr = map censorCmd tr' \<Longrightarrow> fst (k tr) = fst (k' tr')"
  by (simp add: goAlike_def)

lemma issue_alike:
  "relaysAlike c c' \<Longrightarrow> goAlike k k' \<Longrightarrow> censorCmd cmd = censorCmd cmd' \<Longrightarrow> goAlike (issue c cmd f k) (issue c' cmd' f k')"
  by (auto simp: relaysAlike_def issue_def goAlike_def split: option.split)

lemma rcptAll_alike: "relaysAlike c c' \<Longrightarrow> goAlike k k' \<Longrightarrow> goAlike (rcptAll g c ts k) (rcptAll g c' ts k')"
proof (induction ts)
  case (Cons a ts)
  have "goAlike (issue c (Rcpt e) f (rcptAll g c ts k)) (issue c' (Rcpt e) f (rcptAll g c' ts k'))" for e f
    by (rule issue_alike [OF Cons.prems(1) Cons.IH [OF Cons.prems] refl])
  then show ?case by (simp add: goAlike_def split: option.split)
qed (simp add: goAlike_def)

lemma envelope_alike:
  assumes "relaysAlike c c'"
  shows "goAlike (sendEnvelope g now c m) (sendEnvelope g now c' m)"
proof -
  have "goAlike (sendData g now c m) (sendData g now c' m)"
    unfolding sendData_def by (intro issue_alike assms refl) (simp add: goAlike_def)
  then have "goAlike (issue c (Mail a) f (rcptAll g c (m_to m) (sendData g now c m)))
      (issue c' (Mail a) f (rcptAll g c' (m_to m) (sendData g now c' m)))" for a f
    by (intro issue_alike rcptAll_alike assms refl)
  then show ?thesis by (simp add: goAlike_def sendEnvelope_def split: option.split)
qed

lemma smtpSend_alike:
  assumes alike: "relaysAlike c c'" and "sameButKeys (ASMTP s) (ASMTP s')"
    and "so_Username s \<noteq> [] \<or> so_Password s \<noteq> []" "so_Username s' \<noteq> [] \<or> so_Password s' \<noteq> []"
  shows "fst (smtpSend g now c s m) = fst (smtpSend g now c' s' m)"
proof -
  have auth: "goAlike (sendAuth g now s c m) (sendAuth g now s' c' m)"
    unfolding sendAuth_def if_P [OF assms(3)] if_P [OF assms(4)] by (intro issue_alike envelope_alike alike) simp
  have "goAlike (issue c (StartTLS h b) f (sendAuth g now s c m)) (issue c' (StartTLS h b) f (sendAuth g now s' c' m))" for h b f
    by (rule issue_alike [OF alike auth refl])
  with auth alike assms(2) have "goAlike (sendTLS g now s c m) (sendTLS g now s' c' m)"
    by (simp add: relaysAlike_def goAlike_def sendTLS_def)
  then have "goAlike
      (issue c d f (issue c h f' (sendTLS g now s c m))) (issue c' d f (issue c' h f' (sendTLS g now s' c' m)))" for d f h f'
    by (intro issue_alike alike refl)
  with assms(2) show ?thesis by (simp add: smtpSend_def goAlike_def split: option.split)
qed

lemma apiReaders_alike:
  assumes "unmarshal n = unmarshal n'"
  shows "postmarkMessageID n = postmarkMessageID n'" "postmarkErrorMessage n = postmarkErrorMessage n'"
    "resendMessageID n = resendMessageID n'" "resendErrorMessage n = resendErrorMessage n'"
    "mailgunMessageID n = mailgunMessageID n'" "mailgunErrorMessage n = mailgunErrorMessage n'"
    "sesMessageID n = sesMessageID n'" "sesErrorMessage n = sesErrorMessage n'"
  using assms
  by (simp_all add: fun_eq_iff postmarkMessageID_def postmarkErrorMessage_def resendMessageID_def resendErrorMessage_def
      mailgunMessageID_def mailgunErrorMessage_def sesMessageID_def sesErrorMessage_def)

lemma anySend_alike:
  assumes "sameButKeys t t'" and "equipped t" "equipped t'" and "sameLibrary v v'" and "answersAlike v t v' t'"
  shows "anySend v t m = anySend v' t' m"
proof -
  have lib: "se_std v' = se_std v" "se_now v' = se_now v" "se_boundary v' = se_boundary v"
    "newRequestError (se_net v) = newRequestError (se_net v')" and um: "unmarshal (se_net v) = unmarshal (se_net v')"
    using assms(4) by (simp_all add: sameLibrary_def)
  show ?thesis
  proof (cases t)
    case (APostmark p)
    with assms lib obtain p' where "t' = APostmark p'" by (cases t') auto
    with APostmark assms lib show ?thesis
      by (simp add: postmarkSend_def apiReaders_alike [OF um]) (rule sendHTTP_alike; simp add: postmarkRequest_def)
  next
    case (AResend r)
    with assms obtain r' where "t' = AResend r'" by (cases t') auto
    with AResend assms lib show ?thesis
      by (simp add: resendSend_def apiReaders_alike [OF um]) (rule sendHTTP_alike; simp add: resendRequest_def)
  next
    case (AMailgun g)
    with assms obtain g' where "t' = AMailgun g'" by (cases t') auto
    with AMailgun assms lib show ?thesis
      by (simp add: mailgunSend_def apiReaders_alike [OF um]) (rule sendHTTP_alike; simp add: mailgunRequest_def)
  next
    case (ASES s)
    with assms obtain s' where "t' = ASES s'" by (cases t') auto
    with ASES assms lib show ?thesis
      by (simp add: sesSend_def apiReaders_alike [OF um]) (rule sendHTTP_alike; simp add: sesRequest_def)
  next
    case (ASMTP s)
    with assms obtain s' where "t' = ASMTP s'" by (cases t') auto
    with ASMTP assms lib show ?thesis by (simp add: smtpSend_alike del: smtpSend_def)
  qed
qed

subsection \<open>The handler uses its transport through Send only\<close>

text \<open>The same endpoint with another transport of the same type, built from other settings.\<close>

definition rekeyed :: "'tp \<Rightarrow> settings \<Rightarrow> 'tp handler \<Rightarrow> 'tp handler" where
  "rekeyed t ss h =
     h\<lparr>h_transport := t,
       h_cfg := (h_cfg h)\<lparr>ep_Transport := (ep_Transport (h_cfg h))\<lparr>tc_Settings := ss\<rparr>\<rparr>\<rparr>"

lemma rekeyed_select:
  "h_transport (rekeyed t ss h) = t" "h_renderer (rekeyed t ss h) = h_renderer h"
  "h_trustedProxies (rekeyed t ss h) = h_trustedProxies h" "h_emailField (rekeyed t ss h) = h_emailField h"
  "h_maxBodySize (rekeyed t ss h) = h_maxBodySize h" "h_logFailedSubmissions (rekeyed t ss h) = h_logFailedSubmissions h"
  "h_csrfTokenTTL (rekeyed t ss h) = h_csrfTokenTTL h" "h_recorder (rekeyed t ss h) = h_recorder h"
  "ep_Path (h_cfg (rekeyed t ss h)) = ep_Path (h_cfg h)" "ep_To (h_cfg (rekeyed t ss h)) = ep_To (h_cfg h)"
  "ep_From (h_cfg (rekeyed t ss h)) = ep_From (h_cfg h)" "ep_Honeypot (h_cfg (rekeyed t ss h)) = ep_Honeypot (h_cfg h)"
  "ep_AllowedOrigins (h_cfg (rekeyed t ss h)) = ep_AllowedOrigins (h_cfg h)"
  "ep_Required (h_cfg (rekeyed t ss h)) = ep_Required (h_cfg h)"
  "ep_ReplyToEmailField (h_cfg (rekeyed t ss h)) = ep_ReplyToEmailField (h_cfg h)"
  "ep_RedirectSuccess (h_cfg (rekeyed t ss h)) = ep_RedirectSuccess (h_cfg h)"
  "ep_RedirectError (h_cfg (rekeyed t ss h)) = ep_RedirectError (h_cfg h)"
  "ep_Auth (h_cfg (rekeyed t ss h)) = ep_Auth (h_cfg h)" "ep_APIKeys (h_cfg (rekeyed t ss h)) = ep_APIKeys (h_cfg h)"
  "ep_DryRun (h_cfg (rekeyed t ss h)) = ep_DryRun (h_cfg h)"
  "ep_StripClientIP (h_cfg (rekeyed t ss h)) = ep_StripClientIP (h_cfg h)"
  "ep_CSRFSecret (h_cfg (rekeyed t ss h)) = ep_CSRFSecret (h_cfg h)"
  "tc_Type (ep_Transport (h_cfg (rekeyed t ss h))) = tc_Type (ep_Transport (h_cfg h))"
  by (simp_all add: rekeyed_def)

lemma resend_select:
  "ge_std (v\<lparr>ge_send := f\<rparr>) = ge_std v" "ge_engine (v\<lparr>ge_send := f\<rparr>) = ge_engine v"
  "ge_print (v\<lparr>ge_send := f\<rparr>) = ge_print v" "ge_now (v\<lparr>ge_send := f\<rparr>) = ge_now v"
  "ge_submissionID (v\<lparr>ge_send := f\<rparr>) = ge_submissionID v" "ge_latency (v\<lparr>ge_send := f\<rparr>) = ge_latency v"
  "ge_parseForm (v\<lparr>ge_send := f\<rparr>) = ge_parseForm v" "ge_decodeJSON (v\<lparr>ge_send := f\<rparr>) = ge_decodeJSON v"
  "ge_location (v\<lparr>ge_send := f\<rparr>) = ge_location v" "ge_ctxDone (v\<lparr>ge_send := f\<rparr>) = ge_ctxDone v"
  "ge_send (v\<lparr>ge_send := f\<rparr>) = f"
  by simp_all

lemmas rekeyed_unfold =
  rekeyed_select resend_select apiMode_def metric_def failureLog_def recipients_def replyTo_def fieldErrors_def
  writeSuccessResponse_def writeErrorResponse_def writeValidationErrorResponse_def wantsRedirect_def success_def
  dispatch_def deliver_def validated_def csrfChecked_def formChecked_def bodyRead_def rateLimited_def idempotent_def
  originChecked_def serveAPI_def serveForm_def ServeHTTP_def

lemma ServeHTTP_rekeyed:
  assumes "f t = ge_send v (h_transport h)"
  shows "ServeHTTP lops cops (v\<lparr>ge_send := f\<rparr>) (rekeyed t ss h) r s = ServeHTTP lops cops v h r s"
  unfolding rekeyed_unfold assms ..

text \<open>
  C9: the credentials of the provider are not revealed. Take an endpoint with either of two
  transports of one type that differ in their credentials only (API keys, access keys, or user
  name and password), with the provider answering each alike. Then every request has the same
  response, the same log lines, metrics and mails, and leaves the same state: what is observable
  of the gateway depends on the credentials only through what the provider answers.
\<close>

theorem provider_credentials_are_not_revealed:
  assumes "sameButKeys t t'" and "equipped t" "equipped t'"
    and "\<And>n. sameLibrary (env n) (env' n)" and "\<And>n. answersAlike (env n) t (env' n) t'"
    and "h_transport h = t" and "ge_send v = (\<lambda>tp n m. anySend (env n) tp m)"
  shows "ServeHTTP lops cops (v\<lparr>ge_send := (\<lambda>tp n m. anySend (env' n) tp m)\<rparr>) (rekeyed t' ss h) r s =
         ServeHTTP lops cops v h r s"
proof (rule ServeHTTP_rekeyed)
  have "anySend (env' n) t' m = anySend (env n) t m" for n m
    by (rule anySend_alike [OF assms(1-3) assms(4) assms(5), symmetric])
  then show "(\<lambda>tp n m. anySend (env' n) tp m) t' = ge_send v (h_transport h)"
    by (simp add: assms(6,7) fun_eq_iff)
qed

definition keyedNet :: "string \<Rightarrow> netlib" where
  "keyedNet key =
     \<lparr>newRequestError = (\<lambda>_. None),
      exchange = (\<lambda>q. HttpResponse (if map_of (o_headers q) ''X-Postmark-Server-Token'' = Some key then 200 else 401) []),
      unmarshal = (\<lambda>_ _. None)\<rparr>"

definition keyedEnv :: "string \<Rightarrow> send_env" where
  "keyedEnv key =
     \<lparr>se_net = keyedNet key, se_std = sampleStd, se_now = 0, se_boundary = ''b'', se_smtp = obligingRelay\<rparr>"

definition keyedTransport :: "string \<Rightarrow> any_transport" where
  "keyedTransport key = APostmark \<lparr>pk_APIKey = key, pk_BaseURL = ''https://p''\<rparr>"

definition keyedHandler :: "any_transport handler" where
  "keyedHandler =
     \<lparr>h_cfg = sampleEndpoint, h_transport = keyedTransport ''k1'', h_renderer = h_renderer sampleHandler,
      h_trustedProxies = [], h_emailField = ''email'', h_maxBodySize = 0, h_logFailedSubmissions = True,
      h_csrfTokenTTL = defaultCSRFTokenTTL, h_recorder = True\<rparr>"

definition anyEnv :: "(nat \<Rightarrow> send_env) \<Rightarrow> any_transport gw_env" where
  "anyEnv env =
     \<lparr>ge_std = sampleStd, ge_engine = sampleEngine, ge_print = samplePrint, ge_now = (\<lambda>_. 0),
      ge_submissionID = ''id'', ge_latency = 1,
      ge_parseForm = (\<lambda>r cap. Inr [(''msg'', [r_body r])]),
      ge_decodeJSON = (\<lambda>r cap. Inr ([(''msg'', JStr (r_body r))], False)),
      ge_location = (\<lambda>r u. u), ge_send = (\<lambda>tp n m. anySend (env n) tp m), ge_ctxDone = (\<lambda>d. False)\<rparr>"

theorem provider_credentials_are_not_revealed_witness:
  "ServeHTTP list_lru list_lru ((anyEnv (\<lambda>_. keyedEnv ''k1''))\<lparr>ge_send := (\<lambda>tp n m. anySend (keyedEnv ''k2'') tp m)\<rparr>)
       (rekeyed (keyedTransport ''k2'') [(''api_key'', TString ''k2'')] keyedHandler) (sampleRequest ''i'' ''text'') sampleState =
     ServeHTTP list_lru list_lru (anyEnv (\<lambda>_. keyedEnv ''k1'')) keyedHandler (sampleRequest ''i'' ''text'') sampleState"
  by (rule provider_credentials_are_not_revealed [where env = "\<lambda>_. keyedEnv ''k1''" and t = "keyedTransport ''k1''"])
    (simp_all add: keyedTransport_def keyedHandler_def anyEnv_def sameLibrary_def keyedEnv_def keyedNet_def postmarkRequest_def)

end
