(* ===== verification/GatewayMetrics.thy ===== *)
theory GatewayMetrics
  imports GatewayProps Config "HOL-Library.Multiset"
begin

text \<open>
  What the metrics page says of the mail: the Recorder of core/metrics fed by the handlers of
  core/gateway. Every request makes at most one of four kinds of entries (\<open>accounted\<close>), and the
  series of a process add up to the requests it served, in whatever order their calls of the
  Recorder were admitted.
\<close>

subsection \<open>The entries of one request\<close>

definition recorded :: "gw_event list \<Rightarrow> recorder_call list" where
  "recorded evs = List.map_filter (\<lambda>e. case e of Metric c \<Rightarrow> Some c | _ \<Rightarrow> None) evs"

text \<open>The transport's answer to the last call of the request is a delivery.\<close>

definition delivered :: "'tp gw_env \<Rightarrow> 'tp handler \<Rightarrow> gw_event list \<Rightarrow> bool" where
  "delivered v h evs \<longleftrightarrow> (\<exists>res. answer v h evs = Some (Inr res))"

text \<open>The class of a failure, as the metrics name it, and a last answer that is one of that class.\<close>

definition failureClass :: "goerror \<Rightarrow> string" where
  "failureClass err =
     (case map_option te_class (asTransportError err) of
        Some ErrTransient \<Rightarrow> ''transient''
      | Some ErrRateLimited \<Rightarrow> ''rate_limited''
      | Some ErrTerminal \<Rightarrow> ''terminal''
      | _ \<Rightarrow> ''unknown'')"

definition failedAs :: "'tp gw_env \<Rightarrow> 'tp handler \<Rightarrow> string \<Rightarrow> gw_event list \<Rightarrow> bool" where
  "failedAs v h k evs \<longleftrightarrow> (\<exists>err. answer v h evs = Some (Inl err) \<and> failureClass err = k)"

lemma errorClassName_class: "errorClassName err = failureClass err"
proof (cases "asTransportError err")
  case (Some te)
  then show ?thesis by (cases "te_class te") (simp_all add: errorClassName_def failureClass_def)
qed (simp add: errorClassName_def failureClass_def)

lemma failedAs_sends: "failedAs v h k evs \<Longrightarrow> sendings evs \<noteq> []" "failedAs v h k evs \<Longrightarrow> \<not> delivered v h evs"
  by (auto simp: failedAs_def answer_def delivered_def)

lemma delivered_sends: "delivered v h evs \<Longrightarrow> sendings evs \<noteq> []"
  by (auto simp: delivered_def answer_def)

lemma recorded_simps [simp]:
  "recorded [] = []"
  "recorded (Metric c # evs) = c # recorded evs"
  "recorded (evs @ evs') = recorded evs @ recorded evs'"
  "recorded (LogReceived # evs) = recorded evs"
  "recorded (LogHoneypot # evs) = recorded evs"
  "recorded (LogOrigin reason # evs) = recorded evs"
  "recorded (LogValidation fs # evs) = recorded evs"
  "recorded (LogRateLimited ip # evs) = recorded evs"
  "recorded (LogAuthFailed # evs) = recorded evs"
  "recorded (LogReplay key code # evs) = recorded evs"
  "recorded (LogRetryScheduled a st d # evs) = recorded evs"
  "recorded [LogRenderFailed] = []"
  "recorded [LogDryRun] = []"
  "recorded [LogCSRF a] = []"
  "recorded [LogConflict a] = []"
  "recorded [LogBodyTooLarge n] = []"
  "recorded [LogRetryFailed a] = []"
  "recorded [LogRetrySucceeded] = []"
  "recorded (LogSent a # evs) = recorded evs"
  "recorded (Sending m # evs) = recorded evs"
  "recorded (failureLog h form err # evs) = recorded evs"
  "recorded (metric h c) = (if h_recorder h then [c] else [])"
  by (simp_all add: recorded_def List.map_filter_def metric_def failureLog_def)

abbreviation path :: "'tp handler \<Rightarrow> string" where
  "path h \<equiv> ep_Path (h_cfg h)"

abbreviation provider :: "'tp handler \<Rightarrow> string" where
  "provider h \<equiv> tc_Type (ep_Transport (h_cfg h))"

definition classNames :: "string list" where
  "classNames = [''transient'', ''rate_limited'', ''terminal'', ''unknown'']"

definition rejections :: "string \<Rightarrow> recorder_call set" where
  "rejections p = {AuthFailed p, IdempotentReplay p, SpamBlocked p ''honeypot'', SpamBlocked p ''origin'', RateLimited p,
                   ValidationFailed p}"

text \<open>
  A request that is turned away (or answered without a look at its mail) makes at most one entry;
  one that is received makes the entry of that, and one more exactly if its mail was sent off.
\<close>

inductive accounted :: "'tp gw_env \<Rightarrow> 'tp handler \<Rightarrow> gw_event list \<Rightarrow> bool" for v h where
  TurnedAway: "recorded evs = [] \<or> (\<exists>c \<in> rejections (path h). recorded evs = [c]) \<Longrightarrow>
    LogReceived \<notin> set evs \<Longrightarrow> sendings evs = [] \<Longrightarrow> accounted v h evs"
| NotSent: "recorded evs = [Submitted (path h)] \<Longrightarrow>
    LogReceived \<in> set evs \<Longrightarrow> sendings evs = [] \<Longrightarrow> accounted v h evs"
| Delivered: "recorded evs = [Submitted (path h), Sent (path h) (provider h) d] \<Longrightarrow>
    LogReceived \<in> set evs \<Longrightarrow> delivered v h evs \<Longrightarrow> accounted v h evs"
| Undelivered: "recorded evs = [Submitted (path h), Failed (path h) (provider h) (failureClass err)] \<Longrightarrow>
    LogReceived \<in> set evs \<Longrightarrow> answer v h evs = Some (Inl err) \<Longrightarrow> accounted v h evs"

lemma failureClass_known: "failureClass err \<in> set classNames"
  by (simp add: failureClass_def classNames_def split: option.split error_class.split)

lemma sendings_Metric [simp]: "sendings (Metric c # evs) = sendings evs"
  by (simp add: sendings_def List.map_filter_def)

lemma failureLog_not_received [simp]: "LogReceived \<noteq> failureLog h form err"
  by (simp add: failureLog_def)

lemma sendWithRetry_silent:
  "recorded (snd (sendWithRetry send d msg)) = []"
  "LogReceived \<notin> set (snd (sendWithRetry send d msg))"
  by (auto simp: sendWithRetry_def Let_def split: sum.split option.split)

lemma dispatch_accounted:
  assumes "h_recorder h" and "dispatch v h r form msg = (ops, evs)"
  shows "accounted v h (LogReceived # Metric (Submitted (path h)) # evs)"
proof (cases "ep_DryRun (h_cfg h)")
  case True
  with assms show ?thesis by (intro NotSent) (auto simp: dispatch_def)
next
  case False
  let ?go = "sendWithRetry (ge_send v (h_transport h)) (ge_ctxDone v) msg"
  obtain res tr where go: "?go = (res, tr)" by fastforce
  then have tr: "recorded tr = []" "LogReceived \<notin> set tr" "sendings tr \<noteq> []"
    using sendWithRetry_silent [of "ge_send v (h_transport h)" "ge_ctxDone v" msg]
      sendWithRetry_sendings [of "ge_send v (h_transport h)" "ge_ctxDone v" msg] by auto
  have out: "answer v h (LogReceived # Metric (Submitted (path h)) # evs) = Some res"
    using dispatch_answer [of v h r form msg] assms(2) go False by (simp add: answer_def split: if_splits)
  show ?thesis
  proof (cases res)
    case (Inl err)
    with out assms False go tr show ?thesis
      by (intro Undelivered [of _ _ err]) (auto simp: dispatch_def errorClassName_class)
  next
    case (Inr result)
    with out assms False go tr show ?thesis
      by (intro Delivered [of _ _ "ge_latency v"]) (auto simp: dispatch_def delivered_def)
  qed
qed

lemma deliver_accounted:
  assumes "h_recorder h"
  shows "accounted v h (snd (deliver v h r form))"
proof -
  have head: "LogReceived # metric h (Submitted (path h)) @ evs = LogReceived # Metric (Submitted (path h)) # evs" for evs
    using assms by (simp add: metric_def)
  have alone: "accounted v h (LogReceived # metric h (Submitted (path h)))"
    using assms by (intro NotSent) simp_all
  have unrendered: "accounted v h (LogReceived # metric h (Submitted (path h)) @ [LogRenderFailed])"
    using assms by (intro NotSent) simp_all
  have "accounted v h (LogReceived # metric h (Submitted (path h)) @ snd (dispatch v h r form msg))" for msg
    unfolding head by (rule dispatch_accounted [OF assms]) (rule prod.collapse [symmetric])
  with alone unrendered show ?thesis
    by (auto simp: deliver_def Let_def case_prod_unfold split: option.split sum.split)
qed

lemma turned_away_one:
  assumes "h_recorder h" and "c \<in> rejections (path h)"
    and "line \<in> {LogAuthFailed, LogReplay key code, LogHoneypot, LogOrigin reason, LogRateLimited ip, LogValidation fs}"
  shows "accounted v h (line # metric h c)"
  using assms by (intro TurnedAway) auto

lemma turned_away_none:
  "accounted v h []" "accounted v h [LogCSRF a]" "accounted v h [LogConflict k]" "accounted v h [LogBodyTooLarge n]"
  by (rule TurnedAway; simp)+

lemma bodyRead_accounted:
  assumes "h_recorder h"
  shows "accounted v h (snd (bodyRead v h r))"
proof -
  have validated: "accounted v h (snd (validated v h r form))" for form
    using deliver_accounted [OF assms, of v r form] turned_away_one [OF assms, of "ValidationFailed (path h)"]
    by (auto simp: validated_def Let_def rejections_def)
  have "accounted v h (snd (csrfChecked v h r form))" for form
    using validated turned_away_none(2) by (auto simp: csrfChecked_def split: option.split)
  then have "accounted v h (snd (formChecked v h r form))" for form
    using turned_away_one [OF assms, of "SpamBlocked (path h) ''honeypot''"] by (simp add: formChecked_def rejections_def)
  then show ?thesis
    using turned_away_none by (auto simp: bodyRead_def split: sum.split body_error.split)
qed

lemma rateLimited_accounted:
  assumes "h_recorder h"
  shows "accounted v h (snd (fst (rateLimited lops v h r key lmt)))"
  using bodyRead_accounted [OF assms, of v r] turned_away_one [OF assms, of "RateLimited (path h)"]
  by (auto simp: rateLimited_def Let_def rejections_def split: option.split prod.split)

lemma idempotent_accounted:
  assumes "h_recorder h"
  shows "accounted v h (snd (fst (idempotent lops cops v h r apiKey k lmt c)))"
  using rateLimited_accounted [OF assms, of v lops r apiKey lmt] turned_away_none
    turned_away_one [OF assms, of "IdempotentReplay (path h)"]
  by (auto simp: idempotent_def conflict_def rejections_def split: option.split prod.split)

lemma ServeHTTP_accounted:
  assumes "h_recorder h"
  shows "accounted v h (snd (fst (ServeHTTP lops cops v h r s)))"
proof -
  note one = turned_away_one [OF assms]
  have "accounted v h (snd (fst (serveAPI lops cops v h r s)))"
    using rateLimited_accounted [OF assms, of v lops r _ "hs_limiter s"] one [of "AuthFailed (path h)"]
      idempotent_accounted [OF assms, of v lops cops r _ _ "hs_limiter s"]
    by (simp add: serveAPI_def Let_def case_prod_unfold rejections_def split: option.split)
  moreover have "accounted v h (snd out)" if "originChecked v h r = Some out" for out
    using that one [of "SpamBlocked (path h) ''origin''"]
    by (auto simp: originChecked_def Let_def rejections_def split: prod.splits if_splits)
  then have "accounted v h (snd (fst (serveForm lops v h r s)))"
    using rateLimited_accounted [OF assms, of v lops r _ "hs_limiter s"] turned_away_none(1) [of v h]
    by (simp add: serveForm_def case_prod_unfold split: option.split)
  ultimately show ?thesis using turned_away_none(1) [of v h] by (simp add: ServeHTTP_def)
qed

subsection \<open>The entries of a process\<close>

text \<open>A call: the request a handler served, with the state it found and what it asked of its libraries.\<close>

record ('tp, 'l, 'c) call =
  cl_env :: "'tp gw_env"
  cl_handler :: "'tp handler"
  cl_request :: http_request
  cl_state :: "('l, 'c) handler_state"

definition events ::
  "('l, string, nat) lru_ops \<Rightarrow> ('c, string, idem_entry) lru_ops \<Rightarrow> ('tp, 'l, 'c) call \<Rightarrow> gw_event list" where
  "events lops cops cl = snd (fst (ServeHTTP lops cops (cl_env cl) (cl_handler cl) (cl_request cl) (cl_state cl)))"

definition at_endpoint :: "string \<Rightarrow> string \<Rightarrow> ('tp, 'l, 'c) call \<Rightarrow> bool" where
  "at_endpoint p t cl \<longleftrightarrow> p = path (cl_handler cl) \<and> t = provider (cl_handler cl)"

definition series :: "metric_id \<Rightarrow> string list \<Rightarrow> recorder \<Rightarrow> int" where
  "series m vs rec = valueAt (encodeLabelValues vs) (c_values (counterOf m rec))"

definition entries :: "metric_id \<Rightarrow> string list \<Rightarrow> recorder_call list \<Rightarrow> nat" where
  "entries m vs cs = length (filter (\<lambda>c. callMetric c = m \<and> callLabels c = vs) cs)"

lemma entries_simps [simp]:
  "entries m vs [] = 0"
  "entries m vs (c # cs) = (if callMetric c = m \<and> callLabels c = vs then Suc (entries m vs cs) else entries m vs cs)"
  "entries m vs (cs @ ds) = entries m vs cs + entries m vs ds"
  by (simp_all add: entries_def)

lemma entries_mset: "mset cs = mset ds \<Longrightarrow> entries m vs cs = entries m vs ds"
  unfolding entries_def by (metis mset_filter size_mset)

text \<open>Entries for mail that was sent off: sent, or failed with any class.\<close>

definition sendEntries :: "string \<Rightarrow> string \<Rightarrow> recorder_call list \<Rightarrow> nat" where
  "sendEntries p t cs = entries MSent [p, t] cs + sum_list (map (\<lambda>k. entries MFailed [p, t, k] cs) classNames)"

lemma sendEntries_simps: "sendEntries p t [] = 0" "sendEntries p t (cs @ ds) = sendEntries p t cs + sendEntries p t ds"
  by (simp_all add: sendEntries_def classNames_def)

lemma rejections_entries:
  "c \<in> rejections p \<Longrightarrow> callMetric c \<notin> {MSubmitted, MSent, MFailed}"
  by (auto simp: rejections_def)

text \<open>What one request adds to the series of an endpoint and its provider.\<close>

lemma accounted_entries:
  assumes "accounted v h evs"
  shows "entries MSubmitted [p] (recorded evs) = of_bool (p = path h \<and> LogReceived \<in> set evs)"
    and "entries MSent [p, t] (recorded evs) = of_bool (p = path h \<and> t = provider h \<and> delivered v h evs)"
    and "entries MFailed [p, t, k] (recorded evs) = of_bool (p = path h \<and> t = provider h \<and> failedAs v h k evs)"
    and "sendEntries p t (recorded evs) =
         of_bool (p = path h \<and> t = provider h \<and> sendings evs \<noteq> [])"
proof -
  have failed: "failedAs v h k evs \<longleftrightarrow> failureClass err = k" "\<not> delivered v h evs" "sendings evs \<noteq> []"
    if "answer v h evs = Some (Inl err)" for err k
    using that by (auto simp: failedAs_def delivered_def answer_def split: if_splits)
  have sent: "\<not> failedAs v h k evs" "sendings evs \<noteq> []" if "delivered v h evs" for k
    using that failedAs_sends(2) delivered_sends by blast+
  have silent: "\<not> failedAs v h k evs" "\<not> delivered v h evs" if "sendings evs = []" for k
    using that failedAs_sends(1) delivered_sends by blast+
  from assms show "entries MSubmitted [p] (recorded evs) = of_bool (p = path h \<and> LogReceived \<in> set evs)"
    by cases (use rejections_entries [of _ "path h"] in \<open>fastforce simp: entries_def\<close>)+
  from assms show "entries MSent [p, t] (recorded evs) = of_bool (p = path h \<and> t = provider h \<and> delivered v h evs)"
    by cases (use rejections_entries [of _ "path h"] silent failed in \<open>fastforce simp: entries_def\<close>)+
  from assms show "entries MFailed [p, t, k] (recorded evs) = of_bool (p = path h \<and> t = provider h \<and> failedAs v h k evs)"
    by cases (use rejections_entries [of _ "path h"] silent sent failed in \<open>fastforce simp: entries_def\<close>)+
  from assms show "sendEntries p t (recorded evs) = of_bool (p = path h \<and> t = provider h \<and> sendings evs \<noteq> [])"
    by cases (use rejections_entries [of _ "path h"] sent failed failureClass_known in \<open>fastforce simp: sendEntries_def classNames_def\<close>)+
qed

lemma accounted_labels:
  assumes "accounted v h evs" and "c \<in> set (recorded evs)" and "path h \<noteq> []" and "noNUL [path h, provider h]"
  shows "noNUL (callLabels c)" and "encodeLabelValues (callLabels c) \<noteq> []"
  using assms by (auto elim!: accounted.cases simp: rejections_def noNUL_def failureClass_def encodeLabelValues_def
      split: option.splits error_class.splits)

subsection \<open>The page of a process\<close>

text \<open>
  An endpoint as \<open>buildMux\<close> makes them: its block is valid (so its path starts with a slash and its
  transport is one of the five), and the path holds no NUL byte.
\<close>

definition counts :: "gostd \<Rightarrow> 'tp handler \<Rightarrow> bool" where
  "counts g h \<longleftrightarrow> h_recorder h \<and> EndpointConfig_Validate g (h_cfg h) = None \<and> CHR 0x00 \<notin> set (path h)"

lemma counts_labels:
  assumes "counts g h"
  shows "path h \<noteq> []" and "noNUL [path h, provider h]"
proof -
  from assms have v: "validEndpoint g (h_cfg h)" by (simp add: counts_def EndpointConfig_Validate_None)
  then show "path h \<noteq> []" by (auto simp: validEndpoint_def)
  from v have "Lookup (provider h) builtinRegistry \<noteq> None"
    by (auto simp: validEndpoint_def TransportConfig_Validate_def split: if_splits option.splits prod.splits)
  then have "provider h \<in> reg_Type ` set builtins" by (auto simp: Lookup_builtin find_Some_iff) (metis image_eqI nth_mem)
  then have "CHR 0x00 \<notin> set (provider h)" by (auto simp: builtins_def registration_defs)
  with assms show "noNUL [path h, provider h]" by (simp add: counts_def noNUL_def)
qed

text \<open>
  The SMTP listener records under the name smtp_listener, but main gives it no Recorder: no entry
  of the handlers, so none of the page, has that name.
\<close>

lemma no_smtp_entries:
  assumes "counts g h" and "c \<in> set (recorded (snd (fst (ServeHTTP lops cops v h r s))))"
  shows "hd (callLabels c) = path h" and "hd (callLabels c) \<noteq> ''smtp_listener''"
proof -
  have "accounted v h (snd (fst (ServeHTTP lops cops v h r s)))"
    using assms(1) by (intro ServeHTTP_accounted) (simp add: counts_def)
  then show "hd (callLabels c) = path h" using assms(2) by cases (auto simp: rejections_def)
  moreover have "hasPrefix (path h) ''/''"
    using assms(1) by (simp add: counts_def EndpointConfig_Validate_None validEndpoint_def)
  ultimately show "hd (callLabels c) \<noteq> ''smtp_listener''" by auto
qed

lemma sum_entries:
  assumes "\<And>cl. cl \<in> set calls \<Longrightarrow> f (recorded (events lops cops cl)) = of_bool (P cl)"
    and "f [] = 0" and "\<And>cs ds. f (cs @ ds) = f cs + (f ds :: nat)"
  shows "f (concat (map (recorded \<circ> events lops cops) calls)) = length (filter P calls)"
  using assms(1) by (induction calls) (simp_all add: assms(2,3))

text \<open>The request of a call passes every check, and its mail was delivered.\<close>

definition acceptedCall ::
  "('l, string, nat) lru_ops \<Rightarrow> ('c, string, idem_entry) lru_ops \<Rightarrow> ('tp, 'l, 'c) call \<Rightarrow> bool" where
  "acceptedCall lops cops cl \<longleftrightarrow> accepted_request lops cops (cl_env cl) (cl_handler cl) (cl_request cl) (cl_state cl)"

definition deliveredCall ::
  "('l, string, nat) lru_ops \<Rightarrow> ('c, string, idem_entry) lru_ops \<Rightarrow> ('tp, 'l, 'c) call \<Rightarrow> bool" where
  "deliveredCall lops cops cl \<longleftrightarrow> delivered (cl_env cl) (cl_handler cl) (events lops cops cl)"

definition failedCall ::
  "('l, string, nat) lru_ops \<Rightarrow> ('c, string, idem_entry) lru_ops \<Rightarrow> string \<Rightarrow> ('tp, 'l, 'c) call \<Rightarrow> bool" where
  "failedCall lops cops k cl \<longleftrightarrow> failedAs (cl_env cl) (cl_handler cl) k (events lops cops cl)"

lemma acceptedCall_received: "acceptedCall lops cops cl \<longleftrightarrow> LogReceived \<in> set (events lops cops cl)"
  by (simp add: acceptedCall_def events_def ServeHTTP_received)

text \<open>
  C39: the metrics page accounts for the mail. Let the handlers of valid endpoints serve any
  requests, and let their calls of the Recorder be admitted in any order, fewer than an int64
  counts. Then no call panics and the page renders; and for every endpoint and provider the
  received series is the number of requests that passed every check, the sent series the number
  of those whose last call of the transport was answered with a delivery, the failed series of an
  error class the number of those whose last call was answered with an error of that class, and
  sent and failed (over all classes) together the number of requests that had a mail handed to the
  transport, retries not counted again.
\<close>

theorem metrics_account_for_mail:
  assumes "list_all (\<lambda>cl. counts g (cl_handler cl)) calls"
    and "mset cs = mset (concat (map (recorded \<circ> events lops cops) calls))" and "int (length cs) < 2 ^ 63"
    and "noNUL [p, t]"
  shows "\<exists>r0 rec page. NewRecorder [] = Inr (r0, collectors r0) \<and> record_all cs r0 = Inr rec \<and> registry_Emit f (collectors rec) = Some page \<and>
    series MSubmitted [p] rec = int (length (filter (\<lambda>cl. p = path (cl_handler cl) \<and> acceptedCall lops cops cl) calls)) \<and>
    series MSent [p, t] rec = int (length (filter (\<lambda>cl. at_endpoint p t cl \<and> deliveredCall lops cops cl) calls)) \<and>
    (\<forall>k \<in> set classNames. series MFailed [p, t, k] rec =
      int (length (filter (\<lambda>cl. at_endpoint p t cl \<and> failedCall lops cops k cl) calls))) \<and>
    series MSent [p, t] rec + sum_list (map (\<lambda>k. series MFailed [p, t, k] rec) classNames) =
      int (length (filter (\<lambda>cl. at_endpoint p t cl \<and> sendings (events lops cops cl) \<noteq> []) calls))"
proof -
  have acc: "accounted (cl_env cl) (cl_handler cl) (events lops cops cl)" and labels: "path (cl_handler cl) \<noteq> []"
    "noNUL [path (cl_handler cl), provider (cl_handler cl)]" if "cl \<in> set calls" for cl
    using that assms(1) counts_labels [of g "cl_handler cl"] ServeHTTP_accounted [where v = "cl_env cl" and h = "cl_handler cl"]
    by (auto simp: list_all_iff events_def counts_def)
  have "noNUL (callLabels c) \<and> encodeLabelValues (callLabels c) \<noteq> []" if "c \<in> set cs" for c
    using that accounted_labels [OF acc _ labels] assms(2) by (fastforce dest!: mset_eq_setD)
  then have ok: "list_all (\<lambda>c. noNUL (callLabels c) \<and> encodeLabelValues (callLabels c) \<noteq> []) cs" by (simp add: list_all_iff)
  obtain rec page where rec: "record_all cs newRecorder = Inr rec" "registry_Emit f (collectors rec) = Some page"
    using recorder_renders [OF ok] by blast
  have val: "series m vs rec = int (entries m vs (concat (map (recorded \<circ> events lops cops) calls)))" if "noNUL vs" for m vs
    using record_all_counted [OF counted_new, of cs] assms(3) ok that rec(1) entries_mset [OF assms(2), of m vs]
    by (auto simp: counted_def series_def entries_def list_all_iff)
  note sums = accounted_entries [OF acc]
  have "entries MSubmitted [p] (concat (map (recorded \<circ> events lops cops) calls)) =
      length (filter (\<lambda>cl. p = path (cl_handler cl) \<and> acceptedCall lops cops cl) calls)"
    by (rule sum_entries) (simp_all add: sums(1) acceptedCall_received)
  moreover have "entries MSent [p, t] (concat (map (recorded \<circ> events lops cops) calls)) =
      length (filter (\<lambda>cl. at_endpoint p t cl \<and> deliveredCall lops cops cl) calls)"
    by (rule sum_entries) (simp_all add: sums(2) at_endpoint_def deliveredCall_def)
  moreover have "entries MFailed [p, t, k] (concat (map (recorded \<circ> events lops cops) calls)) =
      length (filter (\<lambda>cl. at_endpoint p t cl \<and> failedCall lops cops k cl) calls)" for k
    by (rule sum_entries) (simp_all add: sums(3) at_endpoint_def failedCall_def)
  moreover have "sendEntries p t (concat (map (recorded \<circ> events lops cops) calls)) =
      length (filter (\<lambda>cl. at_endpoint p t cl \<and> sendings (events lops cops cl) \<noteq> []) calls)"
    by (rule sum_entries) (simp_all add: sums(4) at_endpoint_def sendEntries_simps)
  moreover have "noNUL [p]" "noNUL [p, t, k]" if "k \<in> set classNames" for k
    using assms(4) that by (auto simp: noNUL_def classNames_def)
  ultimately show ?thesis using rec val assms(4) NewRecorder_empty by (fastforce simp: sendEntries_def classNames_def)
qed

definition sampleCall :: "(unit, (string, nat) use_list, (string, idem_entry) use_list) call" where
  "sampleCall =
     \<lparr>cl_env = sampleEnv 0, cl_handler = sampleHandler, cl_request = sampleRequest [] ''text'', cl_state = sampleState\<rparr>"

lemma sampleCall_select [simp]:
  "cl_handler sampleCall = sampleHandler"
  "events list_lru list_lru sampleCall =
     [LogReceived, Metric (Submitted ''/api''),
      Sending \<lparr>m_from = ''a@x.org'', m_to = [''b@y.org''], m_replyTo = [], m_subject = ''hi'', m_bodyText = ''text''\<rparr>,
      LogSent ''m1'', Metric (Sent ''/api'' ''postmark'' 1)]"
  by (simp_all add: sampleCall_def events_def ServeHTTP_def serveAPI_def sample_key sample_body sample_deliver
      rateLimited_def sampleState_def)

lemma sampleCall_mail: "sendings (events list_lru list_lru sampleCall) \<noteq> []" "acceptedCall list_lru list_lru sampleCall"
  "deliveredCall list_lru list_lru sampleCall"
  by (simp_all add: acceptedCall_received deliveredCall_def delivered_def answer_def)
    (simp add: sampleCall_def)

lemma sampleHandler_counts: "counts sampleStd sampleHandler"
proof -
  have "EndpointConfig_Validate sampleStd sampleEndpoint = None" by code_simp
  then show ?thesis by (simp add: counts_def)
qed

theorem metrics_account_for_mail_witness:
  "\<exists>r0 rec page. NewRecorder [] = Inr (r0, collectors r0) \<and>
     record_all [Sent ''/api'' ''postmark'' 1, Submitted ''/api''] r0 = Inr rec \<and>
     registry_Emit \<lparr>shortest = (\<lambda>_. ''1''), verbG = (\<lambda>_. ''1'')\<rparr> (collectors rec) = Some page \<and>
     series MSubmitted [''/api''] rec = 1 \<and> series MSent [''/api'', ''postmark''] rec = 1 \<and>
     sum_list (map (\<lambda>k. series MFailed [''/api'', ''postmark'', k] rec) classNames) = 0"
  using metrics_account_for_mail [of sampleStd "[sampleCall]" "[Sent ''/api'' ''postmark'' 1, Submitted ''/api'']"
      list_lru list_lru "''/api''" "''postmark''" "\<lparr>shortest = (\<lambda>_. ''1''), verbG = (\<lambda>_. ''1'')\<rparr>"]
  by (simp add: sampleHandler_counts sampleCall_mail noNUL_def at_endpoint_def) auto

end
