(* ===== verification/EndToEnd.thy ===== *)
theory EndToEnd
  imports GatewayPrivacy SmtpSession
begin

text \<open>
  From a request to the wire: what the relay of the outbound SMTP transport is told when the mail
  comes from a form of the HTTP gateway (core/gateway/handler.go) or from a client of the SMTP
  listener (core/smtp/session.go), in every dialogue, also one that ends early.
\<close>

subsection \<open>The commands of a dialogue\<close>

text \<open>A continuation of the dialogue adds only commands that satisfy P, and at most n recipients.\<close>

definition rcpts :: "smtp_cmd list \<Rightarrow> string list" where
  "rcpts tr = List.map_filter (\<lambda>cmd. case cmd of Rcpt a \<Rightarrow> Some a | _ \<Rightarrow> None) tr"

lemma rcpts_simps [simp]:
  "rcpts [] = []" "rcpts (tr @ tr') = rcpts tr @ rcpts tr'" "rcpts [Rcpt a] = [a]" "rcpts [Quit] = []"
  by (simp_all add: rcpts_def List.map_filter_def)

definition noRcpt :: "smtp_cmd \<Rightarrow> bool" where
  "noRcpt cmd \<longleftrightarrow> rcpts [cmd] = []"

lemma noRcpt_simps [simp]:
  "noRcpt (Dial a)" "noRcpt (Hello a)" "noRcpt (StartTLS a b)" "noRcpt (Auth a c)" "noRcpt (Mail a)" "noRcpt Data"
  "noRcpt (Payload a)" "noRcpt EndData" "noRcpt Quit" "\<not> noRcpt (Rcpt a)"
  by (simp_all add: noRcpt_def rcpts_def List.map_filter_def)

definition tells :: "(smtp_cmd \<Rightarrow> bool) \<Rightarrow> nat \<Rightarrow> (smtp_cmd list \<Rightarrow> send_run) \<Rightarrow> bool" where
  "tells P n k \<longleftrightarrow> (\<forall>tr. (\<forall>cmd \<in> set (snd (k tr)). cmd \<in> set tr \<or> P cmd) \<and>
     length (rcpts (snd (k tr))) \<le> length (rcpts tr) + n)"

lemma tells_issue:
  assumes "P cmd" and "noRcpt cmd" and "tells P n k"
  shows "tells P n (issue c cmd f k)"
  unfolding tells_def
proof
  fix tr
  have "\<forall>x \<in> set (snd (k (tr @ [cmd]))). x \<in> set (tr @ [cmd]) \<or> P x"
    "length (rcpts (snd (k (tr @ [cmd])))) \<le> length (rcpts (tr @ [cmd])) + n"
    using assms(3) unfolding tells_def by blast+
  with assms(1,2) show "(\<forall>x \<in> set (snd (issue c cmd f k tr)). x \<in> set tr \<or> P x) \<and>
      length (rcpts (snd (issue c cmd f k tr))) \<le> length (rcpts tr) + n"
    by (auto simp: issue_def noRcpt_def split: option.split)
qed

lemma tells_rcpt:
  assumes "P (Rcpt a)" and "tells P n k"
  shows "tells P (Suc n) (issue c (Rcpt a) f k)"
  unfolding tells_def
proof
  fix tr
  have "\<forall>x \<in> set (snd (k (tr @ [Rcpt a]))). x \<in> set (tr @ [Rcpt a]) \<or> P x"
    "length (rcpts (snd (k (tr @ [Rcpt a])))) \<le> length (rcpts (tr @ [Rcpt a])) + n"
    using assms(2) unfolding tells_def by blast+
  with assms(1) show "(\<forall>x \<in> set (snd (issue c (Rcpt a) f k tr)). x \<in> set tr \<or> P x) \<and>
      length (rcpts (snd (issue c (Rcpt a) f k tr))) \<le> length (rcpts tr) + Suc n"
    by (auto simp: issue_def split: option.split)
qed

lemma tells_start:
  assumes "tells P n k" and "k [] = (res, tr)"
  shows "(\<forall>cmd \<in> set tr. P cmd) \<and> length (rcpts tr) \<le> n"
  using assms unfolding tells_def by (metis add_0 empty_iff list.set(1) list.size(3) rcpts_simps(1) snd_conv)

text \<open>What may be said on behalf of a message.\<close>

definition onBehalf :: "gostd \<Rightarrow> time \<Rightarrow> message \<Rightarrow> smtp_cmd \<Rightarrow> bool" where
  "onBehalf g now m cmd \<longleftrightarrow>
     (case cmd of
        Mail a \<Rightarrow> envelopeAddress g (m_from m) = Some a
      | Rcpt a \<Rightarrow> Some a \<in> envelopeAddress g ` set (m_to m)
      | Payload b \<Rightarrow> b = buildRFC5322 g now m
      | _ \<Rightarrow> True)"

lemma onBehalf_simps [simp]:
  "onBehalf g now m (Dial s)" "onBehalf g now m (Hello s)" "onBehalf g now m (StartTLS s skip)" "onBehalf g now m (Auth s s')"
  "onBehalf g now m Data" "onBehalf g now m EndData" "onBehalf g now m Quit"
  "onBehalf g now m (Mail a) \<longleftrightarrow> envelopeAddress g (m_from m) = Some a"
  "onBehalf g now m (Rcpt a) \<longleftrightarrow> Some a \<in> envelopeAddress g ` set (m_to m)"
  "onBehalf g now m (Payload b) \<longleftrightarrow> b = buildRFC5322 g now m"
  by (simp_all add: onBehalf_def)

lemma tells_rcptAll:
  assumes "set ts \<subseteq> set (m_to m)" and "tells (onBehalf g now m) 0 k"
  shows "tells (onBehalf g now m) (length ts) (rcptAll g c ts k)"
  using assms
proof (induction ts)
  case (Cons a ts)
  have "tells (onBehalf g now m) (Suc (length ts)) (issue c (Rcpt e) f (rcptAll g c ts k))"
    if "envelopeAddress g a = Some e" for e f
    using Cons that by (intro tells_rcpt) (auto simp: image_iff intro: sym)
  then show ?case by (auto simp: tells_def split: option.split)
qed (simp add: tells_def)

lemma tells_envelope: "tells (onBehalf g now m) (length (m_to m)) (sendEnvelope g now c m)"
proof -
  have "tells (onBehalf g now m) 0 (sendData g now c m)"
    unfolding sendData_def by (intro tells_issue) (simp_all add: tells_def)
  then have "tells (onBehalf g now m) (length (m_to m)) (issue c (Mail a) f (rcptAll g c (m_to m) (sendData g now c m)))"
    if "envelopeAddress g (m_from m) = Some a" for a f
    using that by (intro tells_issue tells_rcptAll) simp_all
  then show ?thesis by (auto simp: tells_def sendEnvelope_def split: option.split)
qed

lemma smtpSend_tells:
  assumes "smtpSend g now c t m = (res, tr)"
  shows "(\<forall>cmd \<in> set tr. onBehalf g now m cmd \<and> validateNoHeaderCRLF m = None) \<and> length (rcpts tr) \<le> length (m_to m)"
proof -
  have "tells (onBehalf g now m) (length (m_to m)) (sendAuth g now t c m)"
    unfolding sendAuth_def using tells_issue [OF _ _ tells_envelope] tells_envelope by simp
  then have "tells (onBehalf g now m) (length (m_to m)) (sendTLS g now t c m)"
    using tells_issue [of "onBehalf g now m" "StartTLS h b" "length (m_to m)" "sendAuth g now t c m" for h b]
    by (simp add: tells_def sendTLS_def)
  then have "tells (onBehalf g now m) (length (m_to m))
      (issue c (Dial d) f (issue c (Hello h) f' (sendTLS g now t c m)))" for d h f f'
    by (intro tells_issue) simp_all
  note dial = tells_start [OF this]
  show ?thesis
  proof (cases "validateNoHeaderCRLF m")
    case None
    with assms show ?thesis using dial [of _ _ _ _ res tr] by (simp add: smtpSend_def)
  next
    case (Some err)
    with assms show ?thesis by (auto simp: smtpSend_def)
  qed
qed

subsection \<open>From a form\<close>

text \<open>
  What an endpoint may have said on behalf of a form: its own sender and recipients, and a message
  whose header lines are the fixed ones, with the submitter's part confined to the Reply-To (a
  valid address), the subject line and the body.
\<close>

definition formHeaders :: "endpoint_config \<Rightarrow> time \<Rightarrow> string list \<Rightarrow> string \<Rightarrow> string list" where
  "formHeaders cfg now replies subject =
     [''From: '' @ ep_From cfg, ''To: '' @ join '', '' (ep_To cfg)] @ map ((@) ''Reply-To: '') replies
     @ [''Subject: '' @ subject, ''Date: '' @ rfc1123z now, ''MIME-Version: 1.0'',
        ''Content-Type: text/plain; charset='' @ CHR 0x22 # ''utf-8'' @ [CHR 0x22],
        ''Content-Transfer-Encoding: 8bit'']"

definition formSays :: "gostd \<Rightarrow> endpoint_config \<Rightarrow> time \<Rightarrow> smtp_cmd \<Rightarrow> bool" where
  "formSays g cfg now cmd \<longleftrightarrow>
     (case cmd of
        Mail a \<Rightarrow> envelopeAddress g (ep_From cfg) = Some a
      | Rcpt a \<Rightarrow> Some a \<in> envelopeAddress g ` set (ep_To cfg)
      | Payload b \<Rightarrow>
          (\<exists>replies subject body.
             headerLines b = Some (formHeaders cfg now replies subject, body) \<and> length replies \<le> 1 \<and>
             list_all (Email g) replies \<and> list_all (\<lambda>l. noBreaks l) (formHeaders cfg now replies subject))
      | _ \<Rightarrow> True)"

lemma payload_headers:
  assumes "validateNoHeaderCRLF m = None" and "noBreaks (mimeBEncode g (m_subject m))"
  shows "headerLines (buildRFC5322 g now m) = Some (rfcHeaders g now m, m_bodyText m)"
    and "list_all (\<lambda>l. noBreaks l) (rfcHeaders g now m)"
  using headers_fixed [OF assms(1) assms(2)] by blast+

text \<open>
  C10: a contact form is no relay. Whatever a visitor submits to an endpoint in form mode, and
  however the dialogue with the relay goes, the relay is only ever told the endpoint's own sender
  and its own recipients, no more of them than configured; and the text it is given splits at
  its line ends into exactly the fixed header lines, the endpoint's From and To among them, with
  no line the visitor could add: the submission shows in one Reply-To with a valid address, one
  subject line, and the body. The hypothesis on the MIME encoder is that an encoded word has no
  line break.
\<close>

theorem contact_form_is_no_relay:
  assumes "\<not> apiMode h" and "m \<in> set (sendings (snd (fst (ServeHTTP lops cops v h r s))))"
    and "smtpSend (ge_std v) now c t m = (res, tr)" and "noBreaks (mimeBEncode (ge_std v) (m_subject m))"
  shows "list_all (formSays (ge_std v) (h_cfg h) now) tr \<and> length (rcpts tr) \<le> length (ep_To (h_cfg h))"
proof -
  let ?g = "ge_std v"
  obtain form where "messageOf v h form m"
    using assms(2) by (auto simp: ServeHTTP_sendings rateLimited_sendings bodyRead_sendings)
  with assms(1) have m: "m_to m = ep_To (h_cfg h)" "m_from m = ep_From (h_cfg h)" "m_replyTo m = replyTo ?g h form"
    by (simp_all add: messageOf_def addressees_def repliesTo_iff)
  have said: "onBehalf ?g now m cmd" "validateNoHeaderCRLF m = None" if "cmd \<in> set tr" for cmd
    using smtpSend_tells [OF assms(3)] that by blast+
  let ?reply = "if m_replyTo m = [] then [] else [m_replyTo m]"
  have headers: "rfcHeaders ?g now m = formHeaders (h_cfg h) now ?reply (encodeMIMESubject ?g (m_subject m))"
    by (simp add: rfcHeaders_def formHeaders_def m)
  have reply: "list_all (Email ?g) ?reply" by (simp add: m(3) replyTo_def Let_def)
  have "formSays ?g (h_cfg h) now cmd" if cmd: "cmd \<in> set tr" for cmd
  proof (cases cmd)
    case (Payload b)
    with said(1) [OF cmd] have b: "b = buildRFC5322 ?g now m" by simp
    note payload = payload_headers [OF said(2) [OF cmd] assms(4), of now, unfolded headers, folded b]
    show ?thesis
      unfolding formSays_def Payload
      by simp (rule exI [of _ ?reply], rule exI, rule conjI, rule exI, rule payload(1), use payload(2) reply in simp)
  qed (use said(1) [OF cmd] in \<open>auto simp: formSays_def m\<close>)
  moreover have "length (rcpts tr) \<le> length (ep_To (h_cfg h))" using smtpSend_tells [OF assms(3)] m(1) by simp
  ultimately show ?thesis by (simp add: list_all_iff)
qed

definition formHandler :: "unit handler" where
  "formHandler = sampleHandler\<lparr>h_cfg := sampleEndpoint\<lparr>ep_Auth := []\<rparr>\<rparr>"

lemma formHandler_select [simp]:
  "\<not> apiMode formHandler" "ep_Required (h_cfg formHandler) = []" "ep_Honeypot (h_cfg formHandler) = []"
  "ep_CSRFSecret (h_cfg formHandler) = []" "ep_AllowedOrigins (h_cfg formHandler) = None" "h_emailField formHandler = ''email''"
  "ep_To (h_cfg formHandler) = [''b@y.org'']" "ep_From (h_cfg formHandler) = ''a@x.org''" "\<not> ep_DryRun (h_cfg formHandler)"
  "ep_ReplyToEmailField (h_cfg formHandler) = []" "h_renderer formHandler = h_renderer sampleHandler"
  "ge_parseForm (sampleEnv now) r n = Inr [(''msg'', [r_body r])]"
  by (simp_all add: formHandler_def sampleHandler_def sampleEndpoint_def apiMode_def AuthAPIKey_def sampleEnv_def)

definition noLimits :: "((string, nat) use_list, (string, idem_entry) use_list) handler_state" where
  "noLimits = \<lparr>hs_limiter = None, hs_idem = None\<rparr>"

lemma formHandler_sends:
  "sampleMessage
     \<in> set (sendings (snd (fst (ServeHTTP list_lru list_lru (sampleEnv 0) formHandler (formFrom ''192.0.2.1'') noLimits))))"
proof -
  have "isFormContentType sampleStd (headerGet (r_header (formFrom ''192.0.2.1'')) ''Content-Type'')"
    by (simp add: formFrom_def) code_simp
  moreover have "messageOf (sampleEnv 0) formHandler [(''msg'', [''text''])] sampleMessage"
    using sample_render [of "''text''"]
    by (simp add: messageOf_def addressees_def repliesTo_iff replyTo_def headerGet_def sampleMessage_def)
  moreover have "r_method (formFrom ip) = ''POST''" "r_body (formFrom ip) = ''text''" for ip
    by (simp_all add: formFrom_def)
  ultimately show ?thesis
    by (auto simp: ServeHTTP_sendings rateLimited_sendings bodyRead_sendings idemOpen_def admitted_iff originAllowed_def
        limiterAllows_def formOf_def formAccepted_def trapped_def nonBlank_def headerGet_def [of "[(''msg'', [''text''])]"] noLimits_def)
qed

theorem contact_form_is_no_relay_witness:
  "list_all (formSays sampleStd (h_cfg formHandler) 0) (snd (smtpSend sampleStd 0 obligingRelay sampleSmtpOut sampleMessage)) \<and>
   length (rcpts (snd (smtpSend sampleStd 0 obligingRelay sampleSmtpOut sampleMessage))) \<le> 1"
proof -
  obtain res tr where send: "smtpSend sampleStd 0 obligingRelay sampleSmtpOut sampleMessage = (res, tr)" by fastforce
  have "smtpSend (ge_std (sampleEnv 0)) 0 obligingRelay sampleSmtpOut sampleMessage = (res, tr)" by (simp add: send)
  moreover have "noBreaks (mimeBEncode (ge_std (sampleEnv 0)) (m_subject sampleMessage))"
    unfolding sampleEnv_select by code_simp
  ultimately show ?thesis
    using contact_form_is_no_relay [OF formHandler_select(1) formHandler_sends, of 0 obligingRelay sampleSmtpOut res tr] send
    by simp
qed

subsection \<open>From an SMTP client\<close>

text \<open>
  C13: the listener smuggles nothing to the relay. For every message that a session of a validated
  listener hands to the outbound SMTP transport, whatever the client's DATA held, every RCPT the
  relay is told is the address of an envelope recipient that the listener accepted: on the
  allow-list if there is one, and else no more of them than the cap. The text the relay is given
  splits into exactly the fixed header lines: a Bcc or any other header of the client's message
  is not among them, nor is a line that a line break inside a header value would add.
\<close>

theorem smtp_client_smuggles_nothing:
  assumes "listener_Validate (e_cfg e) = None"
    and "HandedOver m from tls u cert \<in> set (trace (serve e client))"
    and "smtpSend (e_std e) now c t m = (res, tr)" and "noBreaks (mimeBEncode (e_std e) (m_subject m))"
  shows "list_all (\<lambda>cmd. case cmd of
      Rcpt a \<Rightarrow> \<exists>r. envelopeAddress (e_std e) r = Some a \<and>
                 (AllowedRecipients (e_cfg e) = [] \<or> matchesAllowlist r (AllowedRecipients (e_cfg e)))
    | Payload b \<Rightarrow> headerLines b = Some (rfcHeaders (e_std e) now m, m_bodyText m) \<and>
                 list_all (\<lambda>l. noBreaks l) (rfcHeaders (e_std e) now m)
    | _ \<Rightarrow> True) tr \<and>
    (AllowedRecipients (e_cfg e) = [] \<longrightarrow> int (length (rcpts tr)) \<le> EffectiveMaxRecipients (e_cfg e))"
proof -
  have "sessionInv e (serve e client)" by (rule inv_serve [OF Validate_usersNamed [OF assms(1)]])
  then have "eventOk e (HandedOver m from tls u cert)" using assms(2) unfolding sessionInv_def by blast
  then have policy: "recipientsOk e (m_to m)" by simp
  note told = smtpSend_tells [OF assms(3)]
  have "case cmd of
      Rcpt a \<Rightarrow> \<exists>r. envelopeAddress (e_std e) r = Some a \<and>
                 (AllowedRecipients (e_cfg e) = [] \<or> matchesAllowlist r (AllowedRecipients (e_cfg e)))
    | Payload b \<Rightarrow> headerLines b = Some (rfcHeaders (e_std e) now m, m_bodyText m) \<and>
                 list_all (\<lambda>l. noBreaks l) (rfcHeaders (e_std e) now m)
    | _ \<Rightarrow> True" if "cmd \<in> set tr" for cmd
  proof -
    have said: "onBehalf (e_std e) now m cmd" and checked: "validateNoHeaderCRLF m = None" using told that by blast+
    show ?thesis
    proof (cases cmd)
      case (Rcpt a)
      with said obtain r where "r \<in> set (m_to m)" "envelopeAddress (e_std e) r = Some a" by auto
      with policy Rcpt show ?thesis by (auto simp: recipientsOk_def)
    next
      case (Payload b)
      with said payload_headers [OF checked assms(4)] show ?thesis by simp
    qed simp_all
  qed
  moreover have "AllowedRecipients (e_cfg e) = [] \<longrightarrow> int (length (m_to m)) \<le> EffectiveMaxRecipients (e_cfg e)"
    using policy EffectiveMaxRecipients_bound [of "e_cfg e"] by (auto simp: recipientsOk_def)
  ultimately show ?thesis using told by (fastforce simp: list_all_iff)
qed

text \<open>A client whose message names another sender and a Bcc in its header.\<close>

definition spoofSmtp :: smtp_env where
  "spoofSmtp =
     sampleSmtp\<lparr>e_mime := sampleMime\<lparr>readMessage := (\<lambda>b. Inr ([(''From'', [''ceo@z.org'']), (''Bcc'', [''x@evil''])], b))\<rparr>\<rparr>"

definition spoofMessage :: message where
  "spoofMessage = \<lparr>m_from = ''ceo@z.org'', m_to = [''c@d''], m_replyTo = [], m_subject = [], m_bodyText = ''hi'' @ [CHR 0x0A]\<rparr>"

lemma spoofSession: "HandedOver spoofMessage ''a@b'' False ''u'' False \<in> set (trace (serve spoofSmtp sampleClient))"
proof -
  have "trace (serve spoofSmtp sampleClient) =
      [AuthOkFor ''u'', HandedOver spoofMessage ''a@b'' False ''u'' False, SubmissionSent ''uuid'' ''id'' 3,
       MetricSent ''postmark'', SessionClosed]"
    by code_simp
  then show ?thesis by simp
qed

lemma spoof_select: "e_cfg spoofSmtp = sampleListener" "e_std spoofSmtp = sampleStd" "AllowedRecipients sampleListener = []"
  by (simp_all add: spoofSmtp_def sampleSmtp_def sampleListener_def)

theorem smtp_client_smuggles_nothing_witness:
  "let tr = snd (smtpSend sampleStd 0 obligingRelay sampleSmtpOut spoofMessage) in
   list_all (\<lambda>cmd. case cmd of
      Rcpt a \<Rightarrow> \<exists>r. envelopeAddress sampleStd r = Some a
    | Payload b \<Rightarrow> headerLines b = Some (rfcHeaders sampleStd 0 spoofMessage, m_bodyText spoofMessage) \<and>
                 list_all (\<lambda>l. noBreaks l) (rfcHeaders sampleStd 0 spoofMessage)
    | _ \<Rightarrow> True) tr \<and> int (length (rcpts tr)) \<le> EffectiveMaxRecipients sampleListener"
proof -
  obtain res tr where send: "smtpSend sampleStd 0 obligingRelay sampleSmtpOut spoofMessage = (res, tr)" by fastforce
  have "listener_Validate (e_cfg spoofSmtp) = None" by code_simp
  moreover have "noBreaks (mimeBEncode (e_std spoofSmtp) (m_subject spoofMessage))" by code_simp
  ultimately show ?thesis
    using smtp_client_smuggles_nothing [OF _ spoofSession, of 0 obligingRelay sampleSmtpOut res tr] send
    unfolding spoof_select Let_def by simp
qed

text \<open>
  The sender allow-list is a check of the envelope only: the From of the message the session
  hands on is the client's header, which nothing compares with the list, and it is the address
  the outbound transport sends under.
\<close>

lemma from_header_is_not_checked:
  "HandedOver spoofMessage ''a@b'' False ''u'' False \<in> set (trace (serve spoofSmtp sampleClient))"
  "\<not> matchesAllowlist (m_from spoofMessage) (AllowedSenders (e_cfg spoofSmtp))"
  "Mail (m_from spoofMessage) \<in> set (snd (smtpSend sampleStd 0 obligingRelay sampleSmtpOut spoofMessage))"
  by (rule spoofSession, code_simp+)

end
