(* ===== verification/Command.thy ===== *)
theory Command
  imports Posthorn
begin

text \<open>
  core/cmd/posthorn/main.go, the command line: main with its subcommands and exit statuses, and
  the flags of serve and validate as Go's package flag parses string flags. What serve and
  validate do with a configuration is in theory Posthorn. Output is what the code of main.go itself
  writes: its text, and the records of its logger, which writes them to standard output as JSON.
  The records of the ingresses and handlers, logged by goroutines of their own or by the methods main
  calls, stand between those on the same stream and are not part of it here.
\<close>

subsection \<open>Flags\<close>

datatype flag_error = HelpRequested | BadFlagSyntax string | FlagUndefined string | FlagNeedsArgument string

text \<open>An argument: no flag (or the terminator), a malformed flag, or a flag with the value behind its equals sign.\<close>

datatype flag_token = NoFlag | BadToken | Flag string "string option"

definition flagToken :: "string \<Rightarrow> flag_token" where
  "flagToken s =
     (if length s < 2 \<or> hd s \<noteq> CHR ''-'' then NoFlag
      else if s = ''--'' then NoFlag
      else
        (let name = (if hasPrefix s ''--'' then drop 2 s else drop 1 s) in
         if name = [] \<or> hd name = CHR ''-'' \<or> hd name = CHR ''='' then BadToken
         else (case indexByte name CHR ''='' of
                 None \<Rightarrow> Flag name None
               | Some i \<Rightarrow> Flag (take i name) (Some (drop (Suc i) name)))))"

text \<open>Parse: the values of the defined string flags after the arguments, the defaults first in \<open>vals\<close>.\<close>

fun flagParse :: "string list \<Rightarrow> string list \<Rightarrow> (string \<times> string) list \<Rightarrow> flag_error + (string \<times> string) list" where
  "flagParse names [] vals = Inr vals"
| "flagParse names (s # args) vals =
     (case flagToken s of
        NoFlag \<Rightarrow> Inr vals
      | BadToken \<Rightarrow> Inl (BadFlagSyntax s)
      | Flag name inline \<Rightarrow>
          if name \<notin> set names
          then Inl (if name = ''help'' \<or> name = ''h'' then HelpRequested else FlagUndefined name)
          else
            (case inline of
               Some v \<Rightarrow> flagParse names args (mapSet name v vals)
             | None \<Rightarrow>
                 (case args of
                    [] \<Rightarrow> Inl (FlagNeedsArgument name)
                  | v # rest \<Rightarrow> flagParse names rest (mapSet name v vals))))"

definition flagValue :: "string \<Rightarrow> (string \<times> string) list \<Rightarrow> string" where
  "flagValue name vals = (case map_of vals name of None \<Rightarrow> [] | Some v \<Rightarrow> v)"

subsection \<open>The process\<close>

text \<open>
  What the commands find: the file system with the environment and the TOML decoder (\<open>wd_read\<close>,
  \<open>wd_env\<close>, \<open>wd_decode\<close>), the libraries, and how serving on a listen address goes (\<open>wd_woken\<close>,
  \<open>wd_stop\<close>, \<open>wd_again\<close>, as in runIngressesUntilSignal).
\<close>

record ('l, 'c) world =
  wd_engine :: engine
  wd_std :: gostd
  wd_quote :: "string \<Rightarrow> string"
  wd_lops :: "('l, string, nat) lru_ops"
  wd_cops :: "('c, string, idem_entry) lru_ops"
  wd_mux :: mux_lib
  wd_tls :: tls_files
  wd_read :: "string \<Rightarrow> string + bytes"
  wd_env :: "string \<Rightarrow> string option"
  wd_decode :: "bytes \<Rightarrow> string + config"
  wd_woken :: "string \<Rightarrow> woken"
  wd_stop :: "string \<Rightarrow> string option"
  wd_again :: "nat option"
  wd_signal :: "nat \<Rightarrow> string"  \<comment> \<open>the name of the n-th signal\<close>

datatype cmd_error = FlagFailed flag_error | ServeFailed serve_error | ValidateFailed run_error

text \<open>A record of the logger: its level, message and attributes.\<close>

datatype log_value = LogStr string | LogInt int

record log_record =
  lr_level :: level
  lr_msg :: string
  lr_attrs :: "(string \<times> log_value) list"

text \<open>
  Output is text, the line ``posthorn: err'' for an error of a command, a record of the logger, or
  what the runtime prints of a panic of Handle on a pattern.
\<close>

datatype printed = Text string | ErrorLine cmd_error | Record log_record | PanicTrace string

record process =
  p_exit :: nat
  p_out :: "printed list"   \<comment> \<open>on standard output\<close>
  p_err :: "printed list"   \<comment> \<open>on standard error\<close>

definition version :: string where
  "version = ''v0.0.1-dev''"

definition lines :: "string list \<Rightarrow> string" where
  "lines ls = concat (map (\<lambda>l. l @ [CHR 0x0A]) ls)"

definition usage :: string where
  "usage = lines
     [''posthorn '' @ [CHR 0xE2, CHR 0x80, CHR 0x94] @ '' the unified outbound mail layer for self-hosted projects.'',
      [],
      ''Usage:'',
      ''  posthorn serve     [--config <path>] [--listen <addr>]'',
      ''  posthorn validate  [--config <path>]'',
      ''  posthorn version'',
      ''  posthorn help'',
      [],
      ''Default config path:  /etc/posthorn/config.toml'',
      ''Default listen addr:  :8080'',
      [],
      ''Examples:'',
      ''  posthorn serve --config ./posthorn.toml --listen :8080'',
      ''  posthorn validate --config ./posthorn.toml'']"

definition defaultConfig :: string where
  "defaultConfig = ''/etc/posthorn/config.toml''"

definition loadConfig :: "('l, 'c) world \<Rightarrow> string \<Rightarrow> load_error + config" where
  "loadConfig w path = Load (wd_std w) (wd_read w) (wd_env w) (wd_decode w) path"

text \<open>What serve logs: as it starts, for every endpoint and the listener it sets up, and as it ends.\<close>

definition startingLine :: "string \<Rightarrow> string \<Rightarrow> config \<Rightarrow> log_record" where
  "startingLine listen path cfg =
     \<lparr>lr_level = LevelInfo, lr_msg = ''posthorn starting'',
      lr_attrs = [(''version'', LogStr version), (''listen'', LogStr listen), (''config'', LogStr path),
                  (''endpoints'', LogInt (int (length (cf_Endpoints cfg))))]\<rparr>"

definition endpointLine :: "endpoint_config \<Rightarrow> log_record" where
  "endpointLine ep =
     \<lparr>lr_level = LevelInfo, lr_msg = ''endpoint registered'',
      lr_attrs = [(''path'', LogStr (ep_Path ep)), (''transport'', LogStr (tc_Type (ep_Transport ep))),
                  (''recipients'', LogInt (int (length (ep_To ep))))]\<rparr>"

definition listenerLine :: "smtp_listener_config \<Rightarrow> log_record" where
  "listenerLine c =
     \<lparr>lr_level = LevelInfo, lr_msg = ''smtp_listener registered'',
      lr_attrs = [(''listen'', LogStr (sl_Listen c)), (''transport'', LogStr (tc_Type (sl_Transport c))),
                  (''smtp_users'', LogInt (int (length (sl_SMTPUsers c))))]\<rparr>"

text \<open>The endpoints that \<open>registerEndpoints\<close> gets to, each logged after it is registered.\<close>

fun registrationLog ::
  "('l, 'c) world \<Rightarrow> endpoint_config list \<Rightarrow> (string \<times> ('l, 'c) route) list \<Rightarrow> log_record list" where
  "registrationLog w [] m = []"
| "registrationLog w (ep # eps) m =
     (case buildTransport (ep_Transport ep) of
        Inl err \<Rightarrow> []
      | Inr t \<Rightarrow>
          (case gateway_New (wd_engine w) (wd_std w) (wd_lops w) (wd_cops w) ep (Some t) True of
             Inl err \<Rightarrow> []
           | Inr (h, s) \<Rightarrow>
               (case mux_Handle (wd_mux w) (ep_Path ep) (Endpoint h s) m of
                  Inl p \<Rightarrow> []
                | Inr m1 \<Rightarrow> endpointLine ep # registrationLog w eps m1)))"

definition runLog :: "('l, 'c) world \<Rightarrow> woken \<Rightarrow> log_record list" where
  "runLog w woken =
     (case woken of
        IngressReturned name (Some err) \<Rightarrow> []
      | _ \<Rightarrow>
          (if woken = Signalled
           then [\<lparr>lr_level = LevelInfo, lr_msg = ''shutdown signal received'', lr_attrs = [(''signal'', LogStr (wd_signal w 0))]\<rparr>]
           else [])
          @ [case wd_again w of
               Some k \<Rightarrow> \<lparr>lr_level = LevelWarn, lr_msg = ''second signal received, forcing exit'',
                          lr_attrs = [(''signal'', LogStr (wd_signal w (if woken = Signalled then 1 else 0)))]\<rparr>
             | None \<Rightarrow> \<lparr>lr_level = LevelInfo, lr_msg = ''posthorn stopped'', lr_attrs = []\<rparr>])"

definition serveLog :: "('l, 'c) world \<Rightarrow> string \<Rightarrow> string \<Rightarrow> log_record list" where
  "serveLog w listen path =
     (case loadConfig w path of
        Inl err \<Rightarrow> []
      | Inr cfg \<Rightarrow>
          filter (\<lambda>r. buildLogger (cf_Logging cfg) \<le> lr_level r)
            (startingLine listen path cfg # registrationLog w (cf_Endpoints cfg) [] @
             (case buildMux (wd_engine w) (wd_std w) (wd_lops w) (wd_cops w) (wd_mux w) cfg of
                Inl err \<Rightarrow> []
              | Inr m \<Rightarrow>
                  (case cf_SMTPListener cfg of
                     None \<Rightarrow> runLog w (wd_woken w listen)
                   | Some c \<Rightarrow>
                       (case buildSMTPIngress (wd_std w) (wd_tls w) c of
                          Inl err \<Rightarrow> []
                        | Inr l \<Rightarrow> listenerLine c # runLog w (wd_woken w listen))))))"

text \<open>The serve command with its arguments: what it logs and how it ends.\<close>

datatype serve_result = ServeFail cmd_error | ServeDone | ServeForced | ServePanicked string

definition serveCmd :: "('l, 'c) world \<Rightarrow> string list \<Rightarrow> log_record list \<times> serve_result" where
  "serveCmd w args =
     (case flagParse [''config'', ''listen''] args [(''config'', defaultConfig), (''listen'', '':8080'')] of
        Inl err \<Rightarrow> ([], ServeFail (FlagFailed err))
      | Inr vals \<Rightarrow>
          (serveLog w (flagValue ''listen'' vals) (flagValue ''config'' vals),
           (case runServe (wd_engine w) (wd_std w) (wd_lops w) (wd_cops w) (wd_mux w) (wd_tls w) (wd_stop w) (wd_again w)
                   (wd_woken w (flagValue ''listen'' vals)) (loadConfig w (flagValue ''config'' vals)) of
              ServeReturned (Some (ServeMux (MuxPanic p))) \<Rightarrow> ServePanicked p
            | ServeReturned (Some err) \<Rightarrow> ServeFail (ServeFailed err)
            | ServeReturned None \<Rightarrow> ServeDone
            | ServeForcedExit \<Rightarrow> ServeForced)))"

text \<open>The validate command: its error, or the number of endpoints it reports.\<close>

definition validateCmd :: "('l, 'c) world \<Rightarrow> string list \<Rightarrow> cmd_error + nat" where
  "validateCmd w args =
     (case flagParse [''config''] args [(''config'', defaultConfig)] of
        Inl err \<Rightarrow> Inl (FlagFailed err)
      | Inr vals \<Rightarrow>
          map_sum ValidateFailed id
            (runValidate (wd_engine w) (wd_std w) (wd_lops w) (wd_cops w) (loadConfig w (flagValue ''config'' vals))))"

text \<open>main, with os.Args. What the flag package itself prints of a flag error is left out.\<close>

definition posthorn_main :: "('l, 'c) world \<Rightarrow> string list \<Rightarrow> process" where
  "posthorn_main w osArgs =
     (case osArgs of
        _ # cmd # args \<Rightarrow>
          (if cmd = ''serve'' then
             (let (log, result) = serveCmd w args; out = map Record log in
              case result of
                ServeFail err \<Rightarrow> \<lparr>p_exit = 1, p_out = out, p_err = [ErrorLine err]\<rparr>
              | ServeDone \<Rightarrow> \<lparr>p_exit = 0, p_out = out, p_err = []\<rparr>
              | ServeForced \<Rightarrow> \<lparr>p_exit = 1, p_out = out, p_err = []\<rparr>
              | ServePanicked p \<Rightarrow> \<lparr>p_exit = 2, p_out = out, p_err = [PanicTrace p]\<rparr>)
           else if cmd = ''validate'' then
             (case validateCmd w args of
                Inl err \<Rightarrow> \<lparr>p_exit = 1, p_out = [], p_err = [ErrorLine err]\<rparr>
              | Inr n \<Rightarrow>
                  \<lparr>p_exit = 0, p_out = [Text (''config OK: '' @ showNat n @ '' endpoint(s)'' @ [CHR 0x0A])], p_err = []\<rparr>)
           else if cmd = ''version'' \<or> cmd = ''-v'' \<or> cmd = ''--version'' then
             \<lparr>p_exit = 0, p_out = [Text (''posthorn '' @ version @ [CHR 0x0A])], p_err = []\<rparr>
           else if cmd = ''help'' \<or> cmd = ''-h'' \<or> cmd = ''--help'' then
             \<lparr>p_exit = 0, p_out = [Text usage], p_err = []\<rparr>
           else
             \<lparr>p_exit = 2, p_out = [],
              p_err = [Text (''posthorn: unknown command '' @ wd_quote w cmd @ [CHR 0x0A, CHR 0x0A] @ usage)]\<rparr>)
      | _ \<Rightarrow> \<lparr>p_exit = 2, p_out = [], p_err = [Text usage]\<rparr>)"

subsection \<open>Flags are read as given\<close>

lemma flagToken_plain:
  assumes "name \<noteq> []" and "hd name \<noteq> CHR ''-''" and "CHR ''='' \<notin> set name"
  shows "flagToken (''--'' @ name) = Flag name None" "flagToken (CHR ''-'' # name) = Flag name None"
proof -
  obtain c cs where name: "name = c # cs" using assms(1) by (cases name) auto
  with assms have "indexByte name CHR ''='' = None" "c \<noteq> CHR ''-''" "c \<noteq> CHR ''=''" by (auto simp: indexByte_None)
  with name show "flagToken (''--'' @ name) = Flag name None" "flagToken (CHR ''-'' # name) = Flag name None"
    by (simp_all add: flagToken_def)
qed

text \<open>The value behind a flag is taken as it is, also if it starts with a hyphen.\<close>

lemma flagParse_pair:
  assumes "name \<in> set names" and "name \<noteq> []" and "hd name \<noteq> CHR ''-''" and "CHR ''='' \<notin> set name"
  shows "flagParse names ((''--'' @ name) # v # rest) vals = flagParse names rest (mapSet name v vals)"
  using assms flagToken_plain(1) [OF assms(2-4)] by (simp add: flagParse.simps(2))

declare flagParse.simps(2) [simp del]

lemma serve_flags:
  "flagParse [''config'', ''listen''] [''--config'', path] [(''config'', defaultConfig), (''listen'', '':8080'')] =
     Inr [(''config'', path), (''listen'', '':8080'')]"
  using flagParse_pair [of "''config''" "[''config'', ''listen'']" path "[]"] by simp

lemma validate_flags: "flagParse [''config''] [''--config'', path] [(''config'', defaultConfig)] = Inr [(''config'', path)]"
  using flagParse_pair [of "''config''" "[''config'']" path "[]"] by simp

subsection \<open>Exit statuses\<close>

text \<open>An unknown flag fails the command with status 1, as any error of it; 2 is an unknown command's.\<close>

lemma flag_error_exits_1:
  "p_exit (posthorn_main w [prog, ''serve'', ''--port'', ''80'']) = 1"
  "p_exit (posthorn_main w [prog, ''serve'', ''-h'']) = 1"
  "p_exit (posthorn_main w [prog, ''run'']) = 2"
proof -
  have "flagToken ''--port'' = Flag ''port'' None" "flagToken ''-h'' = Flag ''h'' None" by code_simp+
  then show "p_exit (posthorn_main w [prog, ''serve'', ''--port'', ''80'']) = 1"
    "p_exit (posthorn_main w [prog, ''serve'', ''-h'']) = 1"
    by (simp_all add: posthorn_main_def serveCmd_def flagParse.simps(2))
  show "p_exit (posthorn_main w [prog, ''run'']) = 2" by (simp add: posthorn_main_def)
qed

lemma validate_exit_0:
  "p_exit (posthorn_main w [prog, ''validate'', ''--config'', path]) = 0 \<longleftrightarrow>
     (\<exists>n. runValidate (wd_engine w) (wd_std w) (wd_lops w) (wd_cops w) (loadConfig w path) = Inr n)"
  by (auto simp: posthorn_main_def validateCmd_def validate_flags flagValue_def map_sum_def split: sum.splits)

lemma Load_valid: "loadConfig w path = Inr cfg \<Longrightarrow> Config_Validate (wd_std w) cfg = None"
  by (auto simp: loadConfig_def Load_def split: sum.splits option.splits)

lemma registrationLog_all:
  "registerEndpoints (wd_engine w) (wd_std w) (wd_lops w) (wd_cops w) (wd_mux w) i eps m = Inr m' \<Longrightarrow>
   registrationLog w eps m = map endpointLine eps"
  by (induction eps arbitrary: i m) (auto split: sum.splits prod.splits)

lemma buildMux_registered:
  "buildMux e g lops cops lib cfg = Inr m \<Longrightarrow> \<exists>rs. registerEndpoints e g lops cops lib 0 (cf_Endpoints cfg) [] = Inr rs"
  by (auto simp: buildMux_def split: sum.splits)

text \<open>A validated file with an endpoint at /healthz: serve panics after it has logged every endpoint.\<close>

lemma reserved_path_exits_2:
  assumes "servemux (wd_mux w)" and "p_exit (posthorn_main w [prog, ''validate'', ''--config'', path]) = 0"
    and "loadConfig w path = Inr cfg" and "list_all plainPath (map ep_Path (cf_Endpoints cfg))"
    and "''/healthz'' \<in> ep_Path ` set (cf_Endpoints cfg)"
  shows "p_exit (posthorn_main w [prog, ''serve'', ''--config'', path]) = 2"
proof -
  obtain n where "runValidate (wd_engine w) (wd_std w) (wd_lops w) (wd_cops w) (Inr cfg) = Inr n"
    using assms(2,3) validate_exit_0 [of w prog path] by auto
  then have "buildMux (wd_engine w) (wd_std w) (wd_lops w) (wd_cops w) (wd_mux w) cfg = Inl (MuxPanic ''/healthz'')"
    using reserved_path_panics(1) [OF assms(1) Load_valid [OF assms(3)] _ assms(4,5)] by blast
  then have "snd (serveCmd w [''--config'', path]) = ServePanicked ''/healthz''"
    by (simp add: serveCmd_def serve_flags flagValue_def runServe_def buildIngresses_def assms(3))
  then show ?thesis by (simp add: posthorn_main_def case_prod_unfold Let_def)
qed

text \<open>
  C40: a file that validate accepts is served. Take a configuration file without an SMTP listener,
  whose endpoint paths are plain and none of the two fixed ones, for which the validate command
  exits with status 0. Then the serve command with the same file starts, runs until the first
  signal, and, when the HTTP server drains, prints no error and exits with status 0. Main itself
  logs, where the configured level lets it, that it starts, every endpoint in order, the signal, and
  that it stopped, and nothing else.
\<close>

theorem validated_file_is_served:
  assumes "servemux (wd_mux w)" and "p_exit (posthorn_main w [prog, ''validate'', ''--config'', path]) = 0"
    and "loadConfig w path = Inr cfg" and "cf_SMTPListener cfg = None"
    and "list_all plainPath (map ep_Path (cf_Endpoints cfg))"
    and "''/healthz'' \<notin> ep_Path ` set (cf_Endpoints cfg)" "''/metrics'' \<notin> ep_Path ` set (cf_Endpoints cfg)"
    and "wd_woken w '':8080'' = Signalled" and "wd_again w = None" and "wd_stop w ''http'' = None"
  shows "p_exit (posthorn_main w [prog, ''serve'', ''--config'', path]) = 0 \<and>
    p_err (posthorn_main w [prog, ''serve'', ''--config'', path]) = [] \<and>
    p_out (posthorn_main w [prog, ''serve'', ''--config'', path]) =
      (if lg_Level (cf_Logging cfg) \<in> {''warn'', ''error''} then []
       else map Record
         (\<lparr>lr_level = LevelInfo, lr_msg = ''posthorn starting'',
           lr_attrs = [(''version'', LogStr ''v0.0.1-dev''), (''listen'', LogStr '':8080''), (''config'', LogStr path),
                       (''endpoints'', LogInt (int (length (cf_Endpoints cfg))))]\<rparr>
          # map (\<lambda>ep. \<lparr>lr_level = LevelInfo, lr_msg = ''endpoint registered'',
                lr_attrs = [(''path'', LogStr (ep_Path ep)), (''transport'', LogStr (tc_Type (ep_Transport ep))),
                            (''recipients'', LogInt (int (length (ep_To ep))))]\<rparr>) (cf_Endpoints cfg)
          @ [\<lparr>lr_level = LevelInfo, lr_msg = ''shutdown signal received'', lr_attrs = [(''signal'', LogStr (wd_signal w 0))]\<rparr>,
             \<lparr>lr_level = LevelInfo, lr_msg = ''posthorn stopped'', lr_attrs = []\<rparr>]))"
proof -
  obtain n where "runValidate (wd_engine w) (wd_std w) (wd_lops w) (wd_cops w) (Inr cfg) = Inr n"
    using assms(2,3) validate_exit_0 [of w prog path] by auto
  then obtain m where m: "buildMux (wd_engine w) (wd_std w) (wd_lops w) (wd_cops w) (wd_mux w) cfg = Inr m"
    using buildMux_routes [OF assms(1) Load_valid [OF assms(3)] _ assms(5-7)] by blast
  then have log: "registrationLog w (cf_Endpoints cfg) [] = map endpointLine (cf_Endpoints cfg)"
    using buildMux_registered registrationLog_all by blast
  have info: "buildLogger (cf_Logging cfg) \<le> LevelInfo \<longleftrightarrow> lg_Level (cf_Logging cfg) \<notin> {''warn'', ''error''}"
    by (auto simp: buildLogger_def less_eq_level_def)
  note defs = posthorn_main_def serveCmd_def serve_flags flagValue_def runServe_def buildIngresses_def runIngressesUntilSignal_def
  have "serveLog w '':8080'' path = (if lg_Level (cf_Logging cfg) \<in> {''warn'', ''error''} then []
      else startingLine '':8080'' path cfg # map endpointLine (cf_Endpoints cfg) @ runLog w Signalled)"
  proof (cases "lg_Level (cf_Logging cfg) \<in> {''warn'', ''error''}")
    case True
    with info have "\<not> buildLogger (cf_Logging cfg) \<le> LevelInfo" by simp
    with True show ?thesis
      using assms(3,4,8,9) m log by (auto simp: serveLog_def startingLine_def endpointLine_def runLog_def filter_empty_conv)
  next
    case False
    with info have "buildLogger (cf_Logging cfg) \<le> LevelInfo" by simp
    with False show ?thesis
      using assms(3,4,8,9) m log by (simp add: serveLog_def startingLine_def endpointLine_def runLog_def filter_map comp_def)
  qed
  with assms(3,4,8-10) m show ?thesis
    by (simp add: defs startingLine_def endpointLine_def [abs_def] runLog_def version_def)
qed

definition sampleWorld :: "((string, nat) use_list, (string, idem_entry) use_list) world" where
  "sampleWorld =
     \<lparr>wd_engine = sampleEngine, wd_std = sampleStd, wd_quote = (\<lambda>s. s), wd_lops = list_lru, wd_cops = list_lru,
      wd_mux = plainMux, wd_tls = \<lparr>loadKeyPair = (\<lambda>_ _. True), readCA = (\<lambda>_. None), certsInPEM = (\<lambda>_. True)\<rparr>,
      wd_read = (\<lambda>path. if path = ''p.toml'' then Inr [] else Inl ''no such file''),
      wd_env = (\<lambda>_. None), wd_decode = (\<lambda>_. Inr sampleConfig), wd_woken = (\<lambda>_. Signalled), wd_stop = (\<lambda>_. None),
      wd_again = None, wd_signal = (\<lambda>_. ''terminated'')\<rparr>"

lemma sampleWorld_load: "loadConfig sampleWorld ''p.toml'' = Inr sampleConfig"
  using sampleConfig_valid by (simp add: loadConfig_def Load_def sampleWorld_def resolveEnvVars_def)

theorem validated_file_is_served_witness:
  "p_exit (posthorn_main sampleWorld [''posthorn'', ''serve'', ''--config'', ''p.toml'']) = 0 \<and>
   p_err (posthorn_main sampleWorld [''posthorn'', ''serve'', ''--config'', ''p.toml'']) = [] \<and>
   map (\<lambda>l. case l of Record r \<Rightarrow> lr_msg r | _ \<Rightarrow> []) (p_out (posthorn_main sampleWorld [''posthorn'', ''serve'', ''--config'', ''p.toml''])) =
     [''posthorn starting'', ''endpoint registered'', ''shutdown signal received'', ''posthorn stopped'']"
proof -
  have mux: "servemux (wd_mux sampleWorld)" using plain.servemux_axioms by (simp add: sampleWorld_def)
  have ok: "p_exit (posthorn_main sampleWorld [''posthorn'', ''validate'', ''--config'', ''p.toml'']) = 0"
    using sampleConfig_runValidate unfolding validate_exit_0 sampleWorld_load by (simp add: sampleWorld_def)
  have plain: "list_all plainPath (map ep_Path (cf_Endpoints sampleConfig))" by (simp add: sampleConfig_def plainPath_def)
  have cfg: "cf_SMTPListener sampleConfig = None" "''/healthz'' \<notin> ep_Path ` set (cf_Endpoints sampleConfig)"
    "''/metrics'' \<notin> ep_Path ` set (cf_Endpoints sampleConfig)" "lg_Level (cf_Logging sampleConfig) = []"
    "length (cf_Endpoints sampleConfig) = 1" "cf_Endpoints sampleConfig = [sampleEndpoint]"
    "wd_woken sampleWorld '':8080'' = Signalled" "wd_again sampleWorld = None" "wd_stop sampleWorld ''http'' = None"
    by (simp_all add: sampleConfig_def sampleWorld_def)
  show ?thesis
    using validated_file_is_served [OF mux ok sampleWorld_load cfg(1) plain cfg(2,3,7,8,9)] cfg(4,6) by simp
qed

end
