(* ===== verification/GoDuration.thy ===== *)
theory GoDuration
  imports GoNum Float64
begin

text \<open>
  core/config/config.go, Duration.UnmarshalText: a duration text of the configuration. The
  parser is time.ParseDuration of Go's library, with its overflow checks and the float64
  arithmetic of fractions.
\<close>

subsection \<open>Numbers and units\<close>

datatype duration_error = InvalidDuration string | MissingUnit string | UnknownUnit string string

fun leadingInt :: "nat \<Rightarrow> string \<Rightarrow> (nat \<times> string) option" where
  "leadingInt x [] = Some (x, [])"
| "leadingInt x (c # s) =
     (if \<not> isDigit c then Some (x, c # s)
      else if 2 ^ 63 div 10 < x then None
      else (let x1 = x * 10 + digitVal c in if 2 ^ 63 < x1 then None else leadingInt x1 s))"

text \<open>The digits of a fraction that fit, and their scale as a float64.\<close>

fun leadingFraction :: "nat \<Rightarrow> rat \<Rightarrow> bool \<Rightarrow> string \<Rightarrow> nat \<times> rat \<times> string" where
  "leadingFraction x scale overflow [] = (x, scale, [])"
| "leadingFraction x scale overflow (c # s) =
     (if \<not> isDigit c then (x, scale, c # s)
      else if overflow then leadingFraction x scale True s
      else if (2 ^ 63 - 1) div 10 < x then leadingFraction x scale True s
      else (let y = x * 10 + digitVal c in
            if 2 ^ 63 < y then leadingFraction x scale True s else leadingFraction y (f64 (scale * 10)) False s))"

definition unitMap :: "(string \<times> nat) list" where
  "unitMap =
     [(''ns'', 1), (''us'', 1000), ([CHR 0xC2, CHR 0xB5] @ ''s'', 1000), ([CHR 0xCE, CHR 0xBC] @ ''s'', 1000),
      (''ms'', 1000000), (''s'', 1000000000), (''m'', 60000000000), (''h'', 3600000000000)]"

definition unitChar :: "char \<Rightarrow> bool" where
  "unitChar c \<longleftrightarrow> c \<noteq> CHR ''.'' \<and> \<not> isDigit c"

text \<open>The fraction of a group, if it has one: its digits, their scale, the rest, and whether it had any.\<close>

definition fraction :: "string \<Rightarrow> nat \<times> rat \<times> string \<times> bool" where
  "fraction s =
     (case s of
        [] \<Rightarrow> (0, 1, s, False)
      | c # s' \<Rightarrow>
          if c = CHR ''.'' then
            (case leadingFraction 0 1 False s' of (f, scale, r) \<Rightarrow> (f, scale, r, length r \<noteq> length s'))
          else (0, 1, s, False))"

lemma leadingInt_shorter: "leadingInt x s = Some (v, r) \<Longrightarrow> length r \<le> length s"
  by (induction x s rule: leadingInt.induct) (auto simp: Let_def split: if_splits intro: le_SucI)

lemma leadingFraction_shorter: "leadingFraction x sc ov s = (f, sc', r) \<Longrightarrow> length r \<le> length s"
  by (induction x sc ov s rule: leadingFraction.induct) (auto simp: Let_def split: if_splits intro: le_SucI)

lemma fraction_shorter: "fraction s = (f, sc, r, post) \<Longrightarrow> length r \<le> length s"
  by (auto simp: fraction_def split: list.splits if_splits prod.splits dest: leadingFraction_shorter intro: le_SucI)

subsection \<open>The loop over the groups\<close>

lemma dropWhile_shorter: "takeWhile P s \<noteq> [] \<Longrightarrow> length (dropWhile P s) < length s"
  by (cases s) (auto split: if_splits intro: le_imp_less_Suc length_dropWhile_le)

text \<open>\<open>d\<close> is the uint64 sum so far.\<close>

function parseGroups :: "string \<Rightarrow> nat \<Rightarrow> string \<Rightarrow> duration_error + nat" where
  "parseGroups orig d s =
     (if s = [] then Inr d
      else if hd s \<noteq> CHR ''.'' \<and> \<not> isDigit (hd s) then Inl (InvalidDuration orig)
      else
        (case leadingInt 0 s of
           None \<Rightarrow> Inl (InvalidDuration orig)
         | Some (v, s1) \<Rightarrow>
             (case fraction s1 of
                (f, scale, s2, post) \<Rightarrow>
                  if length s1 = length s \<and> \<not> post then Inl (InvalidDuration orig)
                  else if takeWhile unitChar s2 = [] then Inl (MissingUnit orig)
                  else
                    (case map_of unitMap (takeWhile unitChar s2) of
                       None \<Rightarrow> Inl (UnknownUnit (takeWhile unitChar s2) orig)
                     | Some unit \<Rightarrow>
                         if 2 ^ 63 div unit < v then Inl (InvalidDuration orig)
                         else
                           (let v1 = v * unit;
                                v2 = (if 0 < f
                                      then (v1 + nat \<lfloor>f64 (f64 (of_nat f) * f64 (of_nat unit / scale))\<rfloor>) mod 2 ^ 64
                                      else v1);
                                d1 = (d + v2) mod 2 ^ 64
                            in if 0 < f \<and> 2 ^ 63 < v2 then Inl (InvalidDuration orig)
                               else if 2 ^ 63 < d1 then Inl (InvalidDuration orig)
                               else parseGroups orig d1 (dropWhile unitChar s2))))))"
  by pat_completeness auto
termination
  by (relation "measure (\<lambda>(orig, d, s). length s)")
    (auto dest!: leadingInt_shorter fraction_shorter [OF sym] dropWhile_shorter)

declare parseGroups.simps [simp del]

definition ParseDuration :: "string \<Rightarrow> duration_error + duration" where
  "ParseDuration s =
     (let signed = (s \<noteq> [] \<and> (hd s = CHR ''-'' \<or> hd s = CHR ''+''));
          neg = (signed \<and> hd s = CHR ''-'');
          rest = (if signed then tl s else s)
      in if rest = ''0'' then Inr 0
         else if rest = [] then Inl (InvalidDuration s)
         else
           (case parseGroups s 0 rest of
              Inl err \<Rightarrow> Inl err
            | Inr d \<Rightarrow>
                if neg then Inr (- int d)
                else if 2 ^ 63 - 1 < d then Inl (InvalidDuration s)
                else Inr (int d)))"

text \<open>Duration.UnmarshalText and Duration.Std; on an error the value stays as it was.\<close>

definition UnmarshalText :: "string \<Rightarrow> duration \<Rightarrow> duration_error option \<times> duration" where
  "UnmarshalText text d =
     (case ParseDuration text of Inl err \<Rightarrow> (Some err, d) | Inr parsed \<Rightarrow> (None, parsed))"

definition Std :: "duration \<Rightarrow> duration" where
  "Std d = d"

subsection \<open>Lemmas\<close>

lemma readNat_ge: "readNat acc s = Some n \<Longrightarrow> acc \<le> n"
  by (induction acc s rule: readNat.induct) (fastforce split: if_splits)+

lemma leadingInt_digits:
  assumes "readNat x ds = Some n" and "n \<le> 2 ^ 63" and "s = [] \<or> \<not> isDigit (hd s)"
  shows "leadingInt x (ds @ s) = Some (n, s)"
  using assms
proof (induction x ds rule: readNat.induct)
  case (1 acc)
  then show ?case by (cases s) auto
next
  case (2 acc c cs)
  then have digits: "isDigit c" "readNat (10 * acc + digitVal c) cs = Some n" by (auto split: if_splits)
  then have "10 * acc + digitVal c \<le> n" using readNat_ge by blast
  with 2 digits show ?case by (simp add: Let_def mult.commute)
qed

text \<open>The text of a list of whole numbers with units, such as 1h30m.\<close>

definition groupsText :: "(nat \<times> string) list \<Rightarrow> string" where
  "groupsText gs = concat (map (\<lambda>(n, u). showNat n @ u) gs)"

definition groupsValue :: "(nat \<times> string) list \<Rightarrow> nat" where
  "groupsValue gs = sum_list (map (\<lambda>(n, u). n * the (map_of unitMap u)) gs)"

lemma unit_props:
  assumes "map_of unitMap u = Some k"
  shows "list_all unitChar u \<and> u \<noteq> [] \<and> 0 < k"
proof -
  have "list_all (\<lambda>(u, k). list_all unitChar u \<and> u \<noteq> [] \<and> 0 < k) unitMap"
    by (simp add: unitMap_def unitChar_def isDigit_def)
  with map_of_SomeD [OF assms] show ?thesis by (auto simp: list_all_iff)
qed

lemma groupsText_start: "s = groupsText gs \<Longrightarrow> s = [] \<or> isDigit (hd s)"
proof (cases gs)
  case (Cons g gs')
  moreover assume "s = groupsText gs"
  moreover have "isDigit (hd (showNat n))" for n by (rule showNat_digits [of _ n]) simp
  ultimately show ?thesis by (cases g) (simp add: groupsText_def)
qed (simp add: groupsText_def)

lemma parseGroups_value:
  assumes "list_all (\<lambda>(n, u). u \<in> fst ` set unitMap) gs" and "d + groupsValue gs \<le> 2 ^ 63"
  shows "parseGroups orig d (groupsText gs) = Inr (d + groupsValue gs)"
  using assms
proof (induction gs arbitrary: d)
  case Nil
  then show ?case by (simp add: parseGroups.simps groupsText_def groupsValue_def)
next
  case (Cons g gs)
  obtain n u where g: "g = (n, u)" by (cases g)
  with Cons.prems(1) obtain k where k: "map_of unitMap u = Some k"
    by (metis (no_types, lifting) case_prod_conv list.pred_inject(2) map_of_eq_None_iff option.exhaust)
  note u = unit_props [OF k]
  let ?rest = "groupsText gs"
  have val: "d + n * k + groupsValue gs \<le> 2 ^ 63" using Cons.prems(2) g k by (simp add: groupsValue_def add.assoc)
  then have small: "n * k \<le> 2 ^ 63" "n \<le> 2 ^ 63"
    using u by (simp, metis add_leD1 add_leD2 le_trans mult.commute mult_le_mono2 nat_mult_1 Suc_leI One_nat_def)
  have s: "groupsText (g # gs) = showNat n @ u @ ?rest" by (simp add: groupsText_def g)
  have int: "leadingInt 0 (showNat n @ u @ ?rest) = Some (n, u @ ?rest)"
    by (rule leadingInt_digits [OF readNat_showNat small(2)]) (use u in \<open>cases u; simp add: unitChar_def\<close>)
  have frac: "fraction (u @ ?rest) = (0, 1, u @ ?rest, False)"
    using u by (cases u) (auto simp: fraction_def unitChar_def)
  have rest: "?rest = [] \<or> \<not> unitChar (hd ?rest)" using groupsText_start [of ?rest gs] by (auto simp: unitChar_def)
  have take: "takeWhile unitChar (u @ ?rest) = u" and drop: "dropWhile unitChar (u @ ?rest) = ?rest"
    using u rest by (cases ?rest; simp add: list_all_iff takeWhile_append dropWhile_append)+
  have hd: "isDigit (hd (showNat n @ u @ ?rest))" using showNat_digits [of "hd (showNat n)" n] by simp
  have "n \<le> 2 ^ 63 div k" using small(1) u by (simp add: less_eq_div_iff_mult_less_eq)
  then have "parseGroups orig d (groupsText (g # gs)) = parseGroups orig (d + n * k) ?rest"
    unfolding s by (subst parseGroups.simps) (use int frac take drop hd u k val in \<open>simp add: Let_def\<close>)
  also have "\<dots> = Inr (d + n * k + groupsValue gs)"
    using Cons.IH [of "d + n * k"] Cons.prems(1) val by simp
  finally show ?case using g k by (simp add: groupsValue_def)
qed

text \<open>
  A duration text of whole numbers with units denotes their sum, whatever the units and their
  order, as long as it fits an int64; the sign and the error values follow the parser.
\<close>

lemma UnmarshalText_value:
  assumes "list_all (\<lambda>(n, u). u \<in> fst ` set unitMap) gs" and "gs \<noteq> []" and "groupsValue gs < 2 ^ 63"
  shows "UnmarshalText (groupsText gs) d = (None, int (groupsValue gs))"
proof -
  let ?s = "groupsText gs"
  obtain n u gs' where gs: "gs = (n, u) # gs'" using assms(2) by (cases gs) auto
  with assms(1) obtain k where k: "map_of unitMap u = Some k"
    by (metis (no_types, lifting) case_prod_conv list.pred_inject(2) map_of_eq_None_iff option.exhaust)
  have s: "?s = showNat n @ u @ groupsText gs'" by (simp add: groupsText_def gs)
  have "isDigit (hd ?s)" "?s \<noteq> []" using showNat_digits [of "hd (showNat n)" n] by (simp_all add: s)
  moreover have "?s \<noteq> ''0''"
    using unit_props [OF k] by (cases "showNat n"; cases u) (auto simp: s)
  moreover have "parseGroups ?s 0 ?s = Inr (groupsValue gs)" using parseGroups_value [of gs 0 ?s] assms by simp
  ultimately show ?thesis
    using isDigit_not_sign [of "hd ?s"] assms(3) by (auto simp: UnmarshalText_def ParseDuration_def Let_def)
qed

lemma UnmarshalText_failure: "fst (UnmarshalText text d) \<noteq> None \<Longrightarrow> snd (UnmarshalText text d) = d"
  by (auto simp: UnmarshalText_def split: sum.splits)

lemma UnmarshalText_no_unit:
  assumes "0 < n" and "n \<le> 2 ^ 63"
  shows "UnmarshalText (showNat n) d = (Some (MissingUnit (showNat n)), d)"
proof -
  have hd: "isDigit (hd (showNat n))" using showNat_digits [of "hd (showNat n)" n] by simp
  have "readNat 0 ''0'' = Some 0" by (simp add: isDigit_def digitVal_def)
  then have "showNat n \<noteq> ''0''" using readNat_showNat [of n] assms(1) by auto
  moreover have "leadingInt 0 (showNat n) = Some (n, [])"
    using leadingInt_digits [OF readNat_showNat assms(2), of "[]"] by simp
  then have "parseGroups s 0 (showNat n) = Inl (MissingUnit s)" for s
    using hd by (subst parseGroups.simps) (simp add: fraction_def)
  ultimately show ?thesis
    using isDigit_not_sign [OF hd] by (simp add: UnmarshalText_def ParseDuration_def Let_def)
qed

lemma duration_example: "UnmarshalText (groupsText [(1, ''h''), (30, ''m'')]) 0 = (None, 5400 * second)"
  using UnmarshalText_value [of "[(1, ''h''), (30, ''m'')]" 0] by (simp add: groupsValue_def unitMap_def)

end
