(* ===== verification/Wire.thy ===== *)
theory Wire
  imports SmtpSession SmtpOut
begin

text \<open>
  The bytes of an SMTP connection, as Go's package net/textproto writes and reads them: the
  DotWriter that the outbound transport (core/transport/smtpout.go) writes a message through, and
  the ReadLine and DotReader of the session (core/smtp/session.go). The writer and the reader are
  the state machines of that package. The session of theory SmtpSession takes lines; here they
  are cut from the bytes, and the two ends are put together.
\<close>

subsection \<open>The writer\<close>

datatype writer_state = WBegin | WBeginLine | WCR | WData

text \<open>The bytes that writing a text and closing the writer puts on the connection.\<close>

fun dotWriter :: "writer_state \<Rightarrow> bytes \<Rightarrow> bytes" where
  "dotWriter WBeginLine [] = ''.'' @ crlf"
| "dotWriter WCR [] = CHR 0x0A # ''.'' @ crlf"
| "dotWriter _ [] = crlf @ ''.'' @ crlf"
| "dotWriter WCR (c # cs) = c # dotWriter (if c = CHR 0x0A then WBeginLine else WData) cs"
| "dotWriter w (c # cs) =
     (if (w = WBegin \<or> w = WBeginLine) \<and> c = CHR ''.'' then ''.'' else [])
     @ (if c = CHR 0x0A then crlf @ dotWriter WBeginLine cs
        else c # dotWriter (if c = CHR 0x0D then WCR else WData) cs)"

subsection \<open>The reader\<close>

datatype reader_state = RBeginLine | RDot | RDotCR | RCR | RData

text \<open>Text read, whether the end was found, and the bytes after it.\<close>

abbreviation yield :: "bytes \<Rightarrow> bytes \<times> bool \<times> bytes \<Rightarrow> bytes \<times> bool \<times> bytes" where
  "yield t res \<equiv> (t @ fst res, snd res)"

text \<open>A byte that is put back after a carriage return is read again in the middle of a line.\<close>

function dotReader :: "reader_state \<Rightarrow> bytes \<Rightarrow> bytes \<times> bool \<times> bytes" where
  "dotReader s [] = ([], False, [])"
| "dotReader RBeginLine (c # cs) =
     (if c = CHR ''.'' then dotReader RDot cs
      else if c = CHR 0x0D then dotReader RCR cs
      else yield [c] (dotReader RData cs))"
| "dotReader RDot (c # cs) =
     (if c = CHR 0x0D then dotReader RDotCR cs
      else if c = CHR 0x0A then ([], True, cs)
      else yield [c] (dotReader RData cs))"
| "dotReader RDotCR (c # cs) =
     (if c = CHR 0x0A then ([], True, cs) else yield [CHR 0x0D] (dotReader RData (c # cs)))"
| "dotReader RCR (c # cs) =
     (if c = CHR 0x0A then yield [c] (dotReader RBeginLine cs) else yield [CHR 0x0D] (dotReader RData (c # cs)))"
| "dotReader RData (c # cs) =
     (if c = CHR 0x0D then dotReader RCR cs
      else if c = CHR 0x0A then yield [c] (dotReader RBeginLine cs)
      else yield [c] (dotReader RData cs))"
  by pat_completeness auto
termination by (relation "measure (\<lambda>(s, cs). 2 * length cs + (if s = RDotCR \<or> s = RCR then 1 else 0))") auto

text \<open>ReadLine: a line without its end, which is a line feed after an optional carriage return.\<close>

definition stripCR :: "string \<Rightarrow> string" where
  "stripCR l = (if l \<noteq> [] \<and> last l = CHR 0x0D then butlast l else l)"

function wireLines :: "bytes \<Rightarrow> string list" where
  "wireLines bs =
     (if bs = [] then []
      else if CHR 0x0A \<notin> set bs then [bs]
      else stripCR (takeWhile (\<lambda>c. c \<noteq> CHR 0x0A) bs) # wireLines (tl (dropWhile (\<lambda>c. c \<noteq> CHR 0x0A) bs)))"
  by pat_completeness auto
termination
  by (relation "measure length")
    (auto simp: dropWhile_eq_drop intro!: diff_less_Suc le_less_trans [OF _ lessI])

declare wireLines.simps [simp del]

subsection \<open>Lines on the wire\<close>

definition sendLines :: "string list \<Rightarrow> bytes" where
  "sendLines ls = concat (map (\<lambda>l. l @ crlf) ls)"

lemma sendLines_simps [simp]:
  "sendLines [] = []" "sendLines (l # ls) = l @ crlf @ sendLines ls" "sendLines (ls @ ls') = sendLines ls @ sendLines ls'"
  by (simp_all add: sendLines_def)

lemma wireLines_line: "CHR 0x0A \<notin> set l \<Longrightarrow> wireLines (l @ crlf @ bs) = l # wireLines bs"
  by (subst wireLines.simps) (auto simp: crlf_def takeWhile_append dropWhile_append stripCR_def)

lemma wireLines_send: "\<forall>l \<in> set ls. CHR 0x0A \<notin> set l \<Longrightarrow> wireLines (sendLines ls @ bs) = ls @ wireLines bs"
  by (induction ls) (simp_all add: wireLines_line)

lemma wireLines_Nil [simp]: "wireLines [] = []"
  by (subst wireLines.simps) simp

lemma dotReader_after_CR:
  "x \<noteq> CHR 0x0A \<Longrightarrow> s \<in> {RCR, RDotCR} \<Longrightarrow> dotReader s (x # xs) = yield [CHR 0x0D] (dotReader RData (x # xs))"
  by auto

lemma dotReader_data:
  "CHR 0x0A \<notin> set l \<Longrightarrow> dotReader RData (l @ crlf @ bs) = yield (l @ [CHR 0x0A]) (dotReader RBeginLine bs)"
proof (induction l)
  case Nil
  then show ?case by (simp add: crlf_def)
next
  case (Cons c l)
  obtain x xs where x: "l @ crlf @ bs = x # xs" "x \<noteq> CHR 0x0A" using Cons.prems by (cases l) (auto simp: crlf_def)
  with Cons show ?case by (cases "c = CHR 0x0D") auto
qed

lemma crlf_head: "l @ crlf @ bs = (if l = [] then CHR 0x0D # CHR 0x0A # bs else hd l # tl l @ crlf @ bs)"
  by (cases l) (simp_all add: crlf_def)

text \<open>A line is read with its line end made a line feed and without a leading dot; a dot alone ends the text.\<close>

lemma dotReader_line:
  assumes "CHR 0x0A \<notin> set l" and "l \<noteq> ''.''"
  shows "dotReader RBeginLine (l @ crlf @ bs) =
    yield ((if hasPrefix l ''.'' then drop 1 l else l) @ [CHR 0x0A]) (dotReader RBeginLine bs)"
proof (cases l)
  case Nil
  then show ?thesis by (simp add: crlf_def)
next
  case (Cons c l1)
  have "CHR 0x0A \<notin> set l1" using assms(1) Cons by simp
  note data = dotReader_data [OF this, of bs]
  show ?thesis
  proof (cases "c = CHR ''.''")
    case False
    obtain x xs where x: "l1 @ crlf @ bs = x # xs" "x \<noteq> CHR 0x0A" using assms(1) Cons by (cases l1) (auto simp: crlf_def)
    with False Cons data assms(1) show ?thesis by (cases "c = CHR 0x0D") auto
  next
    case True
    with Cons assms(2) obtain d l2 where l2: "l1 = d # l2" by (cases l1) auto
    obtain x xs where x: "l2 @ crlf @ bs = x # xs" "x \<noteq> CHR 0x0A" using assms(1) Cons l2 by (cases l2) (auto simp: crlf_def)
    have "CHR 0x0A \<notin> set l2" using assms(1) Cons l2 by simp
    from dotReader_data [OF this, of bs] True Cons l2 x data assms(1) show ?thesis
      by (cases "d = CHR 0x0D") auto
  qed
qed

lemma dotReader_end: "dotReader RBeginLine (''.'' @ crlf @ bs) = ([], True, bs)"
  by (simp add: crlf_def)

text \<open>The session's reader of lines is the reader of the bytes these lines are sent as.\<close>

lemma dotReader_sendLines:
  assumes "\<forall>l \<in> set ls. CHR 0x0A \<notin> set l" and "dotText ls = (b, True, rest)"
  shows "dotReader RBeginLine (sendLines ls @ bs) = (b, True, sendLines rest @ bs)"
  using assms
proof (induction ls arbitrary: b)
  case (Cons l ls)
  show ?case
  proof (cases "l = ''.''")
    case True
    with Cons.prems(2) show ?thesis using dotReader_end [of "sendLines ls @ bs"] by simp
  next
    case False
    with Cons.prems(2) obtain b1 where b1: "dotText ls = (b1, True, rest)"
      "b = (if hasPrefix l ''.'' then drop 1 l else l) @ [CHR 0x0A] @ b1"
      by (cases "dotText ls") auto
    from Cons.IH [OF _ b1(1)] Cons.prems(1) False b1(2) dotReader_line [of l "sendLines ls @ bs"] show ?thesis by simp
  qed
qed simp

subsection \<open>The lines of a message\<close>

text \<open>The first line of a text, ended by a line feed, by both, or by the end, and what follows it.\<close>

fun firstLine :: "bytes \<Rightarrow> bytes \<times> bytes" where
  "firstLine [] = ([], [])"
| "firstLine [c] = (if c = CHR 0x0D \<or> c = CHR 0x0A then ([], []) else ([c], []))"
| "firstLine (c # d # cs) =
     (if c = CHR 0x0A then ([], d # cs)
      else if c = CHR 0x0D \<and> d = CHR 0x0A then ([], cs)
      else if c = CHR 0x0D then map_prod (\<lambda>l. c # d # l) id (firstLine cs)
      else map_prod (Cons c) id (firstLine (d # cs)))"

lemma firstLine_le: "length (snd (firstLine bs)) \<le> length bs"
  by (induction bs rule: firstLine.induct) auto

lemma firstLine_shorter: "bs \<noteq> [] \<Longrightarrow> length (snd (firstLine bs)) < length bs"
  by (induction bs rule: firstLine.induct) (auto simp: le_imp_less_Suc [OF firstLine_le] less_SucI)

function textLines :: "bytes \<Rightarrow> string list" where
  "textLines bs = (if bs = [] then [] else fst (firstLine bs) # textLines (snd (firstLine bs)))"
  by pat_completeness auto
termination by (relation "measure length") (simp_all add: firstLine_shorter)

declare textLines.simps [simp del]

lemma textLines_Nil [simp]: "textLines [] = []"
  by (simp add: textLines.simps)

definition messageLines :: "bytes \<Rightarrow> string list" where
  "messageLines bs = (if bs = [] then [[]] else textLines bs)"

definition stuffed :: "string \<Rightarrow> string" where
  "stuffed l = (if hasPrefix l ''.'' then CHR ''.'' # l else l)"

lemma dotWriter_data:
  "dotWriter WData bs = fst (firstLine bs) @ crlf @ dotWriter WBeginLine (snd (firstLine bs))"
  by (induction bs rule: firstLine.induct) (auto simp: crlf_def)

lemma dotWriter_begin:
  assumes "bs \<noteq> []" and "w = WBegin \<or> w = WBeginLine"
  shows "dotWriter w bs = stuffed (fst (firstLine bs)) @ crlf @ dotWriter WBeginLine (snd (firstLine bs))"
proof -
  obtain c cs where bs: "bs = c # cs" using assms(1) by (cases bs) auto
  have "dotWriter w bs = (if c = CHR ''.'' then ''.'' else []) @ dotWriter WData bs" using assms(2) bs by auto
  moreover have "hasPrefix (fst (firstLine bs)) ''.'' \<longleftrightarrow> c = CHR ''.''" unfolding bs by (cases cs) auto
  ultimately show ?thesis by (auto simp: stuffed_def dotWriter_data)
qed

lemma dotWriter_textLines: "dotWriter WBeginLine bs = sendLines (map stuffed (textLines bs) @ [''.''])"
proof (induction bs rule: textLines.induct)
  case (1 bs)
  then show ?case by (cases "bs = []") (simp_all add: textLines.simps [of bs] dotWriter_begin)
qed

text \<open>A message goes over the wire as its lines, dots stuffed, and the dot that ends it.\<close>

lemma dotWriter_message: "dotWriter WBegin bs = sendLines (map stuffed (messageLines bs) @ [''.''])"
proof (cases "bs = []")
  case False
  then show ?thesis
    by (simp add: dotWriter_begin dotWriter_textLines messageLines_def textLines.simps [of bs])
qed (simp add: messageLines_def stuffed_def)

lemma firstLine_no_LF: "CHR 0x0A \<notin> set (fst (firstLine bs))"
  by (induction bs rule: firstLine.induct) auto

lemma textLines_no_LF: "l \<in> set (textLines bs) \<Longrightarrow> CHR 0x0A \<notin> set l"
proof (induction bs rule: textLines.induct)
  case (1 bs)
  then show ?case using firstLine_no_LF [of bs] by (cases "bs = []") (auto simp: textLines.simps [of bs])
qed

lemma messageLines_no_LF: "l \<in> set (messageLines bs) \<Longrightarrow> CHR 0x0A \<notin> set l"
  by (auto simp: messageLines_def textLines_no_LF split: if_splits)

lemma firstLine_line: "noBreaks l \<Longrightarrow> firstLine (l @ crlf @ r) = (l, r)"
proof (induction l)
  case (Cons c l)
  obtain x xs where "l @ crlf @ r = x # xs" by (cases l) (auto simp: crlf_def)
  with Cons show ?case by auto
qed (simp add: crlf_def)

lemma textLines_send: "\<forall>l \<in> set ls. noBreaks l \<Longrightarrow> textLines (sendLines ls @ bs) = ls @ textLines bs"
  by (induction ls) (auto simp: textLines.simps [of "_ @ crlf @ _"] firstLine_line, simp_all add: crlf_def)

text \<open>Lines as the text a DotReader gives, with line feeds.\<close>

definition unlines :: "string list \<Rightarrow> bytes" where
  "unlines ls = concat (map (\<lambda>l. l @ [CHR 0x0A]) ls)"

lemma dotText_stuffed: "dotText (map stuffed ls @ ''.'' # rest) = (unlines ls, True, rest)"
  using dotText_unstuffs [of ls rest] by (simp add: stuffed_def [abs_def] unlines_def)

lemma firstLine_no_CR:
  "CHR 0x0D \<notin> set bs \<Longrightarrow> bs \<noteq> [] \<Longrightarrow>
   bs = fst (firstLine bs) @ [CHR 0x0A] @ snd (firstLine bs) \<or> bs = fst (firstLine bs) \<and> snd (firstLine bs) = []"
  by (induction bs rule: firstLine.induct) auto

text \<open>A text without carriage returns is itself, with a line feed at its end.\<close>

lemma unlines_text:
  assumes "CHR 0x0D \<notin> set bs"
  shows "unlines (textLines bs) = bs @ (if bs = [] \<or> last bs = CHR 0x0A then [] else [CHR 0x0A])"
  using assms
proof (induction bs rule: textLines.induct)
  case (1 bs)
  show ?case
  proof (cases "bs = []")
    case False
    obtain l r where lr: "firstLine bs = (l, r)" by fastforce
    from firstLine_no_CR [OF 1(2) False] lr have cases: "bs = l @ [CHR 0x0A] @ r \<or> bs = l \<and> r = []" by simp
    with 1(2) have "CHR 0x0D \<notin> set r" by auto
    with 1(1) [OF False] lr have IH: "unlines (textLines r) = r @ (if r = [] \<or> last r = CHR 0x0A then [] else [CHR 0x0A])" by simp
    have "CHR 0x0A \<notin> set l" using firstLine_no_LF [of bs] lr by simp
    have eq: "unlines (textLines bs) = l @ [CHR 0x0A] @ unlines (textLines r)"
      using False lr by (simp add: textLines.simps [of bs] unlines_def)
    from cases show ?thesis
    proof
      assume "bs = l @ [CHR 0x0A] @ r"
      then show ?thesis using eq IH by simp
    next
      assume "bs = l \<and> r = []"
      moreover from this False \<open>CHR 0x0A \<notin> set l\<close> have "last bs \<noteq> CHR 0x0A" using last_in_set by metis
      ultimately show ?thesis using eq False by (simp add: unlines_def)
    qed
  qed (simp add: unlines_def)
qed

subsection \<open>From one end to the other\<close>

lemma buildRFC5322_send: "buildRFC5322 g now m = sendLines (rfcHeaders g now m @ [[]]) @ m_bodyText m"
  by (simp add: buildRFC5322_lines sendLines_def)

text \<open>The text of a mail: header lines, a blank line, and the body.\<close>

definition mailText :: "gostd \<Rightarrow> time \<Rightarrow> message \<Rightarrow> bytes" where
  "mailText g now m = unlines (rfcHeaders g now m @ [[]] @ textLines (m_bodyText m))"

lemma messageLines_build:
  assumes "list_all (\<lambda>l. noBreaks l) (rfcHeaders g now m)"
  shows "messageLines (buildRFC5322 g now m) = rfcHeaders g now m @ [[]] @ textLines (m_bodyText m)"
proof -
  have "sendLines (rfcHeaders g now m @ [[]]) \<noteq> []" by (simp add: crlf_def)
  moreover have "\<forall>l \<in> set (rfcHeaders g now m @ [[]]). noBreaks l" using assms by (auto simp: list_all_iff)
  ultimately show ?thesis using textLines_send [of "rfcHeaders g now m @ [[]]" "m_bodyText m"]
    by (simp add: messageLines_def buildRFC5322_send del: sendLines_simps)
qed

text \<open>
  C11: mail survives the wire. The bytes that the outbound transport writes for a checked message
  are read by a DotReader as exactly the fixed header lines, a blank line and the body with its
  line ends made line feeds, whatever bytes the body holds: no line of it ends the message early,
  and the commands behind it are read as commands. A session of this program at the other end of
  the connection, with recipients and a cap that is not exceeded, hands that text to the MIME
  parser and goes on with the next command. A body without carriage returns arrives as it is,
  with a line feed at its end.
\<close>

theorem mail_survives_the_wire:
  assumes "validateNoHeaderCRLF m = None" and "noBreaks (mimeBEncode g (m_subject m))"
    and "\<forall>l \<in> set cmds. CHR 0x0A \<notin> set l"
    and "transaction s" and "rcptTo s \<noteq> []" and "e_writes e = None"
    and "int (length (mailText g now m)) \<le> e_maxBody e" and "e_maxBody e < 2 ^ 63 - 1"
    and "input s = wireLines (dotWriter WBegin (buildRFC5322 g now m) @ sendLines cmds)"
  shows "dotReader RBeginLine (dotWriter WBegin (buildRFC5322 g now m) @ sendLines cmds) =
      (mailText g now m, True, sendLines cmds) \<and>
    (let s' = (reply e 354 ''End data with <CR><LF>.<CR><LF>'' s)\<lparr>input := cmds\<rparr> in
     handleDATA e s =
       (case parseMIMEToMessage (e_mime e) (mailText g now m) (mailFrom s) (rcptTo s) of
          Inl err \<Rightarrow> resetTransaction (reply e 550 (''5.6.0 Malformed message: '' @ err) s')
        | Inr msg \<Rightarrow> handOver e msg (int (length (mailText g now m))) s')) \<and>
    (CHR 0x0D \<notin> set (m_bodyText m) \<longrightarrow>
       mailText g now m = unlines (rfcHeaders g now m @ [[]]) @ m_bodyText m
         @ (if m_bodyText m = [] \<or> last (m_bodyText m) = CHR 0x0A then [] else [CHR 0x0A]))"
proof -
  let ?ls = "map stuffed (messageLines (buildRFC5322 g now m)) @ [''.'']"
  have ls: "messageLines (buildRFC5322 g now m) = rfcHeaders g now m @ [[]] @ textLines (m_bodyText m)"
    by (rule messageLines_build) (use headers_fixed [OF assms(1,2)] in blast)
  have wire: "dotWriter WBegin (buildRFC5322 g now m) = sendLines ?ls" by (rule dotWriter_message)
  have noLF: "\<forall>l \<in> set (?ls @ cmds). CHR 0x0A \<notin> set l"
    using messageLines_no_LF assms(3) by (auto simp: stuffed_def)
  have dot: "dotText (map stuffed (messageLines (buildRFC5322 g now m)) @ ''.'' # rest) = (mailText g now m, True, rest)" for rest
    unfolding dotText_stuffed by (simp add: mailText_def ls)
  then have whole: "dotText (?ls @ cmds) = (mailText g now m, True, cmds)" by simp
  have read: "dotReader RBeginLine (dotWriter WBegin (buildRFC5322 g now m) @ sendLines cmds) =
      (mailText g now m, True, sendLines cmds)"
    using dotReader_sendLines [OF noLF whole, of "[]"] by (simp add: wire)
  have inp: "input s = ?ls @ cmds"
    using wireLines_send [OF noLF, of "[]"] by (simp add: assms(9) wire)
  have "0 < e_maxBody e" using assms(7) by (simp add: mailText_def unlines_def rfcHeaders_def)
  from handleDATA_capped [OF this assms(8,4-6), of "mailText g now m" cmds] assms(7)
  have "let s' = (reply e 354 ''End data with <CR><LF>.<CR><LF>'' s)\<lparr>input := cmds\<rparr> in
     handleDATA e s =
       (case parseMIMEToMessage (e_mime e) (mailText g now m) (mailFrom s) (rcptTo s) of
          Inl err \<Rightarrow> resetTransaction (reply e 550 (''5.6.0 Malformed message: '' @ err) s')
        | Inr msg \<Rightarrow> handOver e msg (int (length (mailText g now m))) s')"
    by (simp add: inp dot Let_def)
  with read unlines_text [of "m_bodyText m"] show ?thesis
    by (auto simp: mailText_def unlines_def Let_def)
qed

text \<open>A body that looks like the end of the data, relayed to a listener with a cap of a kilobyte.\<close>

definition dottedMessage :: message where
  "dottedMessage = sampleMessage\<lparr>m_bodyText := ''.'' @ [CHR 0x0A] @ ''RSET'' @ [CHR 0x0A]\<rparr>"

definition nextHop :: smtp_env where
  "nextHop = sampleSmtp\<lparr>e_maxBody := 1024\<rparr>"

definition nextSession :: session where
  "nextSession =
     (newSession (wireLines (dotWriter WBegin (buildRFC5322 sampleStd 0 dottedMessage) @ sendLines [''QUIT''])))
       \<lparr>mailFrom := ''a@b'', rcptTo := [''c@d''], transaction := True\<rparr>"

lemma nextSession_select:
  "transaction nextSession" "rcptTo nextSession = [''c@d'']" "e_writes nextHop = None" "e_maxBody nextHop = 1024"
  "input nextSession = wireLines (dotWriter WBegin (buildRFC5322 sampleStd 0 dottedMessage) @ sendLines [''QUIT''])"
  "m_bodyText dottedMessage = ''.'' @ [CHR 0x0A] @ ''RSET'' @ [CHR 0x0A]"
  by (simp_all add: nextSession_def nextHop_def sampleSmtp_def newSession_def dottedMessage_def)

theorem mail_survives_the_wire_witness:
  "dotReader RBeginLine (dotWriter WBegin (buildRFC5322 sampleStd 0 dottedMessage) @ sendLines [''QUIT'']) =
     (unlines (rfcHeaders sampleStd 0 dottedMessage @ [[], ''.'', ''RSET'']), True, ''QUIT'' @ crlf)"
proof -
  have "validateNoHeaderCRLF dottedMessage = None" by code_simp
  moreover have "noBreaks (mimeBEncode sampleStd (m_subject dottedMessage))" by code_simp
  moreover have "int (length (mailText sampleStd 0 dottedMessage)) \<le> e_maxBody nextHop" by code_simp
  ultimately show ?thesis
    using mail_survives_the_wire [of dottedMessage sampleStd "[''QUIT'']" nextSession nextHop 0]
    by (simp add: nextSession_select unlines_def)
qed

end
