(* ===== verification/ListenerConcurrent.thy ===== *)
theory ListenerConcurrent
  imports Lifecycle
begin

text \<open>
  The SMTP listener of core/smtp/listener.go while it stops. Start runs in a goroutine of its own,
  every accepted connection in another, and Stop is called from main; they meet in the socket, in
  the mutex, in the channel that Stop closes and in the wait group that counts sessions. Each
  goroutine is cut into the steps between those, and the steps interleave freely.
\<close>

subsection \<open>The steps\<close>

text \<open>
  Where Start stands: not begun; bound, the socket not yet in the listener's field; waiting in
  Accept; with a connection that the wait group does not count yet; and returned, with its error.
\<close>

datatype start_phase = Unstarted | Bound | Accepting | Taken | Returned "string option"

text \<open>
  Where Stop stands: not called; inside the mutex, the socket closed; waiting for the sessions;
  and returned, drained or at the deadline.
\<close>

datatype stop_phase = Uncalled | Locked | Waiting | Drained | Abandoned

text \<open>
  \<open>lc_set\<close>: the listener's field is set; \<open>lc_open\<close>: the socket is; \<open>lc_stopped\<close>: the channel is
  closed; \<open>lc_running\<close>: the wait group; \<open>lc_begun\<close>: the sessions ever begun; \<open>lc_answers\<close>: what
  Accept returned, each time with whether the channel was closed. \<open>lc_closed\<close> records that Stop
  found a socket to close.
\<close>

record conc_listener =
  lc_start :: start_phase
  lc_stop :: stop_phase
  lc_set :: bool
  lc_open :: bool
  lc_stopped :: bool
  lc_running :: nat
  lc_begun :: nat
  lc_answers :: "(accepted \<times> bool) list"
  lc_closed :: bool

definition idle :: conc_listener where
  "idle =
     \<lparr>lc_start = Unstarted, lc_stop = Uncalled, lc_set = False, lc_open = False, lc_stopped = False,
      lc_running = 0, lc_begun = 0, lc_answers = [], lc_closed = False\<rparr>"

text \<open>What Start makes of an error of Accept.\<close>

definition acceptError :: "bool \<Rightarrow> string \<Rightarrow> string option" where
  "acceptError stopped err = (if stopped then None else Some (''smtp accept: '' @ err))"

inductive listener_step :: "conc_listener \<Rightarrow> conc_listener \<Rightarrow> bool" where
  bindFails: "lc_start s = Unstarted \<Longrightarrow> listener_step s (s\<lparr>lc_start := Returned (Some (''smtp listen: '' @ err))\<rparr>)"
| bind: "lc_start s = Unstarted \<Longrightarrow> listener_step s (s\<lparr>lc_start := Bound, lc_open := True\<rparr>)"
| publish: "lc_start s = Bound \<Longrightarrow> lc_stop s \<noteq> Locked \<Longrightarrow>
    listener_step s (s\<lparr>lc_start := Accepting, lc_set := True\<rparr>)"
| accept: "lc_start s = Accepting \<Longrightarrow> lc_open s \<Longrightarrow>
    listener_step s (s\<lparr>lc_start := Taken, lc_answers := lc_answers s @ [(Accepted, lc_stopped s)]\<rparr>)"
| begin_session: "lc_start s = Taken \<Longrightarrow>
    listener_step s (s\<lparr>lc_start := Accepting, lc_running := Suc (lc_running s), lc_begun := Suc (lc_begun s)\<rparr>)"
| closed: "lc_start s = Accepting \<Longrightarrow> \<not> lc_open s \<Longrightarrow>
    listener_step s (s\<lparr>lc_start := Returned None, lc_answers := lc_answers s @ [(AcceptClosed, lc_stopped s)]\<rparr>)"
| fails: "lc_start s = Accepting \<Longrightarrow>
    listener_step s (s\<lparr>lc_start := Returned (acceptError (lc_stopped s) err),
                       lc_answers := lc_answers s @ [(AcceptFailed err, lc_stopped s)]\<rparr>)"
| session_ends: "lc_running s = Suc n \<Longrightarrow> listener_step s (s\<lparr>lc_running := n\<rparr>)"
| stop_locks: "lc_stop s = Uncalled \<Longrightarrow>
    listener_step s (s\<lparr>lc_stop := Locked, lc_open := lc_open s \<and> \<not> lc_set s, lc_closed := lc_set s\<rparr>)"
| stop_signals: "lc_stop s = Locked \<Longrightarrow> listener_step s (s\<lparr>lc_stop := Waiting, lc_stopped := True\<rparr>)"
| stop_drained: "lc_stop s = Waiting \<Longrightarrow> lc_running s = 0 \<Longrightarrow> listener_step s (s\<lparr>lc_stop := Drained\<rparr>)"
| stop_deadline: "lc_stop s = Waiting \<Longrightarrow> listener_step s (s\<lparr>lc_stop := Abandoned\<rparr>)"

abbreviation reachable :: "conc_listener \<Rightarrow> bool" where
  "reachable s \<equiv> listener_step\<^sup>*\<^sup>* idle s"

subsection \<open>What the goroutines keep\<close>

text \<open>A connection that was taken from the socket and is not counted yet.\<close>

definition uncounted :: "conc_listener \<Rightarrow> nat" where
  "uncounted s = (if lc_start s = Taken then 1 else 0)"

definition result :: "conc_listener \<Rightarrow> string option option" where
  "result s = (case lc_start s of Returned r \<Rightarrow> Some r | _ \<Rightarrow> None)"

definition keeps :: "conc_listener \<Rightarrow> bool" where
  "keeps s \<longleftrightarrow>
     (lc_set s \<longrightarrow> lc_start s \<noteq> Unstarted \<and> lc_start s \<noteq> Bound) \<and>
     (lc_stop s = Uncalled \<longrightarrow> \<not> lc_closed s) \<and>
     (lc_stopped s \<longleftrightarrow> lc_stop s \<in> {Waiting, Drained, Abandoned}) \<and>
     (lc_closed s \<longrightarrow> lc_set s \<and> \<not> lc_open s) \<and>
     (lc_closed s \<and> lc_stop s = Drained \<longrightarrow> lc_running s + uncounted s \<le> 1) \<and>
     lc_running s \<le> lc_begun s"

lemma keeps_step: "listener_step s s' \<Longrightarrow> keeps s \<Longrightarrow> keeps s'"
  by (induction rule: listener_step.induct) (auto simp: keeps_def uncounted_def)

lemma keeps_reachable: "reachable s \<Longrightarrow> keeps s"
proof (induction rule: rtranclp_induct)
  case base
  show ?case by (simp add: keeps_def idle_def uncounted_def)
qed (rule keeps_step)

text \<open>
  The answers of Accept up to now, read by the loop of theory Lifecycle, give the result of Start
  and the sessions it has begun.
\<close>

lemma acceptLoop_append:
  "list_all (\<lambda>a. fst a = Accepted) as \<Longrightarrow>
   acceptLoop (as @ bs) = (fst (acceptLoop bs), length as + snd (acceptLoop bs))"
  by (induction as) (auto simp: Let_def case_prod_unfold)

definition follows :: "conc_listener \<Rightarrow> bool" where
  "follows s \<longleftrightarrow>
     (case lc_start s of
        Unstarted \<Rightarrow> lc_answers s = [] \<and> lc_begun s = 0
      | Bound \<Rightarrow> lc_answers s = [] \<and> lc_begun s = 0
      | Returned r \<Rightarrow> (\<exists>err. lc_answers s = [] \<and> lc_begun s = 0 \<and> r = Some (''smtp listen: '' @ err)) \<or>
          acceptLoop (lc_answers s) = (Some r, lc_begun s) \<and>
          (\<forall>err. r = Some err \<longrightarrow> (\<exists>as e. lc_answers s = as @ [(AcceptFailed e, False)] \<and> err = ''smtp accept: '' @ e))
      | _ \<Rightarrow> list_all (\<lambda>a. fst a = Accepted) (lc_answers s) \<and> length (lc_answers s) = lc_begun s + uncounted s)"

lemma follows_step: "listener_step s s' \<Longrightarrow> follows s \<Longrightarrow> follows s'"
  by (induction rule: listener_step.induct)
    (auto simp: follows_def uncounted_def acceptLoop_append acceptError_def split: start_phase.splits)

lemma follows_reachable: "reachable s \<Longrightarrow> follows s"
proof (induction rule: rtranclp_induct)
  case base
  show ?case by (simp add: follows_def idle_def uncounted_def)
qed (rule follows_step)

subsection \<open>Start and the accept loop\<close>

lemma lc_result_simps [simp]:
  "result (s\<lparr>lc_start := Returned r\<rparr>) = Some r"
  by (simp add: result_def)

lemma acceptLoop_open:
  "list_all (\<lambda>a. fst a = Accepted) as \<Longrightarrow> acceptLoop as = (None, length as)"
  using acceptLoop_append [of as "[]"] by simp

text \<open>
  C33: the interleaved listener refines the sequential one. In every state that Start, Stop and the
  sessions can reach together, Start has the result, and has taken the connections, that its loop
  of theory Lifecycle has on the answers of Accept so far. If it ended with an error, then either
  the socket was never bound, or Accept failed before Stop had closed the channel: a Stop never
  makes Start fail.
\<close>

theorem interleaving_refines_Start:
  assumes "reachable s"
  shows "\<exists>bindError. fst (listener_Start bindError (lc_answers s) l) = (result s, lc_begun s + uncounted s) \<and>
    (\<forall>err. result s = Some (Some err) \<longrightarrow>
       bindError \<noteq> None \<or> (\<exists>e as. lc_answers s = as @ [(AcceptFailed e, False)] \<and> err = ''smtp accept: '' @ e))"
proof -
  have f: "follows s" by (rule follows_reachable [OF assms])
  show ?thesis
  proof (cases "lc_start s")
    case (Returned r)
    then have u: "uncounted s = 0" "result s = Some r" by (simp_all add: uncounted_def result_def)
    from f Returned consider (unbound) err where "lc_answers s = []" "lc_begun s = 0" "r = Some (''smtp listen: '' @ err)"
      | (loop) "acceptLoop (lc_answers s) = (Some r, lc_begun s)"
          "\<forall>err. r = Some err \<longrightarrow> (\<exists>as e. lc_answers s = as @ [(AcceptFailed e, False)] \<and> err = ''smtp accept: '' @ e)"
      unfolding follows_def by auto
    then show ?thesis
    proof cases
      case (unbound err)
      with u show ?thesis by (intro exI [of _ "Some err"]) (simp add: listener_Start_def)
    next
      case loop
      with u show ?thesis by (intro exI [of _ None]) (auto simp: listener_Start_def)
    qed
  qed (use f in \<open>auto simp: follows_def result_def uncounted_def listener_Start_def acceptLoop_open intro!: exI [of _ None]\<close>)
qed

subsection \<open>After Stop\<close>

text \<open>Once Stop has closed the socket no connection is taken from it any more.\<close>

lemma no_new_connection:
  assumes "listener_step\<^sup>*\<^sup>* s s'" and "keeps s" and "lc_closed s"
  shows "keeps s' \<and> lc_closed s' \<and> lc_begun s' + uncounted s' = lc_begun s + uncounted s \<and>
    (lc_stop s = Drained \<longrightarrow> lc_stop s' = Drained)"
  using assms
proof (induction rule: rtranclp_induct)
  case (step s1 s2)
  then have s1: "keeps s1" "lc_closed s1" by simp_all
  from step.hyps(2) s1 have "lc_closed s2 \<and> lc_begun s2 + uncounted s2 = lc_begun s1 + uncounted s1 \<and>
      (lc_stop s1 = Drained \<longrightarrow> lc_stop s2 = Drained)"
    by (induction rule: listener_step.induct) (auto simp: keeps_def uncounted_def)
  with keeps_step [OF step.hyps(2) s1(1)] step show ?case by simp
qed simp

text \<open>
  C34: Stop of the SMTP listener. When Stop has returned without an error, after closing a socket
  that Start was serving, the socket is closed for good, and at most one session still runs or is
  still to begin: that of a connection Accept returned before Stop closed the socket. From then on
  no other session ever begins, whatever the goroutines do.
\<close>

theorem stop_leaves_at_most_one:
  assumes "reachable s" and "lc_stop s = Drained" and "lc_closed s" and "listener_step\<^sup>*\<^sup>* s s'"
  shows "\<not> lc_open s' \<and> lc_running s' + uncounted s' \<le> 1 \<and> lc_begun s' \<le> lc_begun s + uncounted s"
proof -
  from no_new_connection [OF assms(4) keeps_reachable [OF assms(1)] assms(3)] assms(2)
  have "keeps s'" "lc_closed s'" "lc_begun s' + uncounted s' = lc_begun s + uncounted s" "lc_stop s' = Drained"
    by simp_all
  then show ?thesis by (auto simp: keeps_def)
qed

subsection \<open>Two races\<close>

lemma go: "reachable s \<Longrightarrow> listener_step s s' \<Longrightarrow> s' = s'' \<Longrightarrow> reachable s''"
  by (simp add: rtranclp.rtrancl_into_rtrancl)

text \<open>The listener with a connection taken from the socket that Stop then closed, and Stop returned.\<close>

definition overtaken :: conc_listener where
  "overtaken =
     \<lparr>lc_start = Taken, lc_stop = Drained, lc_set = True, lc_open = False, lc_stopped = True,
      lc_running = 0, lc_begun = 0, lc_answers = [(Accepted, False)], lc_closed = True\<rparr>"

lemma reachable_overtaken: "reachable overtaken"
proof -
  let ?s1 = "idle\<lparr>lc_start := Bound, lc_open := True\<rparr>"
  let ?s2 = "?s1\<lparr>lc_start := Accepting, lc_set := True\<rparr>"
  let ?s3 = "?s2\<lparr>lc_start := Taken, lc_answers := [(Accepted, False)]\<rparr>"
  let ?s4 = "?s3\<lparr>lc_stop := Locked, lc_open := False, lc_closed := True\<rparr>"
  let ?s5 = "?s4\<lparr>lc_stop := Waiting, lc_stopped := True\<rparr>"
  have "reachable ?s1" by (rule go [OF rtranclp.rtrancl_refl bind refl]) (simp add: idle_def)
  then have "reachable ?s2" by (rule go [OF _ publish refl]) (simp_all add: idle_def)
  then have "reachable ?s3" by (rule go [OF _ accept]) (simp_all add: idle_def)
  then have "reachable ?s4" by (rule go [OF _ stop_locks]) (simp_all add: idle_def)
  then have "reachable ?s5" by (rule go [OF _ stop_signals]) (simp_all add: idle_def)
  then show ?thesis by (rule go [OF _ stop_drained]) (simp_all add: idle_def overtaken_def)
qed

theorem interleaving_refines_Start_witness:
  "\<exists>bindError. fst (listener_Start bindError [(Accepted, False)]
     \<lparr>ls_cfg = sampleListener, ls_maxBody = 0, ls_tls = None, ls_listener = None, ls_stopped = False\<rparr>) = (None, 1)"
  using interleaving_refines_Start [OF reachable_overtaken,
      of "\<lparr>ls_cfg = sampleListener, ls_maxBody = 0, ls_tls = None, ls_listener = None, ls_stopped = False\<rparr>"]
  by (auto simp: overtaken_def result_def uncounted_def)

text \<open>
  The wait group is told of a session only after Accept has returned, so Stop can find it empty
  and report the sessions drained before the last one begins.
\<close>

definition late :: conc_listener where
  "late = overtaken\<lparr>lc_start := Accepting, lc_running := 1, lc_begun := 1\<rparr>"

lemma late_step: "listener_step overtaken late"
proof -
  have "listener_step overtaken
      (overtaken\<lparr>lc_start := Accepting, lc_running := Suc (lc_running overtaken), lc_begun := Suc (lc_begun overtaken)\<rparr>)"
    by (rule begin_session) (simp add: overtaken_def)
  then show ?thesis by (simp add: late_def overtaken_def)
qed

lemma session_after_drained_stop: "reachable late \<and> lc_stop late = Drained \<and> lc_closed late \<and> lc_running late = 1"
  using go [OF reachable_overtaken late_step refl] by (simp add: late_def overtaken_def)

theorem stop_leaves_at_most_one_witness: "\<not> lc_open late \<and> lc_running late + uncounted late \<le> 1 \<and> lc_begun late \<le> 1"
  using stop_leaves_at_most_one [OF reachable_overtaken _ _ r_into_rtranclp [where r = listener_step, OF late_step]]
  by (simp add: overtaken_def uncounted_def)

text \<open>
  A Stop that comes between the bind and the setting of the listener's field finds no socket to
  close: Start goes on, and any number of sessions begin after Stop has returned.
\<close>

definition unstopped :: "nat \<Rightarrow> conc_listener" where
  "unstopped n =
     \<lparr>lc_start = Accepting, lc_stop = Drained, lc_set = True, lc_open = True, lc_stopped = True,
      lc_running = n, lc_begun = n, lc_answers = replicate n (Accepted, True), lc_closed = False\<rparr>"

lemma early_stop_is_lost: "reachable (unstopped n)"
proof (induction n)
  case 0
  let ?s1 = "idle\<lparr>lc_start := Bound, lc_open := True\<rparr>"
  let ?s2 = "?s1\<lparr>lc_stop := Locked\<rparr>"
  let ?s3 = "?s2\<lparr>lc_stop := Waiting, lc_stopped := True\<rparr>"
  let ?s4 = "?s3\<lparr>lc_stop := Drained\<rparr>"
  have "reachable ?s1" by (rule go [OF rtranclp.rtrancl_refl bind refl]) (simp add: idle_def)
  then have "reachable ?s2" by (rule go [OF _ stop_locks]) (simp_all add: idle_def)
  then have "reachable ?s3" by (rule go [OF _ stop_signals]) (simp_all add: idle_def)
  then have "reachable ?s4" by (rule go [OF _ stop_drained]) (simp_all add: idle_def)
  then show ?case by (rule go [OF _ publish]) (simp_all add: idle_def unstopped_def)
next
  case (Suc n)
  let ?s1 = "(unstopped n)\<lparr>lc_start := Taken, lc_answers := replicate n (Accepted, True) @ [(Accepted, True)]\<rparr>"
  from Suc have "reachable ?s1" by (rule go [OF _ accept]) (simp_all add: unstopped_def)
  then show ?case by (rule go [OF _ begin_session]) (simp_all add: unstopped_def replicate_append_same)
qed

end
