(* ===== verification/FormBody.thy ===== *)
theory FormBody
  imports GatewayProps
begin

text \<open>
  The body of a form submission: the body cap of core/gateway/handler.go and the ParseForm of
  net/http it calls, with the query syntax of net/url. ServeHTTP takes ParseForm as an argument;
  here is what the function of the library is, and what the handler sees of a client's form.
  mime.ParseMediaType stays an argument: the media type and an error.
\<close>

subsection \<open>The query syntax\<close>

text \<open>QueryUnescape: the text, or the escape that is malformed.\<close>

fun queryUnescape :: "string \<Rightarrow> string + string" where
  "queryUnescape [] = Inr []"
| "queryUnescape (c # cs) =
     (if c = CHR ''%'' then
        (case cs of
           a # b # r \<Rightarrow>
             (case (hexVal a, hexVal b) of
                (Some h, Some l) \<Rightarrow> map_sum id (Cons (char_of (16 * h + l))) (queryUnescape r)
              | _ \<Rightarrow> Inl (take 3 (c # cs)))
         | _ \<Rightarrow> Inl (take 3 (c # cs)))
      else map_sum id (Cons (if c = CHR ''+'' then CHR '' '' else c)) (queryUnescape cs))"

definition escapeError :: "go_print \<Rightarrow> string \<Rightarrow> string" where
  "escapeError p e = ''invalid URL escape '' @ quote p e"

definition valuesAt :: "values_map \<Rightarrow> string \<Rightarrow> string list" where
  "valuesAt m k = (case map_of m k of None \<Rightarrow> [] | Some vs \<Rightarrow> vs)"

definition addValue :: "string \<Rightarrow> string \<Rightarrow> values_map \<Rightarrow> values_map" where
  "addValue k v m = mapSet k (valuesAt m k @ [v]) m"

definition orElse :: "'a option \<Rightarrow> 'a \<Rightarrow> 'a option" where
  "orElse err e = Some (case err of None \<Rightarrow> e | Some e' \<Rightarrow> e')"

definition cutAt :: "char \<Rightarrow> string \<Rightarrow> string \<times> string" where
  "cutAt b s = (case indexByte s b of None \<Rightarrow> (s, []) | Some i \<Rightarrow> (take i s, drop (Suc i) s))"

text \<open>One piece between ampersands: the error and the values so far.\<close>

definition parsePiece :: "go_print \<Rightarrow> string \<Rightarrow> string option \<times> values_map \<Rightarrow> string option \<times> values_map" where
  "parsePiece p piece em =
     (let (err, m) = em in
      if CHR '';'' \<in> set piece then (Some ''invalid semicolon separator in query'', m)
      else if piece = [] then (err, m)
      else
        (let (k, v) = cutAt CHR ''='' piece in
         case queryUnescape k of
           Inl e \<Rightarrow> (orElse err (escapeError p e), m)
         | Inr key \<Rightarrow>
             (case queryUnescape v of
                Inl e \<Rightarrow> (orElse err (escapeError p e), m)
              | Inr value \<Rightarrow> (err, addValue key value m))))"

definition ParseQuery :: "go_print \<Rightarrow> string \<Rightarrow> string option \<times> values_map" where
  "ParseQuery p q = fold (parsePiece p) (splitOn CHR ''&'' q) (None, [])"

subsection \<open>The body\<close>

text \<open>ReadAll through the MaxBytesReader of the handler; a cap of 0 is none.\<close>

definition readBody :: "int \<Rightarrow> bytes \<Rightarrow> body_error + bytes" where
  "readBody cap body = (if 0 < cap \<and> cap < int (length body) then Inl TooLarge else Inr body)"

text \<open>Without a cap of the handler's, ParseForm has one of its own, ten megabytes.\<close>

definition maxFormSize :: int where
  "maxFormSize = 10 * 2 ^ 20"

definition urlencoded :: string where "urlencoded = ''application/x-www-form-urlencoded''"

definition parsePostForm ::
  "(string \<Rightarrow> string \<times> string option) \<Rightarrow> go_print \<Rightarrow> http_request \<Rightarrow> int \<Rightarrow> body_error option \<times> values_map" where
  "parsePostForm media p r cap =
     (let ct = headerGet (r_header r) ''Content-Type'';
          (ty, mediaErr) = media (if ct = [] then ''application/octet-stream'' else ct);
          err = map_option BadBody mediaErr in
      if ty \<noteq> urlencoded then (err, [])
      else
        (case readBody cap (r_body r) of
           Inl e \<Rightarrow> (orElse err e, [])
         | Inr b \<Rightarrow>
             if cap \<le> 0 \<and> maxFormSize < int (length b) then (Some (BadBody ''http: POST too large''), [])
             else
               (case ParseQuery p b of
                  (None, vs) \<Rightarrow> (err, vs)
                | (Some e, vs) \<Rightarrow> (orElse err (BadBody e), vs))))"

text \<open>The values of the URL's query come after those of the body.\<close>

definition copyValues :: "values_map \<Rightarrow> values_map \<Rightarrow> values_map" where
  "copyValues dst src = fold (\<lambda>(k, vs) m. mapSet k (valuesAt m k @ vs) m) src dst"

definition ParseForm ::
  "(string \<Rightarrow> string \<times> string option) \<Rightarrow> go_print \<Rightarrow> http_request \<Rightarrow> int \<Rightarrow> body_error + values_map" where
  "ParseForm media p r cap =
     (let (err, post) = parsePostForm media p r cap; (e, query) = ParseQuery p (r_query r) in
      case err of
        Some err' \<Rightarrow> Inl err'
      | None \<Rightarrow> (case e of Some e' \<Rightarrow> Inl (BadBody e') | None \<Rightarrow> Inr (copyValues post query)))"

subsection \<open>Encoded forms\<close>

text \<open>
  The ways a client may write a text: a byte as itself unless the syntax uses it, a blank as a
  plus sign, any byte as two hexadecimal digits.
\<close>

inductive encodes :: "string \<Rightarrow> string \<Rightarrow> bool" where
  Done: "encodes [] []"
| Plain: "encodes s e \<Longrightarrow> c \<notin> set ''%+&=;'' \<Longrightarrow> encodes (c # s) (c # e)"
| Plus: "encodes s e \<Longrightarrow> encodes (CHR '' '' # s) (CHR ''+'' # e)"
| Percent: "encodes s e \<Longrightarrow> hexVal a = Some h \<Longrightarrow> hexVal b = Some l \<Longrightarrow>
    encodes (char_of (16 * h + l) # s) (CHR ''%'' # a # b # e)"

lemma hexVal_plain: "hexVal a = Some h \<Longrightarrow> a \<notin> set ''%+&=;''"
  by (auto simp: hexVal_def Let_def split: if_splits)

lemma encodes_unescape: "encodes s e \<Longrightarrow> queryUnescape e = Inr s"
  by (induction rule: encodes.induct) auto

lemma encodes_separators: "encodes s e \<Longrightarrow> CHR ''&'' \<notin> set e \<and> CHR ''='' \<notin> set e \<and> CHR '';'' \<notin> set e"
  by (induction rule: encodes.induct) (auto dest: hexVal_plain)

text \<open>An encoded form: the fields in document order, each name and value encoded in some way.\<close>

definition encodesField :: "string \<times> string \<Rightarrow> string \<Rightarrow> bool" where
  "encodesField kv piece \<longleftrightarrow> (\<exists>ek ev. encodes (fst kv) ek \<and> encodes (snd kv) ev \<and> piece = ek @ CHR ''='' # ev)"

definition encodesForm :: "(string \<times> string) list \<Rightarrow> bytes \<Rightarrow> bool" where
  "encodesForm kvs body \<longleftrightarrow> (\<exists>pieces. list_all2 encodesField kvs pieces \<and> body = join ''&'' pieces)"

text \<open>The values of each name, in order.\<close>

definition holds :: "values_map \<Rightarrow> (string \<times> string) list \<Rightarrow> bool" where
  "holds m kvs \<longleftrightarrow>
     distinct (map fst m) \<and>
     (\<forall>k. map_of m k = (if k \<in> fst ` set kvs then Some (map snd (filter (\<lambda>kv. fst kv = k) kvs)) else None))"

lemma holds_Nil: "holds [] []"
  by (simp add: holds_def)

lemma holds_valuesAt: "holds m kvs \<Longrightarrow> valuesAt m k = map snd (filter (\<lambda>kv. fst kv = k) kvs)"
  by (auto simp: holds_def valuesAt_def filter_empty_conv)

lemma holds_addValue: "holds m kvs \<Longrightarrow> holds (addValue k v m) (kvs @ [(k, v)])"
  using holds_valuesAt [of m kvs k] by (auto simp: addValue_def holds_def)

lemma parsePiece_field:
  assumes "encodesField kv piece"
  shows "parsePiece p piece (err, m) = (err, addValue (fst kv) (snd kv) m)"
proof -
  obtain ek ev where e: "encodes (fst kv) ek" "encodes (snd kv) ev" "piece = ek @ CHR ''='' # ev"
    using assms by (auto simp: encodesField_def)
  then have "cutAt CHR ''='' piece = (ek, ev)"
    using encodes_separators [OF e(1)] by (simp add: cutAt_def indexByte_split)
  with e encodes_separators [OF e(1)] encodes_separators [OF e(2)] show ?thesis
    by (simp add: parsePiece_def encodes_unescape)
qed

lemma parse_fields:
  "list_all2 encodesField kvs pieces \<Longrightarrow> holds m pre \<Longrightarrow>
   \<exists>m'. fold (parsePiece p) pieces (err, m) = (err, m') \<and> holds m' (pre @ kvs)"
proof (induction arbitrary: m pre rule: list_all2_induct)
  case (Cons kv kvs piece pieces)
  from Cons.IH [OF holds_addValue [OF Cons.prems, of "fst kv" "snd kv"]] show ?case
    by (simp add: parsePiece_field [OF Cons.hyps(1)])
qed simp

lemma field_no_ampersand: "encodesField kv piece \<Longrightarrow> CHR ''&'' \<notin> set piece"
  by (auto simp: encodesField_def dest: encodes_separators)

lemma ParseQuery_form:
  assumes "encodesForm kvs body"
  shows "\<exists>m. ParseQuery p body = (None, m) \<and> holds m kvs"
proof -
  obtain pieces where ps: "list_all2 encodesField kvs pieces" "body = join ''&'' pieces"
    using assms by (auto simp: encodesForm_def)
  show ?thesis
  proof (cases "pieces = []")
    case True
    with ps show ?thesis by (simp add: ParseQuery_def parsePiece_def holds_Nil)
  next
    case False
    have "\<forall>w \<in> set pieces. CHR ''&'' \<notin> set w"
      using ps(1) field_no_ampersand by (metis in_set_conv_nth list_all2_conv_all_nth)
    then have "splitOn CHR ''&'' body = pieces" using splitOn_join [OF False] ps(2) by simp
    with parse_fields [OF ps(1) holds_Nil, of p None] show ?thesis by (simp add: ParseQuery_def)
  qed
qed

lemma ParseQuery_Nil: "ParseQuery p [] = (None, [])"
  by (simp add: ParseQuery_def parsePiece_def)

subsection \<open>Forms at the handler\<close>

text \<open>The body is within the handler's cap, or within that of ParseForm where it has none.\<close>

definition withinCap :: "int \<Rightarrow> bytes \<Rightarrow> bool" where
  "withinCap cap body \<longleftrightarrow> int (length body) \<le> (if 0 < cap then cap else maxFormSize)"

lemma ParseForm_urlencoded:
  assumes "media (headerGet (r_header r) ''Content-Type'') = (urlencoded, None)"
    and "headerGet (r_header r) ''Content-Type'' \<noteq> []" and "ParseQuery p (r_query r) = (None, query)"
  shows "withinCap cap (r_body r) \<Longrightarrow> ParseForm media p r cap =
      (case ParseQuery p (r_body r) of (None, m) \<Rightarrow> Inr (copyValues m query) | (Some e, _) \<Rightarrow> Inl (BadBody e))"
    and "0 < cap \<Longrightarrow> \<not> withinCap cap (r_body r) \<Longrightarrow> ParseForm media p r cap = Inl TooLarge"
  using assms by (auto simp: ParseForm_def parsePostForm_def readBody_def withinCap_def orElse_def
      Let_def split: prod.split option.split)

lemma ParseForm_multipart:
  assumes "media (headerGet (r_header r) ''Content-Type'') = (''multipart/form-data'', None)"
    and "headerGet (r_header r) ''Content-Type'' \<noteq> []" and "ParseQuery p (r_query r) = (None, query)"
  shows "ParseForm media p r cap = Inr (copyValues [] query)"
  using assms by (simp add: ParseForm_def parsePostForm_def urlencoded_def Let_def)

text \<open>The values of the query go behind those of the body.\<close>

lemma map_of_copyValues:
  assumes "distinct (map fst query)"
  shows "map_of (copyValues m query) k = (case map_of query k of None \<Rightarrow> map_of m k | Some vs \<Rightarrow> Some (valuesAt m k @ vs))"
  using assms
proof (induction query arbitrary: m)
  case (Cons p query)
  obtain k' vs where p: "p = (k', vs)" by (cases p)
  then have "map_of query k' = None" using Cons.prems by (simp add: map_of_eq_None_iff)
  with Cons p show ?case by (auto simp: copyValues_def valuesAt_def split: option.split)
qed (simp add: copyValues_def)

lemma distinct_copyValues: "distinct (map fst m) \<Longrightarrow> distinct (map fst (copyValues m query))"
  unfolding copyValues_def by (induction query arbitrary: m) (simp_all add: case_prod_unfold)

lemma filter_other: "k \<notin> fst ` set kvs \<Longrightarrow> filter (\<lambda>kv. fst kv = k) kvs = []"
  by (force simp: filter_empty_conv)

lemma holds_copyValues: "holds m kvs \<Longrightarrow> holds query qs \<Longrightarrow> holds (copyValues m query) (kvs @ qs)"
  using holds_valuesAt [of m kvs]
  by (auto simp: holds_def map_of_copyValues distinct_copyValues filter_other split: option.split)

text \<open>
  C12: a url-encoded form arrives as it was filled in. Take an endpoint in form mode with the
  ParseForm of the library, a content type, and any well-formed query in the URL. If the body is
  url-encoded, in whatever of the ways \<open>encodes\<close> allows, and within the body cap, the handler checks
  exactly the fields and values that were filled in, repeated names with their values in order, and
  behind them those of the query; above the cap it answers 413 (or the error redirect) and checks
  nothing. If the body is multipart/form-data, the other content type the handler lets through,
  its fields are not read, and the handler checks those of the query alone.
\<close>

theorem form_arrives_as_filled_in:
  assumes "\<not> apiMode h" and "ge_parseForm v = ParseForm media p"
    and "headerGet (r_header r) ''Content-Type'' \<noteq> []" and "encodesForm qs (r_query r)"
  shows "(media (headerGet (r_header r) ''Content-Type'') = (urlencoded, None) \<and> encodesForm kvs (r_body r) \<longrightarrow>
      (withinCap (h_maxBodySize h) (r_body r) \<longrightarrow>
         (\<exists>form. holds form (kvs @ qs) \<and> bodyRead v h r = formChecked v h r form)) \<and>
      (0 < h_maxBodySize h \<and> \<not> withinCap (h_maxBodySize h) (r_body r) \<longrightarrow>
         bodyRead v h r = (writeErrorResponse v h r 413 ''request body too large'', [LogBodyTooLarge (h_maxBodySize h)]))) \<and>
    (media (headerGet (r_header r) ''Content-Type'') = (''multipart/form-data'', None) \<longrightarrow>
      (\<exists>form. holds form qs \<and> bodyRead v h r = formChecked v h r form))"
proof -
  obtain query where q: "ParseQuery p (r_query r) = (None, query)" "holds query qs" using ParseQuery_form [OF assms(4)] by blast
  note url = ParseForm_urlencoded [where media = media and p = p and cap = "h_maxBodySize h", OF _ assms(3) q(1)]
    and multi = ParseForm_multipart [where media = media and p = p and cap = "h_maxBodySize h", OF _ assms(3) q(1)]
  have "\<exists>form. holds form (kvs @ qs) \<and> bodyRead v h r = formChecked v h r form"
    if sent: "media (headerGet (r_header r) ''Content-Type'') = (urlencoded, None)" "encodesForm kvs (r_body r)"
      "withinCap (h_maxBodySize h) (r_body r)"
  proof -
    obtain m where "ParseQuery p (r_body r) = (None, m)" "holds m kvs" using ParseQuery_form [OF sent(2)] by blast
    with url(1) [OF sent(1,3)] holds_copyValues [OF _ q(2)] assms(1,2) show ?thesis by (auto simp: bodyRead_def)
  qed
  moreover have "bodyRead v h r = (writeErrorResponse v h r 413 ''request body too large'', [LogBodyTooLarge (h_maxBodySize h)])"
    if "media (headerGet (r_header r) ''Content-Type'') = (urlencoded, None)" "0 < h_maxBodySize h"
      "\<not> withinCap (h_maxBodySize h) (r_body r)"
    using url(2) [OF that] assms(1,2) by (simp add: bodyRead_def)
  moreover have "\<exists>form. holds form qs \<and> bodyRead v h r = formChecked v h r form"
    if "media (headerGet (r_header r) ''Content-Type'') = (''multipart/form-data'', None)"
    using multi [OF that] holds_copyValues [OF holds_Nil q(2)] assms(1,2) by (auto simp: bodyRead_def)
  ultimately show ?thesis by blast
qed

text \<open>
  A multipart form without a query is so checked as a form without fields.
\<close>

lemma multipart_fields_are_dropped:
  assumes "\<not> apiMode h" and "ge_parseForm v = ParseForm media p"
    and "headerGet (r_header r) ''Content-Type'' \<noteq> []"
    and "media (headerGet (r_header r) ''Content-Type'') = (''multipart/form-data'', None)" and "r_query r = []"
  shows "bodyRead v h r = formChecked v h r []"
  using assms by (simp add: bodyRead_def ParseForm_def parsePostForm_def urlencoded_def copyValues_def ParseQuery_Nil Let_def)

text \<open>Without max_body_size ParseForm's own cap answers 400, not 413.\<close>

lemma uncapped_form_too_large:
  assumes "\<not> apiMode h" and "ge_parseForm v = ParseForm media p"
    and "headerGet (r_header r) ''Content-Type'' \<noteq> []"
    and "media (headerGet (r_header r) ''Content-Type'') = (urlencoded, None)"
    and "h_maxBodySize h = 0" and "maxFormSize < int (length (r_body r))"
  shows "bodyRead v h r = (httpError ''parse form: http: POST too large'' 400, [])"
  using assms by (simp add: bodyRead_def ParseForm_def parsePostForm_def readBody_def Let_def case_prod_unfold)

subsection \<open>A submitted form\<close>

definition openForm :: "unit handler" where
  "openForm = sampleHandler\<lparr>h_cfg := sampleEndpoint\<lparr>ep_Auth := []\<rparr>, h_maxBodySize := 64\<rparr>"

definition formEnv :: "unit gw_env" where
  "formEnv = (sampleEnv 0)\<lparr>ge_parseForm := ParseForm (\<lambda>ct. (ct, None)) samplePrint\<rparr>"

definition posted :: "bytes \<Rightarrow> http_request" where
  "posted body =
     \<lparr>r_method = ''POST'', r_path = ''/api'', r_query = [], r_header = [(''Content-Type'', [urlencoded])],
      r_host = ''h'', r_remoteAddr = ''192.0.2.1:1'', r_body = body\<rparr>"

lemma posted_select [simp]:
  "r_query (posted b) = []" "r_body (posted b) = b" "headerGet (r_header (posted b)) ''Content-Type'' = urlencoded"
  "h_maxBodySize openForm = 64" "\<not> apiMode openForm" "ge_parseForm formEnv = ParseForm (\<lambda>ct. (ct, None)) samplePrint"
  by (simp_all add: posted_def headerGet_def openForm_def apiMode_def formEnv_def AuthAPIKey_def)

lemma encodes_plain: "list_all (\<lambda>c. c \<notin> set ''%+&=;'') s \<Longrightarrow> encodes s s"
  by (induction s) (auto intro: encodes.intros)

lemma sample_encoding: "encodesForm [(''msg'', ''a &''), (''msg'', ''c'')] ''msg=a+%26&msg=c''"
proof -
  have "char_of (16 * 2 + 6 :: nat) = CHR ''&''" by code_simp
  moreover have "encodes [char_of (16 * 2 + 6 :: nat)] ''%26''"
    by (rule Percent [OF Done]) (simp_all add: hexVal_def Let_def)
  ultimately have "encodes ''a &'' ''a+%26''" by (auto intro!: Plain Plus)
  moreover have "encodes ''msg'' ''msg''" "encodes ''c'' ''c''" by (rule encodes_plain; simp)+
  ultimately have "encodesField (''msg'', ''a &'') (''msg'' @ CHR ''='' # ''a+%26'')"
    "encodesField (''msg'', ''c'') (''msg'' @ CHR ''='' # ''c'')"
    unfolding encodesField_def fst_conv snd_conv by blast+
  then have "list_all2 encodesField [(''msg'', ''a &''), (''msg'', ''c'')] [''msg=a+%26'', ''msg=c'']" by simp
  then show ?thesis unfolding encodesForm_def by (rule exI [of _ "[''msg=a+%26'', ''msg=c'']", OF conjI]) simp
qed

lemma encodesForm_Nil: "encodesForm [] []"
  by (simp add: encodesForm_def)

theorem form_arrives_as_filled_in_witness:
  "(\<exists>form. map_of form ''msg'' = Some [''a &'', ''c''] \<and>
     bodyRead formEnv openForm (posted ''msg=a+%26&msg=c'') = formChecked formEnv openForm (posted ''msg=a+%26&msg=c'') form) \<and>
   (\<exists>form. map_of form ''msg'' = Some [''a &'', ''c'', ''a &'', ''c''] \<and>
     (let r = (posted ''msg=a+%26&msg=c'')\<lparr>r_query := ''msg=a+%26&msg=c''\<rparr> in
      bodyRead formEnv openForm r = formChecked formEnv openForm r form))"
proof
  let ?r = "posted ''msg=a+%26&msg=c''"
  have cap: "withinCap (h_maxBodySize openForm) (r_body ?r)" by (simp add: withinCap_def)
  then obtain form where "holds form [(''msg'', ''a &''), (''msg'', ''c'')]"
    "bodyRead formEnv openForm ?r = formChecked formEnv openForm ?r form"
    using form_arrives_as_filled_in [of openForm formEnv "\<lambda>ct. (ct, None)" samplePrint ?r "[]"] sample_encoding encodesForm_Nil
    by (fastforce simp: urlencoded_def)
  then show "\<exists>form. map_of form ''msg'' = Some [''a &'', ''c''] \<and>
     bodyRead formEnv openForm ?r = formChecked formEnv openForm ?r form"
    by (intro exI [of _ form]) (simp add: holds_def)
  let ?q = "?r\<lparr>r_query := ''msg=a+%26&msg=c''\<rparr>"
  have "r_header ?q = r_header ?r" "r_body ?q = r_body ?r" by simp_all
  with cap obtain form' where "holds form' ([(''msg'', ''a &''), (''msg'', ''c'')] @ [(''msg'', ''a &''), (''msg'', ''c'')])"
    "bodyRead formEnv openForm ?q = formChecked formEnv openForm ?q form'"
    using form_arrives_as_filled_in [of openForm formEnv "\<lambda>ct. (ct, None)" samplePrint ?q "[(''msg'', ''a &''), (''msg'', ''c'')]"]
      sample_encoding by (fastforce simp: urlencoded_def)
  then show "\<exists>form. map_of form ''msg'' = Some [''a &'', ''c'', ''a &'', ''c''] \<and>
     (let r = ?q in bodyRead formEnv openForm r = formChecked formEnv openForm r form)"
    by (intro exI [of _ form']) (simp add: holds_def)
qed

end
