(* ===== verification/Spec2Isabelle.thy ===== *)
theory Spec2Isabelle
  imports GatewayConcurrent Posthorn Recorder ProxyIP Idempotency Spam Csrf Response Template SmtpSession SigV4 SmtpOut
    Builtins Config Logging Validate SmtpReplies GatewayPrivacy GatewayMetrics EndToEnd Command
    GoDuration Wire ListenerConcurrent FormBody
begin

text \<open>
  Posthorn is a self-hosted e-mail gateway written in Go (core/). It takes form posts and JSON API
  calls over HTTP, and messages over SMTP, and hands each as one mail to a provider: the HTTP APIs
  of Postmark, Resend, Mailgun and Amazon SES, or an SMTP relay. This development models the
  program as HOL functions and proves what makes it correct. All source paths below are under
  src/core/.

  \<^bold>\<open>How the parts fit.\<close> cmd/posthorn/main.go loads a configuration (config/config.go), builds one
  transport (transport/) and one handler (gateway/handler.go) per endpoint, mounts the handlers
  on a router with /healthz and /metrics, adds the SMTP listener (smtp/) where one is configured,
  and runs both ingresses (ingress/). A handler takes a request through authentication or the
  origin check, the idempotency cache, the rate limiter, the body, the honeypot and CSRF checks
  and the field checks, renders the templates and sends the message with one retry. Its state
  from one request to the next is its limiter and its cache; every theory below takes that state
  as an argument and returns it.

  \<^bold>\<open>The theories, bottom up.\<close>
  Prelude: lists, maps kept as association lists, byte strings and the functions of the strings
  package. GoNum and Float64: int64 wrap-around, durations and times, parsing and printing of
  integers, and float64 rounding as a function on rationals. Calendar: UTC dates for the AWS
  signature. Std: the library functions whose workings do not matter, as one record argument
  (\<open>gostd\<close>). Http: requests, and responses as operations on a response writer. Json:
  encoding/json as writer and reader, with the round trip. NetIP: net/netip. Lru: the bounded
  cache of golang-lru, a third-party package, as an argument with the locale \<open>lru_cache\<close> of its
  documented laws; a list in order of use satisfies them.

  RateLimit (ratelimit/ratelimit.go): \<open>allowAt\<close> on the store of buckets the cache points to, with
  the float64 arithmetic of the code. Refinement: while the clients fit the cache each gets the
  decisions of a token bucket of its own; the number allowed is bounded by burst plus rate, with
  the rounding error explicit.
  ProxyIP (ratelimit.ClientIP, presets.go): the client address behind proxies; forged entries of
  X-Forwarded-For have no effect.
  Idempotency (idempotency/cache.go): \<open>idem_Lookup\<close>, \<open>ClaimInFlight\<close>, \<open>idem_Store\<close>, \<open>idem_Abandon\<close>,
  against the history of operations, and under interleaved callers (\<open>idem_step\<close>).
  Spam, Validate, Csrf, Response, Template (the packages of these names): the checks on a form,
  the tokens, the JSON envelopes, the rendering of subject and body with its passthrough block.
  Transport (transport/transport.go, registry.go): messages, errors with their classes, the
  registry, and the locale \<open>transport_contract\<close>: a failed Send carries a class. HttpTransports
  and SigV4 (postmark.go, resend.go, mailgun.go, ses.go, awssigv4.go): the four HTTP APIs over one
  locale \<open>http_api\<close>, interpreted for each. SmtpOut (smtpout.go): the relay dialogue as a trace of
  commands. Builtins: the five registrations, and \<open>anySend\<close>, which satisfies the contract.
  SmtpConfig, MimeParse, SmtpSession (smtp/): the listener's configuration, the choice of the text
  part, and the command loop of a session over the lines a client sends; every message handed
  over has passed TLS, authentication and the allow-lists. SmtpReplies: the same loop as a dialogue
  (\<open>dialog\<close>, a step relation over commands and their answers); every command gets one answer of
  the right form, and the session ends. Wire: the bytes of such a connection, with the DotWriter
  of the outbound side and the DotReader of the session as the state machines of net/textproto;
  a message written by one end is read by the other line for line.
  Config (config/config.go): validation of every block, placeholders, Load. GoDuration: the
  duration texts of the file, with the arithmetic of time.ParseDuration.
  Metrics, Recorder (metrics/): counters and histograms, the exposition text, the typed recorder.
  GatewayForm, Gateway (gateway/handler.go): the pieces of the pipeline, and the pipeline as
  nested functions in the order of the code, from \<open>ServeHTTP\<close> over \<open>serveAPI\<close> or \<open>serveForm\<close>,
  \<open>idempotent\<close>, \<open>rateLimited\<close>, \<open>bodyRead\<close>, \<open>formChecked\<close>, \<open>csrfChecked\<close>, \<open>validated\<close> and \<open>deliver\<close>
  to \<open>dispatch\<close>; each returns the operations on the response writer and the events (log lines,
  metric calls, calls of the transport) of the rest of the request. GatewayProps and GatewayReplay
  prove what it guarantees: which requests send which mail, the retry policy, what a 200 means,
  and the replay of keyed requests across any sequence of requests; GatewayConcurrent cuts a keyed
  request into the steps between the mutexes and proves at-most-once processing under every
  interleaving. GatewayPrivacy states what does not flow where, as noninterference: two runs that
  differ in an API key, in a client address under strip_client_ip, or in the credentials of the
  provider cannot be told apart by responses, logs, metrics, mails or stored replays.
  FormBody: the body of a form submission, with ParseForm of net/http and the query syntax of net/url
  written out; of a url-encoded form the fields that are checked are those that were filled in, of a
  multipart form none is read. GatewayMetrics feeds the Recorder with the handlers' calls: the
  metrics page renders and adds up to the requests that passed the checks and to what the transport
  answered. EndToEnd composes the front ends with the outbound SMTP transport: what a
  form visitor, or a client of the SMTP listener, can make Posthorn tell the relay.
  Lifecycle (ingress/, smtp/listener.go): starting and stopping. ListenerConcurrent: the SMTP
  listener as the interleaved steps of the goroutines of Start, of Stop and of the sessions
  (\<open>listener_step\<close>); it refines the operations of Lifecycle, a Stop that closed the socket leaves at
  most one session, and two races of Start and Stop are shown. Posthorn (cmd/posthorn/main.go):
  the router (locale \<open>servemux\<close>: net/http's documented behaviour), what the validate and serve
  commands do with a configuration, and the shutdown, with the exit a second signal forces.
  Command: main itself, the subcommands with their flags, output, log records and exit statuses; a
  file that validate accepts, with plain paths that are not reserved, is served. Logging (log/log.go): loggers, levels, the submission id.

  \<^bold>\<open>Conventions.\<close> Strings and byte slices are lists of characters, one per byte. A Go map is an
  association list with distinct keys in the order in which a range visits it, and the theorems
  that need it are proved for every order (\<open>sameMap\<close>). Go's int64 and duration arithmetic wraps
  (\<open>wrap64\<close>) where it can overflow. Errors are values of a sum or option type; panics are values
  too. Time is an argument: every point at which the pipeline reads the clock has its own reading.
  All loops are structural or have a termination proof, so there is no fuel.

  \<^bold>\<open>Arguments, and what is assumed of them.\<close> Go's template engine, url.Parse, mail.ParseAddress,
  the MIME readers, hashes, TLS, sockets, files, the environment and the TOML decoder are
  arguments without assumptions: what is proved holds whatever they compute. The laws of the LRU
  cache and of the router are the locales named above, both interpreted on concrete functions.

  \<^bold>\<open>Not modelled.\<close> What the flag package prints of a flag error; the delivery of signals (which of
  them arrive is an argument); slog's encoding of records, and the fixed attributes and latencies
  of log lines; the records that the ingresses log as they start and stop (they stand between those
  of main on standard output); the parser's words for a bad address inside an SMTP relay error; the source of random submission ids (an argument); the parsing of HTTP requests
  by net/http, of media types by package mime, and the bound that newer releases of Go put on the
  number of form parameters; the panic of a wait group that is used again while it is waited for;
  the documentation site, the deployment files and the tests. A panic inside a request (net/http
  recovers it) is not an outcome of \<open>ServeHTTP\<close>. Requests without an idempotency key share only the limiter, which holds
  its mutex for a whole decision, so their runs are sequences of requests.
\<close>

end
